(* ===== verification/Relay_Prelude.thy ===== *)
theory Relay_Prelude
  imports Main "HOL-Library.Word" "HOL-Library.Monad_Syntax"
begin

text \<open>
  The vocabulary shared by every component of the relay: byte strings with checked access, the
  network byte order of 16-bit fields, and the rewrite collections the component proofs use.

  A C buffer is a \<^typ>\<open>8 word list\<close> that holds exactly the bytes the object has.  Every access the
  code makes through a pointer is a checked access whose result is \<^term>\<open>None\<close> when it leaves the
  object: \<^term>\<open>None\<close> is the model's value for ``the C program has no defined behaviour here''
  (and, in \<open>send_payloads\<close>, for the abort of a failed \<^verbatim>\<open>assert\<close>).  A handler that returns
  \<^term>\<open>Some s\<close> therefore made no access out of range.
\<close>

unbundle bit_operations_syntax

type_synonym byte = "8 word"
type_synonym u16 = "16 word"
type_synonym u32 = "32 word"
type_synonym u64 = "64 word"

named_theorems access_simps \<open>checked reads and writes inside their object\<close>
named_theorems wire_simps \<open>conversions between fields and the bytes on the wire\<close>

section \<open>Options\<close>

lemma bind_SomeI [intro]: "m = Some x \<Longrightarrow> f x = Some y \<Longrightarrow> Option.bind m f = Some y"
  by simp

lemma bind_SomeE [elim!]:
  assumes "Option.bind m f = Some y"
  obtains x where "m = Some x" "f x = Some y"
  using assms by (auto simp: bind_eq_Some_conv)

lemma if_None_SomeD: "(if P then None else m) = Some y \<Longrightarrow> \<not> P \<and> m = Some y"
  by (auto split: if_splits)

section \<open>Byte order\<close>

text \<open>A big-endian 16-bit field and its two bytes, as \<^verbatim>\<open>htons\<close> lays them out.\<close>

definition be16 :: "byte \<Rightarrow> byte \<Rightarrow> u16" where
  "be16 a b = push_bit 8 (ucast a) OR ucast b"

definition hi8 :: "u16 \<Rightarrow> byte" where
  "hi8 w = ucast (drop_bit 8 w)"

definition lo8 :: "u16 \<Rightarrow> byte" where
  "lo8 w = ucast w"

definition net16 :: "u16 \<Rightarrow> byte list" where
  "net16 w = [hi8 w, lo8 w]"

lemma hi8_be16 [simp, wire_simps]: "hi8 (be16 a b) = a"
  unfolding be16_def hi8_def by (rule bit_word_eqI) (auto simp: bit_simps dest: bit_imp_le_length)

lemma lo8_be16 [simp, wire_simps]: "lo8 (be16 a b) = b"
  unfolding be16_def lo8_def by (rule bit_word_eqI) (auto simp: bit_simps)

lemma be16_hi8_lo8 [simp, wire_simps]: "be16 (hi8 w) (lo8 w) = w"
  unfolding be16_def hi8_def lo8_def by (rule bit_word_eqI) (auto simp: bit_simps)

lemma be16_eq_iff [simp]: "be16 a b = be16 c d \<longleftrightarrow> a = c \<and> b = d"
  by (metis hi8_be16 lo8_be16)

lemma length_net16 [simp]: "length (net16 w) = 2"
  by (simp add: net16_def)

lemma unat_be16: "unat (be16 a b) = 256 * unat a + unat b"
proof -
  have disj: "push_bit 8 (ucast a) AND (ucast b :: u16) = 0"
    by (rule bit_word_eqI) (auto simp: bit_simps dest!: bit_imp_le_length)
  have a: "unat a < 256" and b: "unat b < 256"
    using unsigned_less [of a] unsigned_less [of b] by simp_all
  have "be16 a b = push_bit 8 (ucast a) + ucast b"
    unfolding be16_def using disj by (simp add: disjunctive_add_eq_or)
  also have "\<dots> = word_of_nat (256 * unat a + unat b)"
    by (simp add: push_bit_eq_mult mult.commute)
  finally have "unat (be16 a b) = (256 * unat a + unat b) mod 2 ^ 16"
    by (simp only: unat_of_nat) simp
  with a b show ?thesis by simp
qed

lemma unat_byte_less [simp]: "unat (b :: byte) < 256"
  using unsigned_less [of b] by simp

lemma unat_u16_less [simp]: "unat (w :: u16) < 65536"
  using unsigned_less [of w] by simp

lemma unat_u16_le [simp]: "unat (w :: u16) \<le> 65535"
  using unat_u16_less [of w] by linarith

section \<open>Checked access to byte strings\<close>

definition read8 :: "byte list \<Rightarrow> nat \<Rightarrow> byte option" where
  "read8 p i = (if i < length p then Some (p ! i) else None)"

definition read16 :: "byte list \<Rightarrow> nat \<Rightarrow> u16 option" where
  "read16 p i = do { a \<leftarrow> read8 p i; b \<leftarrow> read8 p (i + 1); Some (be16 a b) }"

text \<open>\<^verbatim>\<open>memcpy\<close> out of a buffer: \<open>n\<close> bytes from offset \<open>i\<close>.\<close>

definition window :: "byte list \<Rightarrow> nat \<Rightarrow> nat \<Rightarrow> byte list" where
  "window p i n = take n (drop i p)"

definition read_bytes :: "byte list \<Rightarrow> nat \<Rightarrow> nat \<Rightarrow> byte list option" where
  "read_bytes p i n = (if i + n \<le> length p then Some (window p i n) else None)"

text \<open>\<^verbatim>\<open>memcpy\<close> into a buffer: the bytes \<open>vs\<close> at offset \<open>i\<close>.\<close>

definition patch :: "byte list \<Rightarrow> nat \<Rightarrow> byte list \<Rightarrow> byte list" where
  "patch p i vs = take i p @ vs @ drop (i + length vs) p"

definition write_bytes :: "byte list \<Rightarrow> nat \<Rightarrow> byte list \<Rightarrow> byte list option" where
  "write_bytes p i vs = (if i + length vs \<le> length p then Some (patch p i vs) else None)"

lemma read8_Some [access_simps]: "i < length p \<Longrightarrow> read8 p i = Some (p ! i)"
  by (simp add: read8_def)

lemma read8_eq_Some: "read8 p i = Some b \<longleftrightarrow> i < length p \<and> b = p ! i"
  by (auto simp: read8_def)

lemma read16_Some [access_simps]:
  "i + 1 < length p \<Longrightarrow> read16 p i = Some (be16 (p ! i) (p ! (i + 1)))"
  by (simp add: read16_def read8_def)

lemma read16_eq_Some:
  "read16 p i = Some w \<longleftrightarrow> i + 1 < length p \<and> w = be16 (p ! i) (p ! (i + 1))"
  by (auto simp: read16_def read8_def split: if_splits)

lemma read_bytes_Some [access_simps]: "i + n \<le> length p \<Longrightarrow> read_bytes p i n = Some (window p i n)"
  by (simp add: read_bytes_def)

lemma read_bytes_eq_Some: "read_bytes p i n = Some q \<longleftrightarrow> i + n \<le> length p \<and> q = window p i n"
  by (auto simp: read_bytes_def)

lemma write_bytes_Some [access_simps]:
  "i + length vs \<le> length p \<Longrightarrow> write_bytes p i vs = Some (patch p i vs)"
  by (simp add: write_bytes_def)

lemma write_bytes_eq_Some:
  "write_bytes p i vs = Some q \<longleftrightarrow> i + length vs \<le> length p \<and> q = patch p i vs"
  by (auto simp: write_bytes_def)

lemma read8_append1 [access_simps]: "i < length p \<Longrightarrow> read8 (p @ q) i = read8 p i"
  by (simp add: read8_def nth_append)

lemma length_window [simp]: "length (window p i n) = min n (length p - i)"
  by (simp add: window_def)

lemma nth_window [simp]: "i + k < length p \<Longrightarrow> k < n \<Longrightarrow> window p i n ! k = p ! (i + k)"
  by (simp add: window_def)

lemma window_all [simp]: "window p 0 (length p) = p"
  by (simp add: window_def)

lemma length_patch [simp]: "i + length vs \<le> length p \<Longrightarrow> length (patch p i vs) = length p"
  by (simp add: patch_def)

lemma nth_patch:
  assumes "i + length vs \<le> length p" "k < length p"
  shows "patch p i vs ! k = (if i \<le> k \<and> k < i + length vs then vs ! (k - i) else p ! k)"
  using assms by (auto simp: patch_def nth_append min_def)

lemma nth_patch_out [simp]:
  assumes "i + length vs \<le> length p" "k < length p" "k < i \<or> i + length vs \<le> k"
  shows "patch p i vs ! k = p ! k"
  using assms by (auto simp: nth_patch)

lemma window_patch_same [simp]:
  assumes "i + length vs \<le> length p" "n = length vs"
  shows "window (patch p i vs) i n = vs"
  using assms by (simp add: window_def patch_def)

lemma window_patch_disjoint:
  assumes "i + length vs \<le> length p" "j + n \<le> i \<or> i + length vs \<le> j"
  shows "window (patch p i vs) j n = window p j n"
proof (rule nth_equalityI)
  show len: "length (window (patch p i vs) j n) = length (window p j n)"
    using assms by simp
  fix k assume "k < length (window (patch p i vs) j n)"
  with len have k: "k < n" "j + k < length p" by (auto simp: min_def split: if_splits)
  with assms have "patch p i vs ! (j + k) = p ! (j + k)"
    by (intro nth_patch_out) auto
  with k assms show "window (patch p i vs) j n ! k = window p j n ! k" by simp
qed

lemma window_append1 [simp]: "i + n \<le> length p \<Longrightarrow> window (p @ q) i n = window p i n"
  by (simp add: window_def)

lemma window_append2: "length p \<le> i \<Longrightarrow> window (p @ q) i n = window q (i - length p) n"
  by (simp add: window_def)

lemma drop_patch_beyond:
  assumes "i + length vs \<le> j" "i + length vs \<le> length p"
  shows "drop j (patch p i vs) = drop j p"
  using assms by (simp add: patch_def)

text \<open>\<^verbatim>\<open>memcmp(a, b, n) == 0\<close> over two windows that are inside their objects.\<close>

lemma window_eq_iff:
  assumes "i + n \<le> length p" "j + n \<le> length q"
  shows "window p i n = window q j n \<longleftrightarrow> (\<forall>k<n. p ! (i + k) = q ! (j + k))"
  using assms by (auto simp: list_eq_iff_nth_eq)

lemma patch_window_id: "i + n \<le> length p \<Longrightarrow> patch p i (window p i n) = p"
  by (intro nth_equalityI) (auto simp: nth_patch)

lemma unat_of_nat_16: "n < 65536 \<Longrightarrow> unat (word_of_nat n :: u16) = n"
  by (simp only: unat_of_nat) simp

lemma unat_of_nat_8: "n < 256 \<Longrightarrow> unat (word_of_nat n :: byte) = n"
  by (simp only: unat_of_nat) simp

lemma patch_append:
  "i + length a + length b \<le> length p \<Longrightarrow> patch (patch p i a) (i + length a) b = patch p i (a @ b)"
  by (intro nth_equalityI) (auto simp: nth_patch nth_append)

end
