(* ===== verification/Wire.thy ===== *)
theory Wire
  imports Relay_Prelude
begin

text \<open>
  Addresses and field offsets: the macros of \<^verbatim>\<open>src/helper.h\<close>, the constants of \<^verbatim>\<open>src/packet.h\<close> and
  the two 32-bit conversions of \<^verbatim>\<open>src/dhcp-server.c\<close>.  A \<^verbatim>\<open>uint8_t ip[4]\<close> is an \<open>ip4\<close>, a
  \<^verbatim>\<open>uint8_t mac[6]\<close> a \<open>mac\<close>: fixed-size arrays are fixed-size values, so \<^verbatim>\<open>CMP_IPV4\<close> and \<^verbatim>\<open>CMP_MAC\<close>
  are equality.  Bitwise operations on an address word act on each byte alone, so the
  \<^verbatim>\<open>uint32_t\<close> casts of \<^verbatim>\<open>IS_SUBNET\<close> and \<^verbatim>\<open>IS_BROADCAST\<close> are byte-wise here, whatever the host's
  byte order.
\<close>

section \<open>Addresses\<close>

datatype ip4 = IP4 byte byte byte byte

datatype mac = MAC byte byte byte byte byte byte

fun ip_bytes :: "ip4 \<Rightarrow> byte list" where
  "ip_bytes (IP4 a b c d) = [a, b, c, d]"

fun mac_bytes :: "mac \<Rightarrow> byte list" where
  "mac_bytes (MAC a b c d e f) = [a, b, c, d, e, f]"

definition ip_at :: "byte list \<Rightarrow> nat \<Rightarrow> ip4" where
  "ip_at p i = IP4 (p ! i) (p ! (i + 1)) (p ! (i + 2)) (p ! (i + 3))"

definition mac_at :: "byte list \<Rightarrow> nat \<Rightarrow> mac" where
  "mac_at p i = MAC (p ! i) (p ! (i + 1)) (p ! (i + 2)) (p ! (i + 3)) (p ! (i + 4)) (p ! (i + 5))"

definition CPY_IPV4 :: "byte list \<Rightarrow> nat \<Rightarrow> ip4 option" where
  "CPY_IPV4 p i = (if i + 4 \<le> length p then Some (ip_at p i) else None)"

definition CPY_MAC :: "byte list \<Rightarrow> nat \<Rightarrow> mac option" where
  "CPY_MAC p i = (if i + 6 \<le> length p then Some (mac_at p i) else None)"

lemma CPY_IPV4_Some [access_simps]: "i + 4 \<le> length p \<Longrightarrow> CPY_IPV4 p i = Some (ip_at p i)"
  by (simp add: CPY_IPV4_def)

lemma CPY_MAC_Some [access_simps]: "i + 6 \<le> length p \<Longrightarrow> CPY_MAC p i = Some (mac_at p i)"
  by (simp add: CPY_MAC_def)

lemma CPY_IPV4_eq_Some: "CPY_IPV4 p i = Some x \<longleftrightarrow> i + 4 \<le> length p \<and> x = ip_at p i"
  by (auto simp: CPY_IPV4_def)

lemma CPY_MAC_eq_Some: "CPY_MAC p i = Some x \<longleftrightarrow> i + 6 \<le> length p \<and> x = mac_at p i"
  by (auto simp: CPY_MAC_def)

lemma length_ip_bytes [simp]: "length (ip_bytes x) = 4"
  by (cases x) simp

lemma length_mac_bytes [simp]: "length (mac_bytes x) = 6"
  by (cases x) simp

lemma ip_bytes_inject [simp]: "ip_bytes x = ip_bytes y \<longleftrightarrow> x = y"
  by (cases x; cases y) simp

lemma mac_bytes_inject [simp]: "mac_bytes x = mac_bytes y \<longleftrightarrow> x = y"
  by (cases x; cases y) simp

lemma ip_at_bytes [simp, wire_simps]: "ip_at (ip_bytes x @ q) 0 = x"
  by (cases x) (simp add: ip_at_def)

lemma mac_at_bytes [simp, wire_simps]: "mac_at (mac_bytes x @ q) 0 = x"
  by (cases x) (simp add: mac_at_def)

lemma ip_at_append [wire_simps]: "length p \<le> i \<Longrightarrow> ip_at (p @ q) i = ip_at q (i - length p)"
  by (simp add: ip_at_def nth_append Suc_diff_le)

lemma mac_at_append [wire_simps]: "length p \<le> i \<Longrightarrow> mac_at (p @ q) i = mac_at q (i - length p)"
  by (simp add: mac_at_def nth_append Suc_diff_le)

lemma ip_bytes_at: "i + 4 \<le> length p \<Longrightarrow> ip_bytes (ip_at p i) = window p i 4"
  by (rule nth_equalityI) (auto simp: ip_at_def less_Suc_eq numeral_eq_Suc)

lemma mac_bytes_at: "i + 6 \<le> length p \<Longrightarrow> mac_bytes (mac_at p i) = window p i 6"
  by (rule nth_equalityI) (auto simp: mac_at_def less_Suc_eq numeral_eq_Suc)

lemma ip_at_eq_iff: "i + 4 \<le> length p \<Longrightarrow> ip_at p i = x \<longleftrightarrow> window p i 4 = ip_bytes x"
  by (metis ip_bytes_at ip_bytes_inject)

lemma mac_at_eq_iff: "i + 6 \<le> length p \<Longrightarrow> mac_at p i = x \<longleftrightarrow> window p i 6 = mac_bytes x"
  by (metis mac_bytes_at mac_bytes_inject)

lemma ip_at_patch_same [simp]: "i + 4 \<le> length p \<Longrightarrow> ip_at (patch p i (ip_bytes x)) i = x"
  by (simp add: ip_at_eq_iff)

lemma mac_at_patch_same:
  "i + 6 \<le> length p \<Longrightarrow> mac_at (patch p i (mac_bytes x)) i = x"
  by (simp add: mac_at_eq_iff window_patch_same)

lemma mac_at_patch_disjoint:
  assumes "i + length vs \<le> length p" "j + 6 \<le> length p" "j + 6 \<le> i \<or> i + length vs \<le> j"
  shows "mac_at (patch p i vs) j = mac_at p j"
proof -
  have "mac_bytes (mac_at (patch p i vs) j) = mac_bytes (mac_at p j)"
    using assms by (simp add: mac_bytes_at window_patch_disjoint)
  then show ?thesis by (simp only: mac_bytes_inject)
qed

lemma ip_at_patch_disjoint:
  assumes "i + length vs \<le> length p" "j + 4 \<le> length p" "j + 4 \<le> i \<or> i + length vs \<le> j"
  shows "ip_at (patch p i vs) j = ip_at p j"
proof -
  have "ip_bytes (ip_at (patch p i vs) j) = ip_bytes (ip_at p j)"
    using assms by (simp only: ip_bytes_at length_patch) (simp add: window_patch_disjoint)
  then show ?thesis by simp
qed

section \<open>Masks\<close>

fun ip_and :: "ip4 \<Rightarrow> ip4 \<Rightarrow> ip4" where
  "ip_and (IP4 a b c d) (IP4 e f g h) = IP4 (a AND e) (b AND f) (c AND g) (d AND h)"

fun ip_or :: "ip4 \<Rightarrow> ip4 \<Rightarrow> ip4" where
  "ip_or (IP4 a b c d) (IP4 e f g h) = IP4 (a OR e) (b OR f) (c OR g) (d OR h)"

fun ip_not :: "ip4 \<Rightarrow> ip4" where
  "ip_not (IP4 a b c d) = IP4 (NOT a) (NOT b) (NOT c) (NOT d)"

definition IS_SUBNET :: "ip4 \<Rightarrow> ip4 \<Rightarrow> ip4 \<Rightarrow> bool" where
  "IS_SUBNET ip net netmask \<longleftrightarrow> ip_and ip netmask = net"

definition IS_BROADCAST :: "ip4 \<Rightarrow> ip4 \<Rightarrow> ip4 \<Rightarrow> bool" where
  "IS_BROADCAST ip net netmask \<longleftrightarrow> ip_or net (ip_not netmask) = ip"

lemma ip_and_absorb [simp]: "ip_and (ip_and x m) m = ip_and x m"
  by (cases x; cases m) (simp add: and.assoc)

lemma ip_and_or_not [simp]: "ip_and (ip_or x (ip_not m)) m = ip_and x m"
  by (cases x; cases m) (simp add: bit.conj_disj_distrib2)

section \<open>Addresses as 32-bit numbers\<close>

fun ipv4_to_u32 :: "ip4 \<Rightarrow> u32" where
  "ipv4_to_u32 (IP4 a b c d) =
     push_bit 24 (ucast a) OR push_bit 16 (ucast b) OR push_bit 8 (ucast c) OR ucast d"

definition u32_to_ipv4 :: "u32 \<Rightarrow> ip4" where
  "u32_to_ipv4 v =
     IP4 (ucast (drop_bit 24 v AND 0xff)) (ucast (drop_bit 16 v AND 0xff))
         (ucast (drop_bit 8 v AND 0xff)) (ucast (v AND 0xff))"

lemma bit_ipv4_to_u32:
  "bit (ipv4_to_u32 (IP4 a b c d)) n \<longleftrightarrow>
     (if n < 8 then bit d n else if n < 16 then bit c (n - 8)
      else if n < 24 then bit b (n - 16) else bit a (n - 24))"
proof -
  have short: "\<not> bit x m" if "8 \<le> m" for x :: byte and m
    using that bit_imp_le_length [of x m] by auto
  have "n < 32" if "\<not> n < 24" "bit a (n - 24)"
    using that bit_imp_le_length [of a "n - 24"] by auto
  then show ?thesis by (auto simp: bit_simps short)
qed

lemma bit_low_byte: "bit (ucast (v AND 0xff :: u32) :: byte) n \<longleftrightarrow> n < 8 \<and> bit v n"
proof -
  have ff: "(0xff :: u32) = mask 8" by (simp add: mask_eq_exp_minus_1)
  show ?thesis unfolding ff by (auto simp: bit_simps)
qed

lemma u32_to_ipv4_to_u32 [simp, wire_simps]: "u32_to_ipv4 (ipv4_to_u32 x) = x"
proof (cases x)
  case (IP4 a b c d)
  show ?thesis
    unfolding IP4 u32_to_ipv4_def ip4.inject
    by (intro conjI; rule bit_word_eqI;
        simp add: bit_low_byte bit_drop_bit_eq bit_ipv4_to_u32 del: ipv4_to_u32.simps)
qed

lemma ipv4_to_u32_to_ipv4 [simp, wire_simps]: "ipv4_to_u32 (u32_to_ipv4 v) = v"
  unfolding u32_to_ipv4_def
  by (rule bit_word_eqI)
     (auto simp: bit_low_byte bit_drop_bit_eq bit_ipv4_to_u32 simp del: ipv4_to_u32.simps)

lemma ipv4_to_u32_inject [simp]: "ipv4_to_u32 x = ipv4_to_u32 y \<longleftrightarrow> x = y"
  by (metis u32_to_ipv4_to_u32)

lemma ipv4_to_u32_and: "ipv4_to_u32 (ip_and x m) = ipv4_to_u32 x AND ipv4_to_u32 m"
  by (cases x; cases m; rule bit_word_eqI)
     (simp add: bit_ipv4_to_u32 bit_and_iff del: ipv4_to_u32.simps)

lemma ipv4_to_u32_or: "ipv4_to_u32 (ip_or x m) = ipv4_to_u32 x OR ipv4_to_u32 m"
  by (cases x; cases m; rule bit_word_eqI)
     (simp add: bit_ipv4_to_u32 bit_or_iff del: ipv4_to_u32.simps)

lemma ipv4_to_u32_not: "ipv4_to_u32 (ip_not m) = NOT (ipv4_to_u32 m)"
  by (cases m; rule bit_word_eqI)
     (auto simp: bit_ipv4_to_u32 bit_simps simp del: ipv4_to_u32.simps)

text \<open>Addresses are ordered as the numbers the code compares.\<close>

instantiation ip4 :: linorder
begin

definition less_eq_ip4 :: "ip4 \<Rightarrow> ip4 \<Rightarrow> bool" where
  "x \<le> y \<longleftrightarrow> ipv4_to_u32 x \<le> ipv4_to_u32 y"

definition less_ip4 :: "ip4 \<Rightarrow> ip4 \<Rightarrow> bool" where
  "x < y \<longleftrightarrow> ipv4_to_u32 x < ipv4_to_u32 y"

instance
  by standard (auto simp: less_eq_ip4_def less_ip4_def less_le_not_le)

end

section \<open>Constants of packet.h and arp.c\<close>

abbreviation (input) ETHER_OFF_DST :: nat where "ETHER_OFF_DST \<equiv> 0"
abbreviation (input) ETHER_OFF_SRC :: nat where "ETHER_OFF_SRC \<equiv> 6"
abbreviation (input) ETHER_OFF_TYPE :: nat where "ETHER_OFF_TYPE \<equiv> 12"
abbreviation (input) ETHER_HEADER_LEN :: nat where "ETHER_HEADER_LEN \<equiv> 14"
abbreviation (input) ETHER_MTU :: nat where "ETHER_MTU \<equiv> 1500"
abbreviation (input) ETHER_TYPE_ARP :: u16 where "ETHER_TYPE_ARP \<equiv> 0x0806"
abbreviation (input) ETHER_TYPE_IPV4 :: u16 where "ETHER_TYPE_IPV4 \<equiv> 0x0800"

abbreviation (input) IPV4_HEADER_LEN :: nat where "IPV4_HEADER_LEN \<equiv> 20"
abbreviation (input) IPV4_OFF_TOTAL_LEN :: nat where "IPV4_OFF_TOTAL_LEN \<equiv> 2"
abbreviation (input) IPV4_OFF_FLAGS_FRAG_OFFSET :: nat where "IPV4_OFF_FLAGS_FRAG_OFFSET \<equiv> 6"
abbreviation (input) IPV4_OFF_PROTOCOL :: nat where "IPV4_OFF_PROTOCOL \<equiv> 9"
abbreviation (input) IPV4_OFF_CHECKSUM :: nat where "IPV4_OFF_CHECKSUM \<equiv> 10"
abbreviation (input) IPV4_OFF_SRC :: nat where "IPV4_OFF_SRC \<equiv> 12"
abbreviation (input) IPV4_OFF_DST :: nat where "IPV4_OFF_DST \<equiv> 16"
abbreviation (input) IPV4_PROTOCOL_ICMP :: byte where "IPV4_PROTOCOL_ICMP \<equiv> 1"
abbreviation (input) IPV4_PROTOCOL_UDP :: byte where "IPV4_PROTOCOL_UDP \<equiv> 17"
abbreviation (input) UDP_OFF_END :: nat where "UDP_OFF_END \<equiv> 8"

abbreviation (input) ARP_LEN :: nat where "ARP_LEN \<equiv> 28"
abbreviation (input) ARP_OPCODE_REQUEST :: u16 where "ARP_OPCODE_REQUEST \<equiv> 1"
abbreviation (input) ARP_OPCODE_REPLY :: u16 where "ARP_OPCODE_REPLY \<equiv> 2"

definition NONE_IP :: ip4 where
  "NONE_IP = IP4 0 0 0 0"

definition NONE_MAC :: mac where
  "NONE_MAC = MAC 0 0 0 0 0 0"

definition BROADCAST_MAC :: mac where
  "BROADCAST_MAC = MAC 0xff 0xff 0xff 0xff 0xff 0xff"

text \<open>
  \<^verbatim>\<open>(ip[0] & 0x0f) * 4\<close>, the header length in bytes that every IPv4 routine reads out of the first
  byte, and \<^verbatim>\<open>ip[0] >> 4\<close>, the version.
\<close>

definition header_len :: "byte \<Rightarrow> nat" where
  "header_len b = unat (b AND 0x0f) * 4"

definition ip_version :: "byte \<Rightarrow> byte" where
  "ip_version b = drop_bit 4 b"

lemma header_len_le [simp]: "header_len b \<le> 60"
proof -
  have "b AND 0x0f \<le> 0x0f" by (rule word_and_le1)
  then have "unat (b AND 0x0f) \<le> 15" by (simp add: word_le_nat_alt)
  then show ?thesis by (simp add: header_len_def)
qed

lemma even_header_len [simp]: "even (header_len b)"
  by (simp add: header_len_def)

end
