(* ===== verification/Checksum.thy ===== *)
theory Checksum
  imports Wire
begin

text \<open>
  The Internet checksums of the relay: \<^verbatim>\<open>ipv4_header_checksum\<close>, \<^verbatim>\<open>checksum_add_bytes\<close> and \<^verbatim>\<open>udp_checksum\<close>
  of \<^verbatim>\<open>src/lan-play.c\<close>, and \<^verbatim>\<open>calc_checksum\<close> and \<^verbatim>\<open>calc_payload_checksum\<close> of \<^verbatim>\<open>src/ipv4/ipv4.c\<close>.  The sums
  are 32-bit words that wrap; the carry loops are the loops of the code.  The contract the two
  families share is the locale \<open>internet_checksum\<close>: a checksum is the complement of the one's
  complement sum of the 16-bit words, and a field that holds it makes the whole sum vanish.
\<close>

section \<open>The code\<close>

fun checksum_add_bytes :: "u32 \<Rightarrow> byte list \<Rightarrow> u32" where
  "checksum_add_bytes s (a # b # r) = checksum_add_bytes (s + ucast (be16 a b)) r"
| "checksum_add_bytes s [a] = s + push_bit 8 (ucast a)"
| "checksum_add_bytes s [] = s"

text \<open>\<^verbatim>\<open>while (sum >> 16) sum = (sum & 0xffff) + (sum >> 16);\<close>\<close>

function fold_carry :: "u32 \<Rightarrow> u32" where
  "fold_carry s =
     (if drop_bit 16 s \<noteq> 0 then fold_carry ((s AND 0xffff) + drop_bit 16 s) else s)"
  by pat_completeness auto

text \<open>\<^verbatim>\<open>while (sum > 0xffff) sum -= 0xffff;\<close>\<close>

function fold_subtract :: "u32 \<Rightarrow> u32" where
  "fold_subtract s = (if s > 0xffff then fold_subtract (s - 0xffff) else s)"
  by pat_completeness auto

lemma unat_drop_16: "unat (drop_bit 16 s :: u32) = unat s div 65536"
  by (simp add: drop_bit_eq_div unat_div)

lemma unat_and_ffff: "unat (s AND 0xffff :: u32) = unat s mod 65536"
proof -
  have "(0xffff :: u32) = mask 16" by (simp add: mask_eq_exp_minus_1)
  then have "s AND 0xffff = take_bit 16 s" by (simp add: take_bit_eq_mask)
  also have "unat (take_bit 16 s) = take_bit 16 (unat s)" by (rule unsigned_take_bit_eq)
  finally show ?thesis by (simp only: take_bit_eq_mod) simp
qed

lemma unat_u32_less: "unat (s :: u32) < 4294967296"
  using unsigned_less [of s] by simp

lemma unat_u32_add: "unat s + unat t < 4294967296 \<Longrightarrow> unat (s + t :: u32) = unat s + unat t"
  by (subst unat_word_ariths) simp

lemma unat_fold_step:
  "unat ((s AND 0xffff) + drop_bit 16 s :: u32) = unat s mod 65536 + unat s div 65536"
proof -
  have "unat s mod 65536 + unat s div 65536 < 4294967296"
    using unat_u32_less [of s] by (simp add: less_mult_imp_div_less)
  then show ?thesis by (simp add: unat_u32_add unat_drop_16 unat_and_ffff)
qed

lemma fold_step_eq: "n = 65535 * (n div 65536) + (n mod 65536 + n div 65536)" for n :: nat
  using div_mult_mod_eq [of n 65536] by linarith

lemma drop_16_zero: "drop_bit 16 (s :: u32) = 0 \<longleftrightarrow> unat s < 65536"
  by (metis unat_drop_16 unat_0 unat_eq_zero div_eq_0_iff zero_neq_numeral)

termination fold_carry
proof (relation "measure unat", goal_cases)
  case (2 s)
  then have "65536 \<le> unat s" by (simp add: drop_16_zero)
  then have "0 < unat s div 65536" by (simp add: div_greater_zero_iff)
  then have "unat s mod 65536 + unat s div 65536 < unat s"
    using fold_step_eq [of "unat s"] by linarith
  then show ?case by (simp add: unat_fold_step)
qed simp

termination fold_subtract
  by (relation "measure unat") (auto simp: word_less_nat_alt unat_sub_if')

declare fold_carry.simps [simp del] fold_subtract.simps [simp del]

text \<open>\<^verbatim>\<open>ipv4_header_checksum(packet, len)\<close>: \<open>p\<close> is the range \<^verbatim>\<open>packet[0..len)\<close>.\<close>

definition ipv4_header_checksum :: "byte list \<Rightarrow> u16" where
  "ipv4_header_checksum p = ucast (NOT (fold_carry (checksum_add_bytes 0 p)))"

definition udp_checksum :: "byte list \<Rightarrow> nat \<Rightarrow> nat \<Rightarrow> u16 option" where
  "udp_checksum ip hlen tlen = do {
     addrs \<leftarrow> read_bytes ip IPV4_OFF_SRC 8;
     udp \<leftarrow> (if hlen \<le> tlen then read_bytes ip hlen (tlen - hlen) else None);
     let s = checksum_add_bytes 0 addrs;
     let s = s + ucast IPV4_PROTOCOL_UDP;
     let s = s + ucast (word_of_nat (tlen - hlen) :: u16);
     let result = ucast (NOT (fold_carry (checksum_add_bytes s udp)));
     Some (if result \<noteq> 0 then result else 0xffff) }"

text \<open>\<^verbatim>\<open>calc_checksum\<close> adds a trailing odd byte without shifting it.\<close>

fun calc_words :: "u32 \<Rightarrow> byte list \<Rightarrow> u32" where
  "calc_words s (a # b # r) = calc_words (s + ucast (be16 a b)) r"
| "calc_words s [a] = s + ucast a"
| "calc_words s [] = s"

definition calc_checksum :: "byte list \<Rightarrow> u16" where
  "calc_checksum p = ucast (NOT (fold_subtract (calc_words 0 p)))"

text \<open>
  A \<^verbatim>\<open>struct payload\<close> chain: for each part the bytes from \<^verbatim>\<open>ptr\<close> to the end of the object it
  points into, and \<^verbatim>\<open>len\<close>.  The inner loop of \<^verbatim>\<open>calc_payload_checksum\<close> runs with a signed
  \<^verbatim>\<open>len\<close>; \<open>i\<close> is the byte offset of \<^verbatim>\<open>buf\<close> in the part.
\<close>

type_synonym payload = "(byte list \<times> u16) list"

function part_words :: "byte list \<Rightarrow> nat \<Rightarrow> int \<Rightarrow> u32 \<Rightarrow> (nat \<times> int \<times> u32) option" where
  "part_words p i len s =
     (if len > 1
      then do { w \<leftarrow> read16 p i; part_words p (i + 2) (len - 2) (s + ucast w) }
      else Some (i, len, s))"
  by pat_completeness auto
termination by (relation "measure (\<lambda>(p, i, len, s). nat len)") auto

declare part_words.simps [simp del]

fun payload_words :: "nat \<Rightarrow> u32 \<Rightarrow> payload \<Rightarrow> u32 option" where
  "payload_words off s [] = Some s"
| "payload_words off s ((p, l) # rest) = do {
     (i, len, s) \<leftarrow> part_words p (2 * off) (int (unat l) - int off) s;
     if len \<noteq> 0
     then do {
       b \<leftarrow> read8 p i;
       s \<leftarrow> (case rest of
               (q, _) # _ \<Rightarrow> do { c \<leftarrow> read8 q 0; Some (s + ucast (be16 b c)) }
             | [] \<Rightarrow> Some (s + push_bit 8 (ucast b)));
       payload_words 1 s rest }
     else payload_words 0 s rest }"

definition calc_payload_checksum :: "payload \<Rightarrow> u16 option" where
  "calc_payload_checksum ps = do {
     s \<leftarrow> payload_words 0 0 ps;
     Some (ucast (NOT (fold_subtract s))) }"

section \<open>The one's complement sum\<close>

fun wsum :: "byte list \<Rightarrow> nat" where
  "wsum (a # b # r) = 256 * unat a + unat b + wsum r"
| "wsum [a] = 256 * unat a"
| "wsum [] = 0"

definition ones_sum :: "nat \<Rightarrow> nat" where
  "ones_sum n = (if n = 0 then 0 else if n mod 65535 = 0 then 65535 else n mod 65535)"

lemma ones_sum_cong:
  "m mod 65535 = n mod 65535 \<Longrightarrow> (m = 0) = (n = 0) \<Longrightarrow> ones_sum m = ones_sum n"
  by (simp add: ones_sum_def)

lemma ones_sum_le: "ones_sum n \<le> 65535"
  by (simp add: ones_sum_def)

lemma ones_sum_id: "n < 65536 \<Longrightarrow> ones_sum n = n"
proof (cases "n = 65535")
  case False
  moreover assume "n < 65536"
  ultimately have "n < 65535" by simp
  then show ?thesis by (simp add: ones_sum_def)
qed (simp add: ones_sum_def)

lemma ones_sum_mod: "ones_sum n mod 65535 = n mod 65535"
  by (simp add: ones_sum_def)

lemma unat_fold_carry: "unat (fold_carry s) = ones_sum (unat s)"
proof (induction s rule: fold_carry.induct)
  case (1 s)
  show ?case
  proof (cases "drop_bit 16 s = 0")
    case True
    then show ?thesis by (simp add: fold_carry.simps [of s] drop_16_zero ones_sum_id)
  next
    case False
    then have "unat (fold_carry s) = ones_sum (unat s mod 65536 + unat s div 65536)"
      using 1 by (subst fold_carry.simps) (simp add: unat_fold_step)
    also have "\<dots> = ones_sum (unat s)" 
    proof (rule ones_sum_cong)
      show "(unat s mod 65536 + unat s div 65536) mod 65535 = unat s mod 65535"
        by (subst (3) fold_step_eq) (simp only: mod_mult_self4)
      show "(unat s mod 65536 + unat s div 65536 = 0) = (unat s = 0)"
        using fold_step_eq [of "unat s"] by linarith
    qed
    finally show ?thesis .
  qed
qed

lemma unat_fold_subtract: "unat (fold_subtract s) = ones_sum (unat s)"
proof (induction s rule: fold_subtract.induct)
  case (1 s)
  show ?case
  proof (cases "s > 0xffff")
    case False
    then show ?thesis by (simp add: fold_subtract.simps [of s] word_less_nat_alt ones_sum_id)
  next
    case True
    then have big: "65535 < unat s" by (simp add: word_less_nat_alt)
    then have "unat (s - 0xffff) = unat s - 65535" by (simp add: unat_sub_if')
    then have "unat (fold_subtract s) = ones_sum (unat s - 65535)"
      using 1 True by (subst fold_subtract.simps) simp
    also have "\<dots> = ones_sum (unat s)" using big by (intro ones_sum_cong) (simp_all add: mod_if)
    finally show ?thesis .
  qed
qed

lemma unat_ucast_16_32 [simp]: "unat (ucast (w :: u16) :: u32) = unat w"
proof -
  have "unat w < 4294967296" using unat_u16_less [of w] by linarith
  then show ?thesis by (simp add: unsigned_ucast_eq take_bit_nat_eq_self_iff)
qed

lemma unat_ucast_8_32 [simp]: "unat (ucast (b :: byte) :: u32) = unat b"
proof -
  have "unat b < 4294967296" using unat_byte_less [of b] by linarith
  then show ?thesis by (simp add: unsigned_ucast_eq take_bit_nat_eq_self_iff)
qed

lemma unat_push_8: "unat (push_bit 8 (ucast (b :: byte)) :: u32) = 256 * unat b"
proof -
  have "unat b * 256 < 4294967296" using unat_byte_less [of b] by linarith
  then have "unat b * 256 mod 4294967296 = unat b * 256" by (rule mod_less)
  then show ?thesis by (simp add: push_bit_eq_mult unat_word_ariths)
qed

lemma unat_complement: "unat s < 65536 \<Longrightarrow> unat (ucast (NOT (s :: u32)) :: u16) = 65535 - unat s"
proof -
  assume s: "unat s < 65536"
  have "NOT s = - 1 - s" by (simp add: not_eq_complement)
  moreover have "unat (- 1 :: u32) = 4294967295" by (simp add: unsigned_minus_1_eq_mask mask_eq_exp_minus_1)
  ultimately have "unat (NOT s) = 4294967295 - unat s"
    using unat_u32_less [of s] by (simp add: unat_sub_if')
  also have "\<dots> = 65535 - unat s + 65535 * 65536" using s by simp
  finally have "unat (NOT s) mod 65536 = (65535 - unat s) mod 65536"
    by (simp only: mod_mult_self1)
  then show ?thesis by (simp only: unsigned_ucast_eq take_bit_eq_mod) simp
qed

lemma wsum_bound: "wsum p \<le> 65535 * ((length p + 1) div 2)"
proof (induction p rule: wsum.induct)
  case (1 a b r)
  then show ?case using unat_byte_less [of a] unat_byte_less [of b]
    by (simp del: unat_byte_less)
next
  case (2 a)
  then show ?case using unat_byte_less [of a] by (simp del: unat_byte_less)
qed simp

lemma wsum_less: "length p \<le> 65536 \<Longrightarrow> wsum p < 2147483649"
proof -
  assume "length p \<le> 65536"
  then have "(length p + 1) div 2 \<le> 32768" by simp
  then show ?thesis using wsum_bound [of p] by linarith
qed

lemma unat_checksum_add_bytes:
  "unat s + wsum p < 4294967296 \<Longrightarrow> unat (checksum_add_bytes s p) = unat s + wsum p"
  by (induction s p rule: checksum_add_bytes.induct) (simp_all add: unat_u32_add unat_be16 unat_push_8)

lemma unat_calc_words:
  "even (length p) \<Longrightarrow> unat s + wsum p < 4294967296 \<Longrightarrow> unat (calc_words s p) = unat s + wsum p"
  by (induction s p rule: calc_words.induct) (simp_all add: unat_u32_add unat_be16)

lemma wsum_append: "even (length p) \<Longrightarrow> wsum (p @ q) = wsum p + wsum q"
  by (induction p rule: wsum.induct) simp_all

lemma wsum_net16 [simp]: "wsum (net16 w) = unat w"
  using unat_be16 [of "hi8 w" "lo8 w"] by (simp add: net16_def)

lemma wsum_split:
  "even i \<Longrightarrow> i + 2 \<le> length p \<Longrightarrow>
     wsum p = wsum (take i p) + wsum (window p i 2) + wsum (drop (i + 2) p)"
proof -
  assume i: "even i" "i + 2 \<le> length p"
  have "drop (i + 2) p = drop 2 (drop i p)" by (simp add: add.commute)
  then have "p = take i p @ window p i 2 @ drop (i + 2) p"
    by (simp only: window_def append_take_drop_id)
  then have "wsum p = wsum (take i p @ window p i 2 @ drop (i + 2) p)" by (rule arg_cong)
  also have "\<dots> = wsum (take i p) + wsum (window p i 2) + wsum (drop (i + 2) p)"
    using i by (simp add: wsum_append)
  finally show ?thesis .
qed

lemma wsum_patch_net16:
  "even i \<Longrightarrow> i + 2 \<le> length p \<Longrightarrow>
     wsum (patch p i (net16 w)) = wsum (take i p) + unat w + wsum (drop (i + 2) p)"
  by (simp add: patch_def wsum_append)

lemma wsum_patch_zero:
  "even i \<Longrightarrow> i + 2 \<le> length p \<Longrightarrow> wsum (patch p i [0, 0]) = wsum (take i p) + wsum (drop (i + 2) p)"
  using wsum_patch_net16 [of i p 0] by (simp add: net16_def hi8_def lo8_def)

lemma ones_sum_complete:
  "c = 65535 - ones_sum n \<or> n mod 65535 = 0 \<and> c = 65535 \<Longrightarrow> ones_sum (n + c) = 65535"
proof -
  assume c: "c = 65535 - ones_sum n \<or> n mod 65535 = 0 \<and> c = 65535"
  moreover have "(n + (65535 - n mod 65535)) mod 65535 = 0"
  proof -
    have "n + (65535 - n mod 65535) = 65535 * (n div 65535) + 65535"
      using div_mult_mod_eq [of n 65535] pos_mod_bound by linarith
    then show ?thesis by simp
  qed
  ultimately have "(n + c) mod 65535 = 0 \<and> n + c \<noteq> 0"
    by (cases "n mod 65535 = 0"; cases "n = 0") (auto simp: ones_sum_def)
  then show ?thesis by (simp add: ones_sum_def)
qed

section \<open>The contract of a checksum\<close>

locale internet_checksum =
  fixes cksum :: "byte list \<Rightarrow> u16" and ok_len :: "nat \<Rightarrow> bool"
  assumes cksum_ones: "ok_len (length p) \<Longrightarrow> length p \<le> 65536 \<Longrightarrow>
      unat (cksum p) = 65535 - ones_sum (wsum p)"
begin

lemma verifies_iff:
  assumes "ok_len (length p)" "length p \<le> 65536"
  shows "cksum p = 0 \<longleftrightarrow> ones_sum (wsum p) = 65535"
  using cksum_ones [OF assms] ones_sum_le [of "wsum p"] by (auto simp flip: unat_eq_zero)

lemma field_verifies:
  assumes "ok_len (length p)" "length p \<le> 65536" "even i" "i + 2 \<le> length p"
  shows "cksum (patch p i (net16 (cksum (patch p i [0, 0])))) = 0"
proof -
  let ?z = "patch p i [0, 0]"
  have "unat (cksum ?z) = 65535 - ones_sum (wsum ?z)"
    using assms by (intro cksum_ones) simp_all
  then have "ones_sum (wsum (patch p i (net16 (cksum ?z)))) = 65535"
    using ones_sum_complete [of "unat (cksum ?z)" "wsum ?z"] assms
    by (simp add: wsum_patch_net16 wsum_patch_zero ac_simps)
  then show ?thesis using assms by (subst verifies_iff) simp_all
qed

lemma words_determine:
  assumes "ok_len (length p)" "length p \<le> 65536" "ok_len (length q)" "length q \<le> 65536"
    and "wsum p = wsum q"
  shows "cksum p = cksum q"
  using cksum_ones [OF assms(1,2)] cksum_ones [OF assms(3,4)] assms(5) by (simp add: word_unat_eq_iff)

end

interpretation header_cks: internet_checksum ipv4_header_checksum "\<lambda>_. True"
proof (unfold_locales)
  fix p :: "byte list"
  assume "length p \<le> 65536"
  then have "unat (checksum_add_bytes 0 p) = wsum p"
    using wsum_less [of p] by (simp add: unat_checksum_add_bytes)
  then show "unat (ipv4_header_checksum p) = 65535 - ones_sum (wsum p)"
    using ones_sum_le [of "wsum p"]
    by (simp add: ipv4_header_checksum_def unat_complement unat_fold_carry)
qed

interpretation calc_cks: internet_checksum calc_checksum even
proof (unfold_locales)
  fix p :: "byte list"
  assume "even (length p)" "length p \<le> 65536"
  then have "unat (calc_words 0 p) = wsum p"
    using wsum_less [of p] by (simp add: unat_calc_words)
  then show "unat (calc_checksum p) = 65535 - ones_sum (wsum p)"
    using ones_sum_le [of "wsum p"]
    by (simp add: calc_checksum_def unat_complement unat_fold_subtract)
qed

lemma calc_checksum_eq_header:
  "even (length p) \<Longrightarrow> length p \<le> 65536 \<Longrightarrow> calc_checksum p = ipv4_header_checksum p"
  by (simp add: word_unat_eq_iff calc_cks.cksum_ones header_cks.cksum_ones)

section \<open>The UDP checksum\<close>

text \<open>What a receiver sums: pseudo-header and datagram, the checksum field included.\<close>

definition udp_sum :: "byte list \<Rightarrow> nat \<Rightarrow> nat \<Rightarrow> nat" where
  "udp_sum ip hlen tlen =
     wsum (window ip IPV4_OFF_SRC 8) + 17 + (tlen - hlen) + wsum (window ip hlen (tlen - hlen))"

definition udp_verifies :: "byte list \<Rightarrow> nat \<Rightarrow> nat \<Rightarrow> bool" where
  "udp_verifies ip hlen tlen \<longleftrightarrow> ones_sum (udp_sum ip hlen tlen) = 65535"

lemma udp_checksum_ones:
  assumes "20 \<le> hlen" "hlen \<le> tlen" "tlen \<le> length ip" "tlen \<le> 65535"
  shows "\<exists>c. udp_checksum ip hlen tlen = Some c \<and>
    unat c = (if ones_sum (udp_sum ip hlen tlen) = 65535 then 65535
              else 65535 - ones_sum (udp_sum ip hlen tlen))"
proof -
  let ?a = "window ip 12 8" and ?u = "window ip hlen (tlen - hlen)"
  let ?s = "checksum_add_bytes 0 ?a + 17 + ucast (word_of_nat (tlen - hlen) :: u16)"
  have a: "wsum ?a < 524289" using wsum_bound [of ?a] assms by simp
  have u: "wsum ?u < 2147483649" using assms by (intro wsum_less) simp
  define l where "l = (word_of_nat (tlen - hlen) :: u16)"
  have l: "unat l = tlen - hlen"
    unfolding l_def using assms by (simp only: unat_of_nat) simp
  then have "unat ?s = wsum ?a + 17 + (tlen - hlen)"
    unfolding l_def [symmetric] using assms a by (simp add: unat_u32_add unat_checksum_add_bytes)
  then have "unat (checksum_add_bytes ?s ?u) = udp_sum ip hlen tlen"
    using a u assms by (simp add: unat_checksum_add_bytes udp_sum_def)
  then have "unat (ucast (NOT (fold_carry (checksum_add_bytes ?s ?u))) :: u16)
      = 65535 - ones_sum (udp_sum ip hlen tlen)"
    using ones_sum_le [of "udp_sum ip hlen tlen"] by (simp add: unat_complement unat_fold_carry)
  then show ?thesis
    using assms ones_sum_le [of "udp_sum ip hlen tlen"]
    by (auto simp: udp_checksum_def read_bytes_Some Let_def simp flip: unat_eq_zero)
qed

lemma udp_checksum_field_verifies:
  assumes len: "20 \<le> hlen" "even hlen" "hlen + 8 \<le> tlen" "tlen \<le> length ip" "tlen \<le> 65535"
    and c: "udp_checksum (patch ip (hlen + 6) [0, 0]) hlen tlen = Some c"
  shows "c \<noteq> 0 \<and> udp_verifies (patch ip (hlen + 6) (net16 c)) hlen tlen"
proof -
  let ?z = "patch ip (hlen + 6) [0, 0]"
  have win: "window (patch ip (hlen + 6) v) hlen (tlen - hlen)
      = patch (window ip hlen (tlen - hlen)) 6 v" if "length v = 2" for v
    using that len by (intro nth_equalityI) (auto simp: nth_patch)
  have cv: "unat c = (if ones_sum (udp_sum ?z hlen tlen) = 65535 then 65535
              else 65535 - ones_sum (udp_sum ?z hlen tlen))"
    using udp_checksum_ones [of hlen tlen ?z] len c by simp
  have "udp_sum (patch ip (hlen + 6) (net16 c)) hlen tlen = udp_sum ?z hlen tlen + unat c"
    using len by (simp add: udp_sum_def win window_patch_disjoint wsum_patch_net16 wsum_patch_zero)
  moreover have "ones_sum (udp_sum ?z hlen tlen + unat c) = 65535"
    using cv by (intro ones_sum_complete) (auto simp: ones_sum_def split: if_splits)
  moreover have "unat c \<noteq> 0" using cv ones_sum_le [of "udp_sum ?z hlen tlen"] by (auto split: if_splits)
  ultimately show ?thesis by (auto simp: udp_verifies_def)
qed

section \<open>The checksum of a chain of buffers\<close>

definition payload_bytes :: "payload \<Rightarrow> byte list" where
  "payload_bytes ps = concat (map (\<lambda>(p, l). take (unat l) p) ps)"

definition payload_ok :: "payload \<Rightarrow> bool" where
  "payload_ok ps \<longleftrightarrow> (\<forall>(p, l) \<in> set ps. unat l \<le> length p)"

lemma payload_simps [simp]:
  "payload_bytes [] = []"
  "payload_bytes ((p, l) # ps) = take (unat l) p @ payload_bytes ps"
  "payload_ok []"
  "payload_ok ((p, l) # ps) \<longleftrightarrow> unat l \<le> length p \<and> payload_ok ps"
  by (simp_all add: payload_bytes_def payload_ok_def)

lemma window_two: "i + 1 < length p \<Longrightarrow> window p i (n + 2) = p ! i # p ! (i + 1) # window p (i + 2) n"
  by (simp add: window_def Cons_nth_drop_Suc [symmetric] del: Cons_nth_drop_Suc)

lemma part_words_in_range:
  "0 \<le> len \<Longrightarrow> i + nat len \<le> length p \<Longrightarrow>
     part_words p i len s =
       Some (i + 2 * (nat len div 2), len mod 2, checksum_add_bytes s (window p i (2 * (nat len div 2))))"
proof (induction p i len s rule: part_words.induct)
  case (1 p i len s)
  show ?case
  proof (cases "len > 1")
    case True
    define k where "k = nat (len - 2) div 2"
    have "nat len = nat (len - 2) + 2" using True by simp
    then have k: "2 * (nat len div 2) = 2 * k + 2" unfolding k_def by simp
    have r: "read16 p i = Some (be16 (p ! i) (p ! (i + 1)))"
      using True "1.prems" by (simp add: read16_Some)
    have "i + 1 < length p" using True "1.prems" by simp
    note w = window_two [OF this, of "2 * k"]
    have "part_words p i len s = part_words p (i + 2) (len - 2) (s + ucast (be16 (p ! i) (p ! (i + 1))))"
      using True by (subst part_words.simps) (simp add: r)
    also have "\<dots> = Some (i + 2 + 2 * k, (len - 2) mod 2,
        checksum_add_bytes (s + ucast (be16 (p ! i) (p ! (i + 1)))) (window p (i + 2) (2 * k)))"
      unfolding k_def using True "1.prems" by (intro "1.IH") (auto simp: r)
    finally show ?thesis unfolding k w by simp
  next
    case False
    then have "len = 0 \<or> len = 1" using "1.prems" by auto
    then show ?thesis by (auto simp: part_words.simps [of p i len s] window_def)
  qed
qed

lemma checksum_add_bytes_append:
  "even (length p) \<Longrightarrow> checksum_add_bytes s (p @ q) = checksum_add_bytes (checksum_add_bytes s p) q"
  by (induction s p rule: checksum_add_bytes.induct) simp_all

lemma payload_words_eq:
  "payload_ok ps \<Longrightarrow> (\<forall>(p, l) \<in> set (butlast ps). even (unat l)) \<Longrightarrow>
     payload_words 0 s ps = Some (checksum_add_bytes s (payload_bytes ps))"
proof (induction ps arbitrary: s)
  case (Cons part ps)
  obtain p l where part: "part = (p, l)" by force
  let ?n = "unat l"
  have n: "?n \<le> length p" using Cons.prems part by simp
  have "uint l = int ?n" by simp
  then have par: "uint l mod 2 = int (?n mod 2)" by (simp only: of_nat_mod of_nat_numeral)
  note pw = part_words_in_range [of "int ?n" 0 p s, simplified, OF n]
  show ?case
  proof (cases "even ?n")
    case True
    then have "(\<forall>(p, l) \<in> set (butlast ps). even (unat l))" using Cons.prems by (auto split: if_splits)
    then show ?thesis
      using Cons.IH Cons.prems True n
      by (simp add: part pw par window_def checksum_add_bytes_append)
  next
    case False
    then have "ps = []" using Cons.prems part by (auto split: if_splits)
    then obtain k where k: "?n = 2 * k + 1" using False by (auto elim: oddE)
    then have "take ?n p = take (2 * k) p @ [p ! (2 * k)]"
      using n by (simp add: take_Suc_conv_app_nth)
    moreover have "nat (1 + 2 * int k) = 2 * k + 1" by simp
    then have "part_words p 0 (1 + 2 * int k) s = Some (2 * k, 1, checksum_add_bytes s (take (2 * k) p))"
      using n k by (simp add: part_words_in_range window_def)
    ultimately show ?thesis
      using n k \<open>ps = []\<close> by (simp add: part read8_Some checksum_add_bytes_append)
  qed
qed simp

lemma calc_payload_checksum_eq:
  assumes "payload_ok ps" "\<forall>(p, l) \<in> set (butlast ps). even (unat l)"
    and "length (payload_bytes ps) \<le> 65536"
  shows "calc_payload_checksum ps = Some (ipv4_header_checksum (payload_bytes ps))"
proof -
  have "unat (fold_subtract s) = unat (fold_carry s)" for s
    by (simp add: unat_fold_carry unat_fold_subtract)
  then have "fold_subtract s = fold_carry s" for s by (simp add: word_unat_eq_iff)
  then show ?thesis
    using assms by (simp add: calc_payload_checksum_def payload_words_eq ipv4_header_checksum_def)
qed

section \<open>Properties\<close>

text \<open>
  The checksum field of a header makes the header verify: whatever the header holds, putting the checksum that
  \<^verbatim>\<open>ipv4_header_checksum\<close> or \<^verbatim>\<open>calc_checksum\<close> computes over the header with a zero field into that field gives
  a header over which the same function returns 0.
\<close>

theorem checksum_field_verifies:
  assumes "even (length p)" "length p \<le> 65536" "even i" "i + 2 \<le> length p"
  shows "ipv4_header_checksum (patch p i (net16 (ipv4_header_checksum (patch p i [0, 0])))) = 0 \<and>
    calc_checksum (patch p i (net16 (calc_checksum (patch p i [0, 0])))) = 0"
  using header_cks.field_verifies [of p i] calc_cks.field_verifies [of p i] assms by simp

theorem checksum_field_verifies_witness:
  "ipv4_header_checksum (patch [0x45, 0, 0, 20, 0xff, 0xff] 2 (net16 (ipv4_header_checksum [0x45, 0, 0, 0, 0xff, 0xff]))) = 0 \<and>
   calc_checksum (patch [0x45, 0, 0, 20, 0xff, 0xff] 2 (net16 (calc_checksum [0x45, 0, 0, 0, 0xff, 0xff]))) = 0"
  using checksum_field_verifies [of "[0x45, 0, 0, 20, 0xff, 0xff]" 2] by (simp add: patch_def)

text \<open>
  C36.  The UDP checksum that the relay writes is never 0, the value for "no checksum", and the datagram with it
  verifies: the one's complement sum of pseudo header, header and payload is all ones.
\<close>

theorem udp_checksum_verifies:
  assumes "20 \<le> hlen" "even hlen" "hlen + 8 \<le> tlen" "tlen \<le> length ip" "tlen \<le> 65535"
  shows "\<exists>c. udp_checksum (patch ip (hlen + 6) [0, 0]) hlen tlen = Some c \<and> c \<noteq> 0 \<and>
    udp_verifies (patch ip (hlen + 6) (net16 c)) hlen tlen"
proof -
  have "tlen \<le> length (patch ip (hlen + 6) [0, 0])" "hlen \<le> tlen" using assms by simp_all
  then show ?thesis using udp_checksum_ones [of hlen tlen "patch ip (hlen + 6) [0, 0]"]
      udp_checksum_field_verifies [OF assms] assms(1,5) by blast
qed

theorem udp_checksum_verifies_witness:
  "\<exists>c. udp_checksum (replicate 26 0 @ [0, 0]) 20 28 = Some c \<and> c \<noteq> 0 \<and> udp_verifies (patch (replicate 28 0) 26 (net16 c)) 20 28"
  using udp_checksum_verifies [of 20 28 "replicate 28 0"] by (simp add: patch_def)

text \<open>
  C37.  The three checksum routines agree: on an even number of bytes \<^verbatim>\<open>calc_checksum\<close> is the same function as
  \<^verbatim>\<open>ipv4_header_checksum\<close>, and \<^verbatim>\<open>calc_payload_checksum\<close> over a chain of parts of even length (but for the last)
  is \<^verbatim>\<open>ipv4_header_checksum\<close> over their concatenation.
\<close>

theorem checksum_routines_agree:
  assumes "payload_ok ps" "\<forall>(p, l) \<in> set ps. even (unat l)" "length (payload_bytes ps) \<le> 65536"
  shows "calc_payload_checksum ps = Some (calc_checksum (payload_bytes ps)) \<and>
    calc_checksum (payload_bytes ps) = ipv4_header_checksum (payload_bytes ps)"
proof -
  have "even (length (payload_bytes ps))"
    using assms(1,2) by (induction ps) (auto simp: min_def)
  then have "calc_checksum (payload_bytes ps) = ipv4_header_checksum (payload_bytes ps)"
    using assms(3) by (rule calc_checksum_eq_header)
  moreover have "\<forall>(p, l) \<in> set (butlast ps). even (unat l)" using assms(2) in_set_butlastD by fastforce
  ultimately show ?thesis using calc_payload_checksum_eq [OF assms(1) _ assms(3)] by simp
qed

theorem checksum_routines_agree_witness:
  "calc_payload_checksum [([1, 2, 3], 2), ([4, 5, 6, 7], 4)] = Some (ipv4_header_checksum [1, 2, 4, 5, 6, 7])"
  using checksum_routines_agree [of "[([1, 2, 3], 2), ([4, 5, 6, 7], 4)]"] by simp

text \<open>
  They differ on an odd number of bytes: the Internet checksum pads the last byte to a 16-bit word, and
  \<^verbatim>\<open>ipv4_header_checksum\<close> does; \<^verbatim>\<open>calc_checksum\<close> adds the byte itself, so for every odd message the two differ
  unless the last byte is 0 or the sums agree modulo 65535.
\<close>

theorem calc_checksum_odd:
  assumes "even (length p)" "length p < 65536"
  shows "calc_checksum (p @ [b]) = ipv4_header_checksum (p @ [b]) \<longleftrightarrow>
    ones_sum (wsum p + unat b) = ones_sum (wsum p + 256 * unat b)"
proof -
  have w: "wsum p < 2147483649" using assms(2) by (intro wsum_less) simp
  have cw: "calc_words s (p @ [b]) = calc_words s p + ucast b" if "even (length p)" for s
    using that by (induction s p rule: calc_words.induct) simp_all
  have b: "unat b < 256" using unsigned_less [of b, where 'a = nat] by simp
  have "unat (calc_words 0 (p @ [b])) = wsum p + unat b"
    using unat_u32_add [of "calc_words 0 p" "ucast b"] unat_calc_words [of p 0] w b assms(1) by (simp add: cw)
  then have c: "unat (calc_checksum (p @ [b])) = 65535 - ones_sum (wsum p + unat b)"
    using ones_sum_le [of "wsum p + unat b"] by (simp add: calc_checksum_def unat_complement unat_fold_subtract)
  have "unat (ipv4_header_checksum (p @ [b])) = 65535 - ones_sum (wsum p + 256 * unat b)"
    using header_cks.cksum_ones [of "p @ [b]"] assms by (simp add: wsum_append)
  with c show ?thesis using ones_sum_le [of "wsum p + unat b"] ones_sum_le [of "wsum p + 256 * unat b"]
    by (auto simp: word_unat_eq_iff)
qed

theorem calc_checksum_odd_witness: "calc_checksum ([] @ [1]) \<noteq> ipv4_header_checksum ([] @ [1])"
  using calc_checksum_odd [of "[]" 1] by (simp add: ones_sum_def)

end
