(* ===== verification/Arp_Cache.thy ===== *)
theory Arp_Cache
  imports Wire
begin

text \<open>
  The neighbour table of \<^verbatim>\<open>src/arp.c\<close>: an array of \<^verbatim>\<open>ARP_CACHE_LEN\<close> items with an expiry time,
  scanned from the front.  \<^verbatim>\<open>time(NULL)\<close> is the argument \<open>now\<close>.  The locale \<open>neighbour_table\<close>
  states what the packet code relies on: a write is read back until it expires, and a write for one
  address never changes what a lookup of another address returns.
\<close>

section \<open>The code\<close>

abbreviation (input) ARP_CACHE_LEN :: nat where "ARP_CACHE_LEN \<equiv> 100"

record arp_item =
  item_ip :: ip4
  item_mac :: mac
  expire_at :: int

type_synonym arp_list = "arp_item list"

definition arp_list_init :: arp_list where
  "arp_list_init =
     replicate ARP_CACHE_LEN \<lparr>item_ip = NONE_IP, item_mac = NONE_MAC, expire_at = 0\<rparr>"

definition item_live :: "int \<Rightarrow> ip4 \<Rightarrow> arp_item \<Rightarrow> bool" where
  "item_live now ip item \<longleftrightarrow> item_ip item = ip \<and> expire_at item > now"

fun arp_has_ip :: "arp_list \<Rightarrow> int \<Rightarrow> ip4 \<Rightarrow> bool" where
  "arp_has_ip [] now ip = False"
| "arp_has_ip (item # rest) now ip = (if item_live now ip item then True else arp_has_ip rest now ip)"

text \<open>The scan of \<^verbatim>\<open>arp_get_mac_by_ip\<close>; the request it sends on a miss is in \<open>Packet\<close>.\<close>

fun arp_lookup :: "arp_list \<Rightarrow> int \<Rightarrow> ip4 \<Rightarrow> mac option" where
  "arp_lookup [] now ip = None"
| "arp_lookup (item # rest) now ip =
     (if item_live now ip item then Some (item_mac item) else arp_lookup rest now ip)"

definition slot_free :: "int \<Rightarrow> ip4 \<Rightarrow> arp_item \<Rightarrow> bool" where
  "slot_free now ip item \<longleftrightarrow> item_ip item = NONE_IP \<or> item_ip item = ip \<or> expire_at item < now"

fun arp_set :: "arp_list \<Rightarrow> int \<Rightarrow> int \<Rightarrow> mac \<Rightarrow> ip4 \<Rightarrow> arp_list \<times> bool" where
  "arp_set [] now ttl m ip = ([], False)"
| "arp_set (item # rest) now ttl m ip =
     (if slot_free now ip item
      then (\<lparr>item_ip = ip, item_mac = m, expire_at = now + ttl\<rparr> # rest, True)
      else (let (rest', found) = arp_set rest now ttl m ip in (item # rest', found)))"

fun arp_for_each :: "arp_list \<Rightarrow> int \<Rightarrow> ('u \<Rightarrow> arp_item \<Rightarrow> int \<times> 'u) \<Rightarrow> 'u \<Rightarrow> 'u" where
  "arp_for_each [] now cb u = u"
| "arp_for_each (item # rest) now cb u =
     (if expire_at item > now
      then (let (ret, u') = cb u item in if ret \<noteq> 0 then u' else arp_for_each rest now cb u')
      else arp_for_each rest now cb u)"

section \<open>Lemmas\<close>

lemma length_arp_list_init [simp]: "length arp_list_init = 100"
  by (simp add: arp_list_init_def)

lemma arp_has_ip_lookup: "arp_has_ip l now ip \<longleftrightarrow> arp_lookup l now ip \<noteq> None"
  by (induction l) simp_all

lemma length_arp_set [simp]: "length (fst (arp_set l now ttl m ip)) = length l"
  by (induction l) (auto simp: split_def Let_def)

lemma arp_set_found: "snd (arp_set l now ttl m ip) \<longleftrightarrow> (\<exists>item \<in> set l. slot_free now ip item)"
  by (induction l) (auto simp: split_def Let_def)

lemma arp_set_full: "\<not> snd (arp_set l now ttl m ip) \<Longrightarrow> fst (arp_set l now ttl m ip) = l"
  by (induction l) (auto simp: split_def Let_def split: if_splits)

lemma arp_lookup_set_same:
  "snd (arp_set l now ttl m ip) \<Longrightarrow> now \<le> t \<Longrightarrow> t < now + ttl \<Longrightarrow>
     arp_lookup (fst (arp_set l now ttl m ip)) t ip = Some m"
  by (induction l) (auto simp: split_def Let_def slot_free_def item_live_def split: if_splits)

lemma arp_lookup_set_other:
  "ip' \<noteq> ip \<Longrightarrow> ip' \<noteq> NONE_IP \<Longrightarrow> now \<le> t \<Longrightarrow>
     arp_lookup (fst (arp_set l now ttl m ip)) t ip' = arp_lookup l t ip'"
  by (induction l) (auto simp: split_def Let_def slot_free_def item_live_def)

lemma arp_set_full_unknown:
  "\<not> snd (arp_set l now ttl m ip) \<Longrightarrow> arp_lookup l t ip = None"
  by (induction l) (auto simp: split_def Let_def slot_free_def item_live_def split: if_splits)

lemma arp_lookup_expires: "arp_lookup l t ip = None \<Longrightarrow> t \<le> t' \<Longrightarrow> arp_lookup l t' ip = None"
  by (induction l) (auto simp: item_live_def split: if_splits)

lemma arp_lookup_init: "0 \<le> now \<Longrightarrow> arp_lookup arp_list_init now ip = None"
proof -
  assume "0 \<le> now"
  then have "arp_lookup (replicate n \<lparr>item_ip = NONE_IP, item_mac = NONE_MAC, expire_at = 0\<rparr>) now ip = None" for n
    by (induction n) (auto simp: item_live_def)
  then show ?thesis by (simp add: arp_list_init_def)
qed

section \<open>The contract of a neighbour table\<close>

locale neighbour_table =
  fixes find_mac :: "'t \<Rightarrow> int \<Rightarrow> ip4 \<Rightarrow> mac option"
    and set_mac :: "'t \<Rightarrow> int \<Rightarrow> int \<Rightarrow> mac \<Rightarrow> ip4 \<Rightarrow> 't \<times> bool"
  assumes find_set_same: "snd (set_mac l now ttl m ip) \<Longrightarrow> now \<le> t \<Longrightarrow> t < now + ttl \<Longrightarrow>
      find_mac (fst (set_mac l now ttl m ip)) t ip = Some m"
    and find_set_other: "ip' \<noteq> ip \<Longrightarrow> ip' \<noteq> NONE_IP \<Longrightarrow> now \<le> t \<Longrightarrow>
      find_mac (fst (set_mac l now ttl m ip)) t ip' = find_mac l t ip'"
    and find_set_full: "\<not> snd (set_mac l now ttl m ip) \<Longrightarrow> find_mac l now ip = None"
    and set_full_same: "\<not> snd (set_mac l now ttl m ip) \<Longrightarrow> fst (set_mac l now ttl m ip) = l"
begin

text \<open>Observations \<open>(now, mac, ip)\<close> in the order in which they are made.\<close>

primrec learn_all :: "'t \<Rightarrow> int \<Rightarrow> (int \<times> mac \<times> ip4) list \<Rightarrow> 't" where
  "learn_all l ttl [] = l"
| "learn_all l ttl (ob # obs) = learn_all (fst (set_mac l (fst ob) ttl (fst (snd ob)) (snd (snd ob)))) ttl obs"

lemma learn_others:
  "\<forall>(now, m, ip) \<in> set obs. ip \<noteq> a \<and> now \<le> t \<Longrightarrow> a \<noteq> NONE_IP \<Longrightarrow>
     find_mac (learn_all l ttl obs) t a = find_mac l t a"
  by (induction obs arbitrary: l) (auto simp: find_set_other)

lemma learn_append: "learn_all l ttl (xs @ ys) = learn_all (learn_all l ttl xs) ttl ys"
  by (induction xs arbitrary: l) simp_all

lemma last_observation_wins:
  assumes "snd (set_mac (learn_all l ttl xs) now ttl m a)" "a \<noteq> NONE_IP" "now \<le> t" "t < now + ttl"
    and "\<forall>(now', m', ip') \<in> set ys. ip' \<noteq> a \<and> now' \<le> t"
  shows "find_mac (learn_all l ttl (xs @ (now, m, a) # ys)) t a = Some m"
  using assms by (simp add: learn_append learn_others find_set_same)

text \<open>At the time of the write the table behaves as the finite map it caches.\<close>

lemma set_refines_update:
  assumes "snd (set_mac l now ttl m ip)" "0 < ttl" "a \<noteq> NONE_IP"
  shows "find_mac (fst (set_mac l now ttl m ip)) now a = ((find_mac l now)(ip \<mapsto> m)) a"
  using assms by (cases "a = ip") (auto simp: find_set_same find_set_other)

end

interpretation arp: neighbour_table arp_lookup arp_set
  by unfold_locales (simp_all add: arp_lookup_set_same arp_lookup_set_other arp_set_full_unknown arp_set_full)

section \<open>Properties\<close>

text \<open>
  C28.  The neighbour table implements a map from addresses to hardware addresses: after a successful \<^verbatim>\<open>arp_set\<close>
  the lookups are those of the map updated at the address; when no slot is free the table is unchanged and the
  address was not in it.
\<close>

theorem arp_set_refines_map:
  assumes "0 < ttl" "a \<noteq> NONE_IP"
  shows "arp_lookup (fst (arp_set l now ttl m ip)) now a =
    (if snd (arp_set l now ttl m ip) then ((arp_lookup l now)(ip \<mapsto> m)) a else arp_lookup l now a)"
  using arp.set_refines_update [OF _ assms, of l now m ip] arp.set_full_same by simp

theorem arp_set_refines_map_witness:
  "arp_lookup (fst (arp_set arp_list_init 7 30 (MAC 1 2 3 4 5 6) (IP4 10 0 0 1))) 7 (IP4 10 0 0 1) = Some (MAC 1 2 3 4 5 6)"
proof -
  have "snd (arp_set arp_list_init 7 30 (MAC 1 2 3 4 5 6) (IP4 10 0 0 1))"
    unfolding arp_set_found by (auto simp: arp_list_init_def slot_free_def)
  then show ?thesis using arp_set_refines_map [of 30 "IP4 10 0 0 1" arp_list_init 7 "MAC 1 2 3 4 5 6" "IP4 10 0 0 1"]
    by (simp add: NONE_IP_def)
qed

text \<open>
  The last observation of a neighbour wins: in any sequence of observations, the address of a
  neighbour is answered with its last hardware address until its time to live is over, whatever other addresses
  are learned in between.
\<close>

theorem arp_last_observation_wins:
  assumes "snd (arp_set (arp.learn_all l ttl xs) now ttl m a)" "a \<noteq> NONE_IP"
    and "\<forall>(now', m', ip') \<in> set ys. ip' \<noteq> a \<and> now' \<le> t" "now \<le> t" "t < now + ttl"
  shows "arp_lookup (arp.learn_all l ttl (xs @ (now, m, a) # ys)) t a = Some m"
  using arp.last_observation_wins [OF assms(1,2,4,5,3)] .

theorem arp_last_observation_wins_witness:
  "arp_lookup (arp.learn_all arp_list_init 30 [(5, MAC 1 1 1 1 1 1, IP4 10 0 0 1), (7, MAC 2 2 2 2 2 2, IP4 10 0 0 1),
     (8, MAC 3 3 3 3 3 3, IP4 10 0 0 3)]) 20 (IP4 10 0 0 1) = Some (MAC 2 2 2 2 2 2)"
proof -
  have "snd (arp_set (arp.learn_all arp_list_init 30 [(5, MAC 1 1 1 1 1 1, IP4 10 0 0 1)]) 7 30 (MAC 2 2 2 2 2 2) (IP4 10 0 0 1))"
    by (simp add: arp_list_init_def eval_nat_numeral slot_free_def NONE_IP_def)
  then show ?thesis
    using arp_last_observation_wins [of arp_list_init 30 "[(5, MAC 1 1 1 1 1 1, IP4 10 0 0 1)]" 7 "MAC 2 2 2 2 2 2"
        "IP4 10 0 0 1" "[(8, MAC 3 3 3 3 3 3, IP4 10 0 0 3)]" 20] by (simp add: NONE_IP_def)
qed

end
