(* ===== verification/Native_Udp.thy ===== *)
theory Native_Udp
  imports Wire
begin

text \<open>
  The host UDP endpoints of \<^verbatim>\<open>src/native-udp.c\<close>.  The guard keeps a linked list of bound ports (newest
  first) so that the host's own stack never answers a game datagram with ICMP port-unreachable.  The
  results of \<^verbatim>\<open>calloc\<close> and of the libuv calls are arguments (\<open>udp_calls\<close>).
\<close>

section \<open>The code\<close>

abbreviation (input) MAX_UDP_PORTS :: nat where "MAX_UDP_PORTS \<equiv> 64"

text \<open>A libuv status: \<^term>\<open>None\<close> is \<^verbatim>\<open>0\<close>; \<open>UV_SYS\<close> is any other negative code of a libuv call.\<close>

datatype uv_err = UV_EINVAL | UV_ENOSPC | UV_ENOMEM | UV_SYS int

type_synonym uv_status = "uv_err option"

record native_udp_guard =
  address :: ip4
  ports :: "u16 list"
  port_count :: nat
  received :: u64

record udp_calls =
  calloc_ok :: bool
  udp_init :: uv_status
  udp_bind :: "ip4 \<Rightarrow> u16 \<Rightarrow> uv_status"
  udp_recv_start :: "u16 \<Rightarrow> uv_status"

definition native_udp_guard_create :: "bool \<Rightarrow> ip4 \<Rightarrow> uv_status \<times> native_udp_guard option" where
  "native_udp_guard_create alloc_ok ip =
     (if \<not> alloc_ok then (Some UV_ENOMEM, None)
      else (None, Some \<lparr>address = ip, ports = [], port_count = 0, received = 0\<rparr>))"

definition native_udp_guard_reserve ::
  "udp_calls \<Rightarrow> native_udp_guard option \<Rightarrow> u16 \<Rightarrow> uv_status \<times> native_udp_guard option" where
  "native_udp_guard_reserve calls guard port =
     (case guard of
        None \<Rightarrow> (Some UV_EINVAL, guard)
      | Some g \<Rightarrow>
          if port = 0 then (Some UV_EINVAL, guard)
          else if port \<in> set (ports g) then (None, guard)
          else if port_count g \<ge> MAX_UDP_PORTS then (Some UV_ENOSPC, guard)
          else if \<not> calloc_ok calls then (Some UV_ENOMEM, guard)
          else if udp_init calls \<noteq> None then (udp_init calls, guard)
          else let ret = udp_bind calls (address g) port;
                   ret = (if ret = None then udp_recv_start calls port else ret)
               in if ret \<noteq> None then (ret, guard)
                  else (None, Some (g\<lparr>ports := port # ports g, port_count := port_count g + 1\<rparr>)))"

text \<open>\<^verbatim>\<open>drain_datagram\<close>: every delivered datagram counts, also an empty one; errors and the
  end-of-batch call (no address) do not.\<close>

definition drain_datagram :: "native_udp_guard \<Rightarrow> int \<Rightarrow> bool \<Rightarrow> native_udp_guard" where
  "drain_datagram g nread has_addr =
     (if nread < 0 then g else if has_addr then g\<lparr>received := received g + 1\<rparr> else g)"

definition native_udp_guard_received :: "native_udp_guard option \<Rightarrow> u64" where
  "native_udp_guard_received guard = (case guard of None \<Rightarrow> 0 | Some g \<Rightarrow> received g)"

text \<open>The sockets \<^verbatim>\<open>native_udp_guard_close\<close> stops and closes, in order.\<close>

definition native_udp_guard_close :: "native_udp_guard option \<Rightarrow> u16 list" where
  "native_udp_guard_close guard = (case guard of None \<Rightarrow> [] | Some g \<Rightarrow> ports g)"

section \<open>Lemmas\<close>

definition guard_ok :: "native_udp_guard \<Rightarrow> bool" where
  "guard_ok g \<longleftrightarrow> port_count g = length (ports g) \<and> port_count g \<le> MAX_UDP_PORTS \<and>
     distinct (ports g) \<and> 0 \<notin> set (ports g)"

definition guard_opt_ok :: "native_udp_guard option \<Rightarrow> bool" where
  "guard_opt_ok guard \<longleftrightarrow> (case guard of None \<Rightarrow> True | Some g \<Rightarrow> guard_ok g)"

definition guard_ports :: "native_udp_guard option \<Rightarrow> u16 set" where
  "guard_ports guard = (case guard of None \<Rightarrow> {} | Some g \<Rightarrow> set (ports g))"

lemma create_ok: "guard_opt_ok (snd (native_udp_guard_create b ip))"
  by (simp add: native_udp_guard_create_def guard_opt_ok_def guard_ok_def)

lemma reserve_ok:
  "guard_opt_ok guard \<Longrightarrow> guard_opt_ok (snd (native_udp_guard_reserve calls guard port))"
  by (auto simp: native_udp_guard_reserve_def guard_opt_ok_def guard_ok_def Let_def split: option.split)

lemma reserve_reserves:
  "fst (native_udp_guard_reserve calls guard port) = None \<Longrightarrow>
     guard_ports (snd (native_udp_guard_reserve calls guard port)) = insert port (guard_ports guard)"
  by (auto simp: native_udp_guard_reserve_def guard_ports_def Let_def split: option.splits if_splits)

lemma reserve_fails_unchanged:
  "fst (native_udp_guard_reserve calls guard port) \<noteq> None \<Longrightarrow>
     snd (native_udp_guard_reserve calls guard port) = guard"
  by (auto simp: native_udp_guard_reserve_def Let_def split: option.splits if_splits)

lemma reserve_again:
  "guard_opt_ok guard \<Longrightarrow> port \<in> guard_ports guard \<Longrightarrow>
     native_udp_guard_reserve calls guard port = (None, guard)"
  by (auto simp: native_udp_guard_reserve_def guard_opt_ok_def guard_ok_def guard_ports_def
      split: option.splits)

section \<open>The contract of a port guard\<close>

locale port_guard =
  fixes reserve :: "'c \<Rightarrow> 'g \<Rightarrow> u16 \<Rightarrow> uv_status \<times> 'g"
    and held :: "'g \<Rightarrow> u16 set" and wf :: "'g \<Rightarrow> bool"
  assumes wf_reserve: "wf g \<Longrightarrow> wf (snd (reserve c g p))"
    and held_reserve: "fst (reserve c g p) = None \<Longrightarrow> held (snd (reserve c g p)) = insert p (held g)"
    and failed_reserve: "fst (reserve c g p) \<noteq> None \<Longrightarrow> snd (reserve c g p) = g"
    and held_again: "wf g \<Longrightarrow> p \<in> held g \<Longrightarrow> reserve c g p = (None, g)"
    and held_bounded: "wf g \<Longrightarrow> finite (held g) \<and> card (held g) \<le> MAX_UDP_PORTS \<and> 0 \<notin> held g"
begin

lemma held_mono: "held g \<subseteq> held (snd (reserve c g p))"
  using held_reserve [of c g p] failed_reserve [of c g p] by (cases "fst (reserve c g p)") auto

text \<open>The loop of \<^verbatim>\<open>lan_play_init\<close> and every later datagram: ports are reserved one by one.\<close>

primrec reserve_all :: "'g \<Rightarrow> ('c \<times> u16) list \<Rightarrow> 'g" where
  "reserve_all g [] = g"
| "reserve_all g (cp # rest) = reserve_all (snd (reserve (fst cp) g (snd cp))) rest"

lemma reserve_all_wf: "wf g \<Longrightarrow> wf (reserve_all g cps)"
  by (induction cps arbitrary: g) (simp_all add: wf_reserve)

lemma reserve_all_mono: "held g \<subseteq> held (reserve_all g cps)"
proof (induction cps arbitrary: g)
  case (Cons cp cps)
  then show ?case using held_mono [of g "fst cp" "snd cp"] by fastforce
qed simp

lemma reserve_all_bounded: "wf g \<Longrightarrow> card (held (reserve_all g cps)) \<le> MAX_UDP_PORTS"
  using held_bounded [OF reserve_all_wf] by simp

lemma reserved_stays:
  "wf g \<Longrightarrow> fst (reserve c g p) = None \<Longrightarrow>
     reserve c' (reserve_all (snd (reserve c g p)) cps) p = (None, reserve_all (snd (reserve c g p)) cps)"
  using reserve_all_mono [of "snd (reserve c g p)" cps] held_reserve [of c g p]
  by (intro held_again reserve_all_wf wf_reserve) auto

end

interpretation udp_guard: port_guard native_udp_guard_reserve guard_ports guard_opt_ok
proof unfold_locales
  show "finite (guard_ports g) \<and> card (guard_ports g) \<le> 64 \<and> 0 \<notin> guard_ports g"
    if "guard_opt_ok g" for g
    using that by (auto simp: guard_opt_ok_def guard_ok_def guard_ports_def distinct_card split: option.splits)
qed (simp_all add: reserve_ok reserve_reserves reserve_fails_unchanged reserve_again)

section \<open>Properties\<close>

text \<open>
  The port guard is bounded and keeps what it holds.  After any sequence of reservations it holds at most 64
  ports, never port 0; a port that was reserved once is still held, and reserving it again succeeds without
  touching the guard or calling the system.
\<close>

theorem guard_bounded_and_stable:
  assumes "guard_opt_ok g" "fst (native_udp_guard_reserve c g p) = None"
    and "g' = udp_guard.reserve_all (snd (native_udp_guard_reserve c g p)) cps"
  shows "card (guard_ports g') \<le> 64 \<and> 0 \<notin> guard_ports g' \<and> p \<in> guard_ports g' \<and>
    native_udp_guard_reserve c' g' p = (None, g')"
proof -
  have ok: "guard_opt_ok g'" using udp_guard.reserve_all_wf [OF udp_guard.wf_reserve [OF assms(1)]] assms(3) by simp
  have "p \<in> guard_ports (snd (native_udp_guard_reserve c g p))" using udp_guard.held_reserve [OF assms(2)] by simp
  then have "p \<in> guard_ports g'" using udp_guard.reserve_all_mono assms(3) by blast
  then show ?thesis using udp_guard.held_bounded [OF ok] udp_guard.reserved_stays [OF assms(1,2)] assms(3) by simp
qed

theorem guard_bounded_and_stable_witness:
  "\<exists>c g g'. g' = udp_guard.reserve_all (snd (native_udp_guard_reserve c g 35000)) [(c, 49152)] \<and> 35000 \<in> guard_ports g' \<and>
    native_udp_guard_reserve c g' 35000 = (None, g')"
proof -
  define c where "c = \<lparr>calloc_ok = True, udp_init = None, udp_bind = (\<lambda>_ _. None), udp_recv_start = (\<lambda>_. None)\<rparr>"
  define g where "g = Some \<lparr>address = IP4 10 0 0 1, ports = [], port_count = 0, received = 0\<rparr>"
  have "guard_opt_ok g" "fst (native_udp_guard_reserve c g 35000) = None"
    by (simp_all add: guard_opt_ok_def guard_ok_def native_udp_guard_reserve_def g_def c_def)
  from guard_bounded_and_stable [OF this refl, of "[(c, 49152)]" c] show ?thesis by blast
qed

end
