(* ===== verification/Captures.thy ===== *)
theory Captures
  imports Relay_Prelude
begin

text \<open>
  The optional packet captures of \<^verbatim>\<open>src/lan-play.c\<close> (\<^verbatim>\<open>open_captures\<close>, \<^verbatim>\<open>capture_frame\<close>,
  \<^verbatim>\<open>flush_capture\<close>, \<^verbatim>\<open>close_captures\<close>): five files, one per direction.  A dumper is the list of the
  records written to it and the number of them that are flushed to disk.  The clock and the outcomes
  of the file operations are arguments.
\<close>

section \<open>The code\<close>

datatype direction = RX_WiFi | TX_WiFi | RX_ZeroTier | TX_ZeroTier | HOST

fun capture_index :: "direction \<Rightarrow> nat" where
  "capture_index RX_WiFi = 0"
| "capture_index TX_WiFi = 1"
| "capture_index RX_ZeroTier = 2"
| "capture_index TX_ZeroTier = 3"
| "capture_index HOST = 4"

definition capture_suffixes :: "string list" where
  "capture_suffixes = [''wifi-rx'', ''wifi-tx'', ''zerotier-rx'', ''zerotier-tx'', ''host'']"

record capture =
  opened :: bool
  pending :: u32
  last_flush_us :: u64
  records :: "(int \<times> u64 \<times> byte list) list"
  flushed :: nat

record captures =
  capture_format :: bool
  caps :: "capture list"
  capture_start_ns :: u64
  capture_start_time :: int

record clock =
  now :: int
  hrtime :: u64

definition no_capture :: capture where
  "no_capture = \<lparr>opened = False, pending = 0, last_flush_us = 0, records = [], flushed = 0\<rparr>"

definition no_captures :: captures where
  "no_captures = \<lparr>capture_format = False, caps = replicate 5 no_capture,
     capture_start_ns = 0, capture_start_time = 0\<rparr>"

definition flush_capture :: "bool \<Rightarrow> capture \<Rightarrow> capture" where
  "flush_capture flush_ok c =
     (if \<not> opened c then c
      else if \<not> flush_ok then c\<lparr>opened := False, pending := 0\<rparr>
      else c\<lparr>flushed := length (records c), pending := 0\<rparr>)"

definition close_capture :: "bool \<Rightarrow> capture \<Rightarrow> capture" where
  "close_capture flush_ok c = (flush_capture flush_ok c)\<lparr>opened := False\<rparr>"

definition close_captures :: "(nat \<Rightarrow> bool) \<Rightarrow> captures \<Rightarrow> captures" where
  "close_captures flush_ok cs =
     cs\<lparr>caps := map (\<lambda>i. close_capture (flush_ok i) (caps cs ! i)) [0..<5], capture_format := False\<rparr>"

text \<open>\<open>create_ok path\<close>: the exclusive creation and the dumper of the file both succeed; a new file has no
  records.\<close>

fun open_loop :: "(string \<Rightarrow> bool) \<Rightarrow> string \<Rightarrow> nat \<Rightarrow> string list \<Rightarrow> captures \<Rightarrow> bool \<times> captures" where
  "open_loop create_ok prefix i [] cs = (True, cs)"
| "open_loop create_ok prefix i (s # ss) cs =
     (let path = prefix @ ''-'' @ s @ ''.pcap''
      in if length path \<ge> 4096 \<or> \<not> create_ok path then (False, close_captures (\<lambda>_. True) cs)
         else open_loop create_ok prefix (i + 1) ss
                (cs\<lparr>caps := (caps cs)[i := (caps cs ! i)\<lparr>opened := True, records := [], flushed := 0\<rparr>]\<rparr>))"

definition open_captures ::
  "clock \<Rightarrow> bool \<Rightarrow> (string \<Rightarrow> bool) \<Rightarrow> string option \<Rightarrow> captures \<Rightarrow> bool \<times> captures" where
  "open_captures clk dead_ok create_ok prefix cs =
     (case prefix of
        None \<Rightarrow> (True, cs)
      | Some pre \<Rightarrow>
          if \<not> dead_ok then (False, cs)
          else open_loop create_ok pre 0 capture_suffixes
                 (cs\<lparr>capture_format := True, capture_start_time := now clk, capture_start_ns := hrtime clk,
                    caps := map (\<lambda>c. c\<lparr>pending := 0, last_flush_us := 0\<rparr>) (caps cs)\<rparr>))"

definition capture_frame :: "clock \<Rightarrow> (nat \<Rightarrow> bool) \<Rightarrow> direction \<Rightarrow> byte list \<Rightarrow> captures \<Rightarrow> captures" where
  "capture_frame clk flush_ok dir frame cs =
     (let i = capture_index dir; c = caps cs ! i
      in if frame = [] \<or> \<not> opened c then cs
         else let elapsed_us = (hrtime clk - capture_start_ns cs) div 1000;
                  c = c\<lparr>records := records c @
                          [(capture_start_time cs + uint (elapsed_us div 1000000), elapsed_us mod 1000000, frame)],
                        pending := pending c + 1\<rparr>;
                  c = (if pending c \<ge> 32 \<or> elapsed_us - last_flush_us c \<ge> 100000
                       then (flush_capture (flush_ok i) c)\<lparr>last_flush_us := elapsed_us\<rparr>
                       else c)
              in cs\<lparr>caps := (caps cs)[i := c]\<rparr>)"

section \<open>Lemmas\<close>

definition capture_ok :: "capture \<Rightarrow> bool" where
  "capture_ok c \<longleftrightarrow> pending c < 32 \<and> (opened c \<longrightarrow> length (records c) = flushed c + unat (pending c))"

definition captures_ok :: "captures \<Rightarrow> bool" where
  "captures_ok cs \<longleftrightarrow> length (caps cs) = 5 \<and> (\<forall>c \<in> set (caps cs). capture_ok c)"

lemma capture_index_less: "capture_index d < 5"
  by (cases d) simp_all

lemma captures_ok_none: "captures_ok no_captures"
  by (simp add: captures_ok_def no_captures_def capture_ok_def no_capture_def)

lemma flush_ok_capture: "opened c \<Longrightarrow> length (records c) = flushed c + unat (pending c) \<Longrightarrow> capture_ok (flush_capture b c)"
  by (simp add: flush_capture_def capture_ok_def)

lemma captures_ok_nth: "captures_ok cs \<Longrightarrow> capture_ok (caps cs ! capture_index d)"
  using capture_index_less [of d] by (simp add: captures_ok_def)

lemma captures_ok_update:
  "captures_ok cs \<Longrightarrow> capture_ok c \<Longrightarrow> captures_ok (cs\<lparr>caps := (caps cs)[i := c]\<rparr>)"
  by (auto simp: captures_ok_def dest!: set_update_subset_insert [THEN subsetD])

lemma capture_frame_ok:
  assumes ok: "captures_ok cs"
  shows "captures_ok (capture_frame clk fl d frame cs)"
proof -
  let ?c = "caps cs ! capture_index d"
  have c: "capture_ok ?c" using ok by (rule captures_ok_nth)
  then have "unat (pending ?c) < 32" by (simp add: capture_ok_def word_less_nat_alt)
  then have p: "unat (pending ?c + 1) = unat (pending ?c) + 1"
    by (subst unat_word_ariths) simp
  have flush: "capture_ok ((flush_capture b c')\<lparr>last_flush_us := t\<rparr>)"
    if "opened c'" "length (records c') = flushed c' + unat (pending c')" for b c' t
    using flush_ok_capture [OF that, of b] by (simp add: capture_ok_def)
  show ?thesis
  proof (cases "frame = [] \<or> \<not> opened ?c")
    case False
    then show ?thesis using c p ok
      by (auto simp: capture_frame_def Let_def intro!: captures_ok_update flush)
        (auto simp: capture_ok_def)
  qed (use ok in \<open>simp add: capture_frame_def Let_def\<close>)
qed

lemma close_capture_ok: "capture_ok c \<Longrightarrow> capture_ok (close_capture b c)"
  by (simp add: close_capture_def flush_capture_def capture_ok_def)

lemma close_captures_ok: "captures_ok cs \<Longrightarrow> captures_ok (close_captures b cs)"
  by (auto simp: captures_ok_def close_captures_def intro!: close_capture_ok)

lemma open_loop_ok:
  assumes "captures_ok cs" "\<forall>c \<in> set (caps cs). pending c = 0"
  shows "captures_ok (snd (open_loop create_ok pre i ss cs))"
  using assms
proof (induction create_ok pre i ss cs rule: open_loop.induct)
  case (2 create_ok prefix i s ss cs)
  let ?c = "(caps cs ! i)\<lparr>opened := True, records := [], flushed := 0\<rparr>"
  let ?cs = "cs\<lparr>caps := (caps cs)[i := ?c]\<rparr>"
  have "pending ?c = 0" if "i < length (caps cs)" using 2(3) that by simp
  then have "captures_ok ?cs \<and> (\<forall>c \<in> set (caps ?cs). pending c = 0)"
  proof (cases "i < length (caps cs)")
    case True
    then show ?thesis using 2(2,3)
      by (auto simp: capture_ok_def intro!: captures_ok_update dest!: set_update_subset_insert [THEN subsetD])
  qed (use 2(2,3) in \<open>simp add: list_update_beyond captures_ok_def\<close>)
  then show ?case using 2(1,2) by (auto simp: Let_def close_captures_ok)
qed simp

lemma open_captures_ok:
  assumes "captures_ok cs" "\<forall>c \<in> set (caps cs). \<not> opened c"
  shows "captures_ok (snd (open_captures clk dead_ok create_ok prefix cs))"
proof (cases prefix)
  case (Some pre)
  let ?cs = "cs\<lparr>capture_format := True, capture_start_time := now clk, capture_start_ns := hrtime clk,
     caps := map (\<lambda>c. c\<lparr>pending := 0, last_flush_us := 0\<rparr>) (caps cs)\<rparr>"
  have "captures_ok ?cs" using assms by (auto simp: captures_ok_def capture_ok_def)
  then show ?thesis using open_loop_ok [of ?cs create_ok pre 0 capture_suffixes] assms Some by (simp add: open_captures_def)
qed (use assms in \<open>simp add: open_captures_def\<close>)

text \<open>A frame handed to an open capture is its newest record, in full.\<close>

lemma capture_frame_records:
  assumes "captures_ok cs" "opened (caps cs ! capture_index d)" "frame \<noteq> []"
  shows "\<exists>t us. records (caps (capture_frame clk fl d frame cs) ! capture_index d) =
     records (caps cs ! capture_index d) @ [(t, us, frame)]"
  using assms capture_index_less [of d]
  by (auto simp: capture_frame_def Let_def captures_ok_def flush_capture_def)

lemma close_captures_closed:
  "length (caps cs) = 5 \<Longrightarrow> \<forall>c \<in> set (caps (close_captures fl cs)). \<not> opened c"
  by (auto simp: close_captures_def close_capture_def)

lemma close_flushes_all:
  assumes "captures_ok cs" "i < 5" "opened (caps cs ! i)" "fl i"
  shows "flushed (caps (close_captures fl cs) ! i) = length (records (caps (close_captures fl cs) ! i))"
  using assms by (simp add: close_captures_def close_capture_def flush_capture_def del: upt_Suc)

section \<open>Properties\<close>

text \<open>
  Captures lose no frame and buffer few.  Whatever frames are recorded, in any directions and at any times, each
  open capture file has at most 31 records that are not flushed, every recorded frame is the last record of its
  file, and closing the files flushes them completely and leaves none open, when the flushes succeed.
\<close>

theorem captures_flushed:
  assumes ok: "captures_ok cs" and frame: "frame \<noteq> []" "opened (caps cs ! capture_index d)"
    and run: "cs' = fold (\<lambda>(clk, fl, d, f). capture_frame clk fl d f) frames (capture_frame clk fl d frame cs)"
  shows "(\<exists>t us. last (records (caps (capture_frame clk fl d frame cs) ! capture_index d)) = (t, us, frame)) \<and>
    (\<forall>i < 5. opened (caps cs' ! i) \<longrightarrow> length (records (caps cs' ! i)) - flushed (caps cs' ! i) \<le> 31 \<and>
       flushed (caps (close_captures (\<lambda>_. True) cs') ! i) = length (records (caps (close_captures (\<lambda>_. True) cs') ! i))) \<and>
    (\<forall>c \<in> set (caps (close_captures (\<lambda>_. True) cs')). \<not> opened c)"
proof -
  have ok': "captures_ok cs'"
    unfolding run by (rule fold_invariant [where Q = "\<lambda>_. True"]) (auto intro: capture_frame_ok ok split: prod.splits)
  have "length (records (caps cs' ! i)) - flushed (caps cs' ! i) \<le> 31" if "i < 5" "opened (caps cs' ! i)" for i
  proof -
    have "capture_ok (caps cs' ! i)" using ok' that(1) by (simp add: captures_ok_def)
    then show ?thesis using that(2) by (simp add: capture_ok_def word_less_nat_alt)
  qed
  moreover obtain t us where "records (caps (capture_frame clk fl d frame cs) ! capture_index d) =
     records (caps cs ! capture_index d) @ [(t, us, frame)]" using capture_frame_records [OF ok frame(2,1)] by blast
  moreover have "length (caps cs') = 5" using ok' by (simp add: captures_ok_def)
  ultimately show ?thesis using close_flushes_all [OF ok'] close_captures_closed by auto
qed

theorem captures_flushed_witness:
  "\<exists>cs. opened (caps cs ! 0) \<and> flushed (caps (close_captures (\<lambda>_. True) (capture_frame \<lparr>now = 5, hrtime = 7\<rparr> (\<lambda>_. True) RX_WiFi [1, 2] cs)) ! 0) = 1"
proof -
  define cs where "cs = no_captures\<lparr>caps := [no_capture\<lparr>opened := True\<rparr>, no_capture, no_capture, no_capture, no_capture]\<rparr>"
  let ?cs' = "capture_frame \<lparr>now = 5, hrtime = 7\<rparr> (\<lambda>_. True) RX_WiFi [1, 2] cs"
  have o: "opened (caps cs ! capture_index RX_WiFi)" "captures_ok cs"
    by (simp_all add: cs_def captures_ok_def capture_ok_def no_capture_def no_captures_def)
  have r: "opened (caps ?cs' ! 0)" "length (records (caps (close_captures (\<lambda>_. True) ?cs') ! 0)) = 1"
    by (simp_all add: cs_def capture_frame_def close_captures_def close_capture_def flush_capture_def no_captures_def no_capture_def Let_def)
  have "flushed (caps (close_captures (\<lambda>_. True) ?cs') ! 0) = length (records (caps (close_captures (\<lambda>_. True) ?cs') ! 0))"
    using captures_flushed [OF o(2) _ o(1), of "[1, 2]" ?cs' "[]" "\<lparr>now = 5, hrtime = 7\<rparr>" "\<lambda>_. True"] r(1) by auto
  then show ?thesis using o(1) r(2) by (intro exI [of _ cs]) simp
qed

end
