(* ===== verification/Options.thy ===== *)
theory Options
  imports Relay_Prelude
begin

text \<open>
  The command line of \<^verbatim>\<open>src/main.c\<close>: \<^verbatim>\<open>struct cli_options\<close> and \<^verbatim>\<open>parse_arguments\<close> as it is compiled
  on Linux and macOS (the two Windows-only options are not parsed there).  A C string is a list of
  characters and \<^verbatim>\<open>NULL\<close> is \<^term>\<open>None\<close>.  The result \<^term>\<open>None\<close> of \<open>parse_arguments\<close> is the return
  value \<^verbatim>\<open>-1\<close>.
\<close>

section \<open>C library number parsing\<close>

definition is_space :: "char \<Rightarrow> bool" where
  "is_space c \<longleftrightarrow> c \<in> set [CHR '' '', CHR 0x09, CHR 0x0a, CHR 0x0b, CHR 0x0c, CHR 0x0d]"

definition is_digit :: "char \<Rightarrow> bool" where
  "is_digit c \<longleftrightarrow> 48 \<le> (of_char c :: nat) \<and> (of_char c :: nat) \<le> 57"

definition digit_val :: "char \<Rightarrow> int" where
  "digit_val c = int (of_char c) - 48"

definition dec_val :: "string \<Rightarrow> int" where
  "dec_val ds = foldl (\<lambda>a c. 10 * a + digit_val c) 0 ds"

text \<open>
  \<^verbatim>\<open>strtol(s, &end, 10)\<close> without its saturation: the value, the rest of the text and whether any digit
  was converted (without one, \<^verbatim>\<open>end\<close> is the start of the text).
\<close>

definition strtol10 :: "string \<Rightarrow> int \<times> string" where
  "strtol10 s =
     (let t = dropWhile is_space s;
          (neg, u) = (case t of
             [] \<Rightarrow> (False, t)
           | c # r \<Rightarrow> if c = CHR ''-'' then (True, r) else if c = CHR ''+'' then (False, r) else (False, t));
          ds = takeWhile is_digit u
      in if ds = [] then (0, s)
         else (if neg then - dec_val ds else dec_val ds, dropWhile is_digit u))"

definition atoi :: "string \<Rightarrow> int" where
  "atoi s = fst (strtol10 s)"

section \<open>The options\<close>

record cli_options =
  opt_help :: bool
  opt_version :: bool
  opt_broadcast :: bool
  opt_pmtu :: int
  fake_internet :: bool
  list_if :: bool
  diagnostics :: bool
  status_events :: bool
  discover_switch :: bool
  dhcp_server :: bool
  capture_prefix :: "string option"
  netif :: "string option"
  zerotier_if :: "string option"
  opt_subnet :: "string option"
  gateway_ip :: "string option"
  relay_server_addr :: "string option"
  relay_username :: "string option"
  relay_password :: "string option"
  relay_password_file :: "string option"
  socks5_server_addr :: "string option"
  socks5_username :: "string option"
  socks5_password :: "string option"
  socks5_password_file :: "string option"
  rpc :: "string option"
  rpc_token :: "string option"
  rpc_protocol :: "string option"

text \<open>The defaults \<^verbatim>\<open>parse_arguments\<close> writes first; \<^verbatim>\<open>capture_prefix\<close> keeps its static value.\<close>

definition default_options :: "string option \<Rightarrow> cli_options" where
  "default_options prefix = \<lparr>
     opt_help = False, opt_version = False, opt_broadcast = False, opt_pmtu = 0, fake_internet = False,
     list_if = False, diagnostics = False, status_events = False, discover_switch = True,
     dhcp_server = False, capture_prefix = prefix,
     netif = None, zerotier_if = None, opt_subnet = None, gateway_ip = None,
     relay_server_addr = None, relay_username = None, relay_password = None,
     relay_password_file = None, socks5_server_addr = None, socks5_username = None,
     socks5_password = None, socks5_password_file = None,
     rpc = None, rpc_token = None, rpc_protocol = None \<rparr>"

text \<open>An option without an argument, and one with an argument.\<close>

definition parse_flag :: "string \<Rightarrow> cli_options \<Rightarrow> cli_options option" where
  "parse_flag arg o1 =
    (if arg = ''--help'' then Some (o1\<lparr>opt_help := True\<rparr>)
     else if arg = ''--version'' then Some (o1\<lparr>opt_version := True\<rparr>)
     else if arg = ''--list-if'' then Some (o1\<lparr>list_if := True\<rparr>)
     else if arg = ''--diagnostics'' then Some (o1\<lparr>diagnostics := True\<rparr>)
     else if arg = ''--status-events'' then Some (o1\<lparr>status_events := True\<rparr>)
     else if arg = ''--no-discover-switch'' then Some (o1\<lparr>discover_switch := False\<rparr>)
     else if arg = ''--dhcp'' then Some (o1\<lparr>dhcp_server := True\<rparr>)
     else if arg = ''--broadcast''
     then Some (o1\<lparr>opt_broadcast := True, relay_server_addr := Some ''255.255.255.255:11451''\<rparr>)
     else if arg = ''--fake-internet'' then Some (o1\<lparr>fake_internet := True\<rparr>)
     else if arg = ''--set-ionbf'' then Some o1
     else None)"

definition parse_param :: "string \<Rightarrow> (string \<Rightarrow> cli_options \<Rightarrow> cli_options) option" where
  "parse_param arg =
    (if arg = ''--netif'' then Some (\<lambda>v. netif_update (\<lambda>_. Some v))
     else if arg = ''--zerotier-if'' then Some (\<lambda>v. zerotier_if_update (\<lambda>_. Some v))
     else if arg = ''--subnet'' then Some (\<lambda>v. opt_subnet_update (\<lambda>_. Some v))
     else if arg = ''--gateway'' then Some (\<lambda>v. gateway_ip_update (\<lambda>_. Some v))
     else if arg = ''--relay-server-addr'' then Some (\<lambda>v. relay_server_addr_update (\<lambda>_. Some v))
     else if arg = ''--username'' then Some (\<lambda>v. relay_username_update (\<lambda>_. Some v))
     else if arg = ''--password'' then Some (\<lambda>v. relay_password_update (\<lambda>_. Some v))
     else if arg = ''--password-file'' then Some (\<lambda>v. relay_password_file_update (\<lambda>_. Some v))
     else if arg = ''--socks5-server-addr'' then Some (\<lambda>v. socks5_server_addr_update (\<lambda>_. Some v))
     else if arg = ''--capture-prefix''
     then Some (\<lambda>v o1. o1\<lparr>capture_prefix := Some v, diagnostics := True\<rparr>)
     else if arg = ''--pmtu'' then Some (\<lambda>v. opt_pmtu_update (\<lambda>_. atoi v))
     else if arg = ''--rpc'' then Some (\<lambda>v. rpc_update (\<lambda>_. Some v))
     else if arg = ''--rpc-token'' then Some (\<lambda>v. rpc_token_update (\<lambda>_. Some v))
     else if arg = ''--rpc-protocol'' then Some (\<lambda>v. rpc_protocol_update (\<lambda>_. Some v))
     else None)"

text \<open>The \<^verbatim>\<open>for\<close> loop over \<^verbatim>\<open>argv[1..]\<close>; an unknown option is only logged.\<close>

fun parse_loop :: "cli_options \<Rightarrow> string list \<Rightarrow> cli_options option" where
  "parse_loop o1 [] = Some o1"
| "parse_loop o1 (arg # rest) =
     (case parse_flag arg o1 of
        Some o2 \<Rightarrow> parse_loop o2 rest
      | None \<Rightarrow> (case parse_param arg of
          Some set_it \<Rightarrow> (case rest of
              [] \<Rightarrow> None
            | v # rest' \<Rightarrow> parse_loop (set_it v o1) rest')
        | None \<Rightarrow> parse_loop o1 rest))"

definition credentials_ok :: "string option \<Rightarrow> string option \<Rightarrow> string option \<Rightarrow> bool" where
  "credentials_ok user pass file \<longleftrightarrow>
     user = None \<or> \<not> (pass = None \<and> file = None) \<and> \<not> (pass \<noteq> None \<and> file \<noteq> None)"

definition parse_arguments :: "string option \<Rightarrow> string list \<Rightarrow> cli_options option" where
  "parse_arguments prefix argv =
     (case argv of
        [] \<Rightarrow> None
      | _ # args \<Rightarrow> (case parse_loop (default_options prefix) args of
          None \<Rightarrow> None
        | Some o1 \<Rightarrow>
            if opt_help o1 \<or> opt_version o1 \<or> list_if o1 \<or> rpc o1 \<noteq> None then Some o1
            else if \<not> credentials_ok (socks5_username o1) (socks5_password o1) (socks5_password_file o1) then None
            else if \<not> credentials_ok (relay_username o1) (relay_password o1) (relay_password_file o1) then None
            else Some o1))"

section \<open>Lemmas\<close>

lemma parse_flag_keeps:
  "parse_flag arg o1 = Some o2 \<Longrightarrow>
     capture_prefix o2 = capture_prefix o1 \<and> (diagnostics o1 \<longrightarrow> diagnostics o2) \<and>
     socks5_username o2 = socks5_username o1 \<and> zerotier_if o2 = zerotier_if o1"
  by (auto simp: parse_flag_def split: if_splits)

lemma parse_param_keeps:
  "parse_param arg = Some f \<Longrightarrow>
     (diagnostics o1 \<longrightarrow> diagnostics (f v o1)) \<and> socks5_username (f v o1) = socks5_username o1 \<and>
     (capture_prefix (f v o1) = capture_prefix o1 \<or> diagnostics (f v o1))"
  by (auto simp: parse_param_def split: if_splits)

lemma parse_loop_invariant:
  assumes flag: "\<And>arg o1 o2. parse_flag arg o1 = Some o2 \<Longrightarrow> P o1 \<Longrightarrow> P o2"
    and param: "\<And>arg f v o1. parse_param arg = Some f \<Longrightarrow> P o1 \<Longrightarrow> P (f v o1)"
  shows "parse_loop o1 args = Some o2 \<Longrightarrow> P o1 \<Longrightarrow> P o2"
proof (induction o1 args arbitrary: o2 rule: parse_loop.induct)
  case (2 o1 arg rest)
  show ?case
  proof (cases "parse_flag arg o1")
    case (Some o3)
    then show ?thesis using 2 flag [OF Some] by auto
  next
    case None
    show ?thesis
    proof (cases "parse_param arg")
      case (Some f)
      then obtain v rest' where "rest = v # rest'" using 2 None by (cases rest) auto
      then show ?thesis using 2 None Some param [OF Some] by auto
    next
      assume "parse_param arg = None"
      then show ?thesis using 2 None by auto
    qed
  qed
qed simp

lemma parse_loop_diagnostics:
  "parse_loop o1 args = Some o2 \<Longrightarrow> diagnostics o1 \<or> capture_prefix o1 = p \<Longrightarrow>
     diagnostics o2 \<or> capture_prefix o2 = p"
  by (erule parse_loop_invariant [where P = "\<lambda>x. diagnostics x \<or> capture_prefix x = p", rotated 2])
    (use parse_flag_keeps parse_param_keeps in metis)+

lemma parse_loop_socks5_username:
  "parse_loop o1 args = Some o2 \<Longrightarrow> socks5_username o1 = u \<Longrightarrow> socks5_username o2 = u"
  by (erule parse_loop_invariant [where P = "\<lambda>x. socks5_username x = u", rotated 2])
    (use parse_flag_keeps parse_param_keeps in metis)+

section \<open>Properties\<close>

text \<open>
  What the command line guarantees.  When \<^verbatim>\<open>parse_arguments\<close> succeeds, a capture prefix always comes with
  diagnostics, no option sets a SOCKS5 user name, and unless only information, the list of adapters or the RPC mode
  was asked for, a user name comes with exactly one of a password and a password file.
\<close>

theorem parse_arguments_sound:
  assumes "parse_arguments None argv = Some o1"
  shows "(capture_prefix o1 \<noteq> None \<longrightarrow> diagnostics o1) \<and> socks5_username o1 = None \<and>
    (opt_help o1 \<or> opt_version o1 \<or> list_if o1 \<or> rpc o1 \<noteq> None \<or> relay_username o1 = None \<or>
     (relay_password o1 = None) = (relay_password_file o1 \<noteq> None))"
proof -
  obtain args where "parse_loop (default_options None) args = Some o1"
    and c: "opt_help o1 \<or> opt_version o1 \<or> list_if o1 \<or> rpc o1 \<noteq> None \<or>
      credentials_ok (relay_username o1) (relay_password o1) (relay_password_file o1)"
    using assms by (auto simp: parse_arguments_def split: list.splits option.splits if_splits)
  then have "diagnostics o1 \<or> capture_prefix o1 = None" "socks5_username o1 = None"
    using parse_loop_diagnostics [of _ args o1 None] parse_loop_socks5_username [of _ args o1 None]
    by (simp_all add: default_options_def)
  then show ?thesis using c by (auto simp: credentials_ok_def)
qed

theorem parse_arguments_sound_witness:
  "\<exists>o1. parse_arguments None [''lan-play'', ''--capture-prefix'', ''dump'', ''--username'', ''u'', ''--password'', ''p''] = Some o1 \<and>
    capture_prefix o1 = Some ''dump'' \<and> diagnostics o1"
proof -
  obtain o1 where 1: "parse_arguments None [''lan-play'', ''--capture-prefix'', ''dump'', ''--username'', ''u'', ''--password'', ''p''] = Some o1"
    and c: "capture_prefix o1 = Some ''dump''"
    by (simp add: parse_arguments_def parse_flag_def parse_param_def default_options_def credentials_ok_def)
  show ?thesis using parse_arguments_sound [OF 1] 1 c by simp
qed

end
