(* ===== verification/Pcap_Loop.thy ===== *)
theory Pcap_Loop
  imports Wire Options
begin

text \<open>
  The capture handles of \<^verbatim>\<open>src/pcaploop.cpp\<close> and the adapter names of \<^verbatim>\<open>src/capture-name.h\<close>.  The
  results of the libpcap and libuv calls are arguments: of a device its descriptor \<open>pcap_dev\<close>, of an
  injection the status \<open>rc i frame\<close> of \<^verbatim>\<open>pcap_sendpacket\<close> on interface \<open>i\<close>.  An interface is named by
  its index in \<^verbatim>\<open>inner->interfaces\<close>, and \<^verbatim>\<open>inner->map\<close> is a map from Ethernet addresses to indices
  (\<^verbatim>\<open>mac2int\<close> is injective on the six bytes).
\<close>

section \<open>Names and printing\<close>

definition lower :: "char \<Rightarrow> char" where
  "lower c = (if 65 \<le> (of_char c :: nat) \<and> (of_char c :: nat) \<le> 90
              then char_of (of_char c + 32 :: nat) else c)"

fun names_equal_ci :: "string \<Rightarrow> string \<Rightarrow> bool" where
  "names_equal_ci (a # as) (b # bs) = (if lower a \<noteq> lower b then False else names_equal_ci as bs)"
| "names_equal_ci [] [] = True"
| "names_equal_ci _ _ = False"

definition capture_names_equal :: "string option \<Rightarrow> string option \<Rightarrow> bool \<Rightarrow> bool" where
  "capture_names_equal a b windows =
     (case (a, b) of
        (Some x, Some y) \<Rightarrow> if \<not> windows then x = y else names_equal_ci x y
      | _ \<Rightarrow> False)"

fun show_nat :: "nat \<Rightarrow> string" where
  "show_nat n = (if n < 10 then [char_of (48 + n)] else show_nat (n div 10) @ [char_of (48 + n mod 10)])"

declare show_nat.simps [simp del]

definition hex_digit :: "nat \<Rightarrow> char" where
  "hex_digit n = (if n < 10 then char_of (48 + n) else char_of (87 + n))"

definition hex2 :: "byte \<Rightarrow> string" where
  "hex2 b = [hex_digit (unat b div 16), hex_digit (unat b mod 16)]"

fun show_ip :: "ip4 \<Rightarrow> string" where
  "show_ip (IP4 a b c d) = show_nat (unat a) @ ''.'' @ show_nat (unat b) @ ''.'' @
     show_nat (unat c) @ ''.'' @ show_nat (unat d)"

fun show_mac :: "mac \<Rightarrow> string" where
  "show_mac (MAC a b c d e f) = hex2 a @ '':'' @ hex2 b @ '':'' @ hex2 c @ '':'' @
     hex2 d @ '':'' @ hex2 e @ '':'' @ hex2 f"

text \<open>\<^verbatim>\<open>while (m & 0x80) { prefix++; m <<= 1; }\<close> on one octet: the count and the rest of the octet.\<close>

function leading_ones :: "byte \<Rightarrow> nat \<Rightarrow> nat \<times> byte" where
  "leading_ones m n = (if m AND 0x80 \<noteq> 0 then leading_ones (push_bit 1 m) (n + 1) else (n, m))"
  by pat_completeness auto

lemma top_bit_ge: "m AND 0x80 \<noteq> 0 \<Longrightarrow> 128 \<le> unat (m :: byte)"
proof (rule ccontr)
  assume m: "m AND 0x80 \<noteq> 0" and "\<not> 128 \<le> unat m"
  then have "take_bit 7 (unat m) = unat m" by (simp add: take_bit_nat_eq_self_iff)
  then have "unat (take_bit 7 m) = unat m" by (simp only: unsigned_take_bit_eq)
  then have "take_bit 7 m = m" by (simp only: word_unat_eq_iff)
  then have "m AND 0x80 = (m AND mask 7) AND 0x80" by (simp only: take_bit_eq_mask)
  also have "\<dots> = m AND (mask 7 AND 0x80)" by (rule and.assoc)
  also have "mask 7 AND (0x80 :: byte) = 0" by (simp add: mask_eq_exp_minus_1)
  finally show False using m by simp
qed

lemma top_bit_shift: "m AND 0x80 \<noteq> 0 \<Longrightarrow> unat (push_bit 1 m :: byte) < unat m"
proof -
  assume "m AND 0x80 \<noteq> 0"
  then have m: "128 \<le> unat m" by (rule top_bit_ge)
  have "unat (push_bit 1 m) = 2 * unat m mod 256"
    by (simp only: push_bit_eq_mult unat_word_ariths) (simp add: mult.commute)
  also have "\<dots> = (2 * unat m - 256) mod 256" using m by (simp only: le_mod_geq)
  also have "\<dots> \<le> 2 * unat m - 256" by simp
  also have "\<dots> < unat m" using unat_byte_less [of m] m by linarith
  finally show ?thesis .
qed

termination leading_ones
proof (relation "measure (\<lambda>(m, n). unat m)", goal_cases)
  case (2 m n)
  then show ?case using top_bit_shift [of m] by simp
qed simp

declare leading_ones.simps [simp del]

fun prefix_loop :: "byte list \<Rightarrow> nat \<Rightarrow> nat" where
  "prefix_loop [] n = n"
| "prefix_loop (m # rest) n =
     (let (n', m') = leading_ones m n in if m' \<noteq> 0 then n' else prefix_loop rest n')"

definition mask_to_prefix :: "ip4 \<Rightarrow> nat" where
  "mask_to_prefix netmask = prefix_loop (ip_bytes netmask) 0"

section \<open>Capture handles\<close>

record pcap_interf =
  if_mac :: mac
  if_ipv4 :: ip4
  if_netmask :: ip4
  has_ipv4 :: bool
  delivered :: u64
  send_failures :: u64
  read_failures :: u64

record uv_pcap =
  interfaces :: "pcap_interf list"
  if_map :: "mac \<Rightarrow> nat option"

definition uv_pcap_interf_sendpacket ::
  "(nat \<Rightarrow> byte list \<Rightarrow> int) \<Rightarrow> nat \<Rightarrow> pcap_interf \<Rightarrow> byte list \<Rightarrow> int \<times> pcap_interf \<times> byte list" where
  "uv_pcap_interf_sendpacket rc i h data =
     (let wire = patch data ETHER_OFF_SRC (mac_bytes (if_mac h));
          ret = rc i wire
      in (ret, if ret \<noteq> 0 then h\<lparr>send_failures := send_failures h + 1\<rparr> else h, wire))"

text \<open>The loop over all interfaces; the last failure is the result.\<close>

fun send_all :: "(nat \<Rightarrow> byte list \<Rightarrow> int) \<Rightarrow> nat \<Rightarrow> pcap_interf list \<Rightarrow> byte list \<Rightarrow> int \<Rightarrow>
    int \<times> pcap_interf list \<times> (nat \<times> byte list \<times> int) list" where
  "send_all rc i [] data result = (result, [], [])"
| "send_all rc i (h # hs) data result =
     (let (ret, h', wire) = uv_pcap_interf_sendpacket rc i h data;
          (res, hs', tx) = send_all rc (i + 1) hs data (if ret \<noteq> 0 then ret else result)
      in (res, h' # hs', (i, wire, ret) # tx))"

definition uv_pcap_sendpacket :: "(nat \<Rightarrow> byte list \<Rightarrow> int) \<Rightarrow> uv_pcap \<Rightarrow> byte list \<Rightarrow>
    (int \<times> uv_pcap \<times> (nat \<times> byte list \<times> int) list) option" where
  "uv_pcap_sendpacket rc p data = do {
     key \<leftarrow> CPY_MAC data ETHER_OFF_SRC;
     case if_map p key of
       Some i \<Rightarrow>
         if i < length (interfaces p)
         then let (ret, h, wire) = uv_pcap_interf_sendpacket rc i (interfaces p ! i) data
              in Some (ret, p\<lparr>interfaces := (interfaces p)[i := h]\<rparr>, [(i, wire, ret)])
         else None
     | None \<Rightarrow>
         let (ret, hs, tx) = send_all rc 0 (interfaces p) data 0
         in Some (ret, p\<lparr>interfaces := hs\<rparr>, tx) }"

text \<open>
  \<^verbatim>\<open>uv_pcap_callback\<close> up to the call of the handler: \<^term>\<open>Some m\<close> is the Ethernet address it is called
  with, \<^term>\<open>None\<close> that the frame is too short to be passed on.
\<close>

definition uv_pcap_callback :: "nat \<Rightarrow> uv_pcap \<Rightarrow> byte list \<Rightarrow> uv_pcap \<times> mac option" where
  "uv_pcap_callback i p frame =
     (let h = (interfaces p ! i)\<lparr>delivered := delivered (interfaces p ! i) + 1\<rparr>;
          p1 = p\<lparr>interfaces := (interfaces p)[i := h]\<rparr>
      in if length frame < 14 then (p1, None)
         else (p1\<lparr>if_map := (if_map p1)(mac_at frame ETHER_OFF_DST \<mapsto> i)\<rparr>, Some (if_mac h)))"

definition uv_pcap_get_mac :: "uv_pcap \<Rightarrow> mac option" where
  "uv_pcap_get_mac p = (case interfaces p of [h] \<Rightarrow> Some (if_mac h) | _ \<Rightarrow> None)"

definition uv_pcap_get_ipv4 :: "uv_pcap \<Rightarrow> (ip4 \<times> ip4) option" where
  "uv_pcap_get_ipv4 p =
     (case interfaces p of
        [h] \<Rightarrow> if has_ipv4 h then Some (if_ipv4 h, if_netmask h) else None
      | _ \<Rightarrow> None)"

section \<open>Opening adapters\<close>

text \<open>
  What the libpcap calls say about a device: its name, its addresses (family \<^verbatim>\<open>AF_INET\<close> or not, with
  an optional netmask), the address \<^verbatim>\<open>get_mac_address\<close> finds, and the statuses of the calls in order.
  \<open>filter_ok\<close> is the outcome of compiling and installing the filter text.
\<close>

record pcap_dev =
  dev_name :: string
  addresses :: "(bool \<times> ip4 \<times> ip4 option) list"
  create_ok :: bool
  set_timeout :: int
  set_snaplen :: int
  set_promisc :: int
  activate :: int
  datalink_ether :: bool
  dev_mac :: "mac option"
  filter_ok :: "string \<Rightarrow> bool"
  immediate_ok :: bool
  loop_init :: int

fun first_ipv4 :: "(bool \<times> ip4 \<times> ip4 option) list \<Rightarrow> (ip4 \<times> ip4) option" where
  "first_ipv4 [] = None"
| "first_ipv4 ((inet, ip, m) # rest) =
     (if \<not> inet then first_ipv4 rest else Some (ip, case m of Some nm \<Rightarrow> nm | None \<Rightarrow> NONE_IP))"

definition capture_match :: "(ip4 \<times> ip4) option \<Rightarrow> string \<Rightarrow> string" where
  "capture_match addr subnet =
     (case addr of
        Some (ip, nm) \<Rightarrow>
          if nm \<noteq> NONE_IP
          then ''net '' @ subnet @ '' or net '' @ show_ip (ip_and ip nm) @ ''/'' @
               show_nat (mask_to_prefix nm) @ '' or arp or udp port 67 or udp port 68''
          else ''net '' @ subnet @ '' or arp or udp port 67 or udp port 68''
      | None \<Rightarrow> ''net '' @ subnet @ '' or arp or udp port 67 or udp port 68'')"

definition set_filter_text :: "mac \<Rightarrow> string \<Rightarrow> string" where
  "set_filter_text m match = ''('' @ match @ '') and (not ether src '' @ show_mac m @ '' or icmp)''"

definition uv_pcap_open_live :: "pcap_dev \<Rightarrow> string \<Rightarrow> pcap_interf option" where
  "uv_pcap_open_live d subnet =
     (if \<not> create_ok d then None
      else if set_timeout d \<noteq> 0 then None
      else if set_snaplen d \<noteq> 0 then None
      else if set_promisc d \<noteq> 0 then None
      else if activate d < 0 then None
      else if \<not> datalink_ether d then None
      else (case dev_mac d of
          None \<Rightarrow> None
        | Some m \<Rightarrow>
            if m = NONE_MAC then None
            else let addr = first_ipv4 (addresses d)
                 in if \<not> filter_ok d (set_filter_text m (capture_match addr subnet)) then None
                    else if \<not> immediate_ok d then None
                    else if loop_init d \<noteq> 0 then None
                    else Some \<lparr>if_mac = m,
                           if_ipv4 = (case addr of Some (ip, _) \<Rightarrow> ip | None \<Rightarrow> NONE_IP),
                           if_netmask = (case addr of Some (_, nm) \<Rightarrow> nm | None \<Rightarrow> NONE_IP),
                           has_ipv4 = (addr \<noteq> None),
                           delivered = 0, send_failures = 0, read_failures = 0\<rparr>))"

text \<open>
  \<^verbatim>\<open>uv_pcap_init\<close>: a number names the adapter at that position.  The loop that resolves it goes on
  with the replaced name, as in the code.
\<close>

fun resolve_netif :: "nat \<Rightarrow> pcap_dev list \<Rightarrow> string \<Rightarrow> string" where
  "resolve_netif i [] name = name"
| "resolve_netif i (d # ds) name =
     resolve_netif (i + 1) ds (if int (i + 1) = atoi name then dev_name d else name)"

definition open_named :: "bool \<Rightarrow> pcap_dev list \<Rightarrow> string \<Rightarrow> string \<Rightarrow> pcap_interf list" where
  "open_named windows devs name subnet =
     (case List.find (\<lambda>d. capture_names_equal (Some (dev_name d)) (Some name) windows) devs of
        None \<Rightarrow> []
      | Some d \<Rightarrow> (case uv_pcap_open_live d subnet of None \<Rightarrow> [] | Some h \<Rightarrow> [h]))"

definition open_every :: "pcap_dev list \<Rightarrow> string \<Rightarrow> pcap_interf list" where
  "open_every devs subnet = List.map_filter (\<lambda>d. uv_pcap_open_live d subnet) devs"

definition uv_pcap_init :: "bool \<Rightarrow> pcap_dev list option \<Rightarrow> string option \<Rightarrow> string \<Rightarrow> uv_pcap option" where
  "uv_pcap_init windows alldevs netif0 subnet =
     (case alldevs of
        None \<Rightarrow> None
      | Some devs \<Rightarrow>
          if devs = [] then None
          else let hs = (case netif0 of
                     Some n \<Rightarrow> open_named windows devs (resolve_netif 0 devs n) subnet
                   | None \<Rightarrow> open_every devs subnet)
               in if hs = [] then None else Some \<lparr>interfaces = hs, if_map = (\<lambda>_. None)\<rparr>)"

section \<open>Lemmas\<close>

definition pcap_ok :: "uv_pcap \<Rightarrow> bool" where
  "pcap_ok p \<longleftrightarrow> (\<forall>m i. if_map p m = Some i \<longrightarrow> i < length (interfaces p))"

lemma pcap_ok_init: "uv_pcap_init w devs n s = Some p \<Longrightarrow> pcap_ok p"
  by (auto simp: uv_pcap_init_def pcap_ok_def Let_def split: option.splits if_splits)

lemma pcap_ok_callback:
  "pcap_ok p \<Longrightarrow> i < length (interfaces p) \<Longrightarrow> pcap_ok (fst (uv_pcap_callback i p frame))"
  by (auto simp: uv_pcap_callback_def pcap_ok_def Let_def)

lemma send_all_length: "length (fst (snd (send_all rc i hs data r))) = length hs"
  by (induction hs arbitrary: i r) (auto simp: Let_def split_def)

lemma pcap_ok_send:
  "pcap_ok p \<Longrightarrow> uv_pcap_sendpacket rc p data = Some (r, p', tx) \<Longrightarrow>
     pcap_ok p' \<and> length (interfaces p') = length (interfaces p)"
  using send_all_length [of rc 0 "interfaces p" data 0]
  by (auto simp: uv_pcap_sendpacket_def pcap_ok_def Let_def split_def split: option.splits if_splits)

lemma send_total:
  "pcap_ok p \<Longrightarrow> 12 \<le> length data \<Longrightarrow> \<exists>r p' tx. uv_pcap_sendpacket rc p data = Some (r, p', tx)"
  by (auto simp: uv_pcap_sendpacket_def pcap_ok_def CPY_MAC_Some Let_def split_def split: option.split)

lemma send_all_wire:
  "(j, wire, r) \<in> set (snd (snd (send_all rc i hs data res))) \<Longrightarrow>
     \<exists>h \<in> set hs. wire = patch data 6 (mac_bytes (if_mac h))"
  by (induction hs arbitrary: i res) (fastforce simp: Let_def split_def uv_pcap_interf_sendpacket_def)+

lemma send_wire:
  "uv_pcap_sendpacket rc p data = Some (r, p', tx) \<Longrightarrow> (j, wire, r') \<in> set tx \<Longrightarrow>
     \<exists>h \<in> set (interfaces p). wire = patch data 6 (mac_bytes (if_mac h))"
  using send_all_wire [of j wire r' rc 0 "interfaces p" data 0]
  by (auto simp: uv_pcap_sendpacket_def Let_def split_def uv_pcap_interf_sendpacket_def
      split: option.splits if_splits intro!: bexI [OF refl nth_mem])

lemma send_single:
  assumes "pcap_ok p" "interfaces p = [h]" "12 \<le> length data"
  defines "wire \<equiv> patch data 6 (mac_bytes (if_mac h))"
  shows "uv_pcap_sendpacket rc p data =
     Some (rc 0 wire,
           p\<lparr>interfaces := [if rc 0 wire \<noteq> 0 then h\<lparr>send_failures := send_failures h + 1\<rparr> else h]\<rparr>,
           [(0, wire, rc 0 wire)])"
proof -
  have "if_map p (mac_at data 6) = None \<or> if_map p (mac_at data 6) = Some 0"
    using assms(1,2) by (cases "if_map p (mac_at data 6)") (auto simp: pcap_ok_def)
  then show ?thesis using assms
    by (auto simp: uv_pcap_sendpacket_def CPY_MAC_Some uv_pcap_interf_sendpacket_def Let_def)
qed

lemma open_live_mac: "uv_pcap_open_live d s = Some h \<Longrightarrow> dev_mac d = Some (if_mac h) \<and> if_mac h \<noteq> NONE_MAC"
  by (auto simp: uv_pcap_open_live_def Let_def split: if_splits option.splits)

lemma init_named_single:
  assumes "uv_pcap_init w (Some devs) (Some n) s = Some p"
  shows "\<exists>d h. d \<in> set devs \<and> interfaces p = [h] \<and> uv_pcap_open_live d s = Some h \<and>
    capture_names_equal (Some (dev_name d)) (Some (resolve_netif 0 devs n)) w"
  using assms
  by (auto simp: uv_pcap_init_def open_named_def find_Some_iff Let_def
      split: option.splits if_splits) (metis nth_mem)

section \<open>Properties\<close>

text \<open>
  A named adapter is the only one that is opened, and all traffic leaves through it.  When \<^verbatim>\<open>uv_pcap_init\<close>
  succeeds for a name, the handle has one interface, that of an adapter of that name, with a hardware address; a
  frame sent through the handle is put on this interface once, with this hardware address as its source and all
  other bytes unchanged, and the result is the one of that call.
\<close>

theorem named_adapter_only:
  assumes init: "uv_pcap_init w (Some devs) (Some n) s = Some p" and len: "12 \<le> length data"
  shows "\<exists>d h p'. d \<in> set devs \<and> capture_names_equal (Some (dev_name d)) (Some (resolve_netif 0 devs n)) w \<and>
    interfaces p = [h] \<and> dev_mac d = Some (if_mac h) \<and> if_mac h \<noteq> NONE_MAC \<and>
    uv_pcap_sendpacket rc p data = Some (rc 0 (patch data 6 (mac_bytes (if_mac h))), p',
      [(0, patch data 6 (mac_bytes (if_mac h)), rc 0 (patch data 6 (mac_bytes (if_mac h))))])"
proof -
  obtain d h where "d \<in> set devs" "interfaces p = [h]" "uv_pcap_open_live d s = Some h"
    "capture_names_equal (Some (dev_name d)) (Some (resolve_netif 0 devs n)) w"
    using init_named_single [OF init] by blast
  then show ?thesis using open_live_mac send_single [OF pcap_ok_init [OF init] _ len] by blast
qed

theorem named_adapter_only_witness:
  "\<exists>p p' r. uv_pcap_init False (Some [\<lparr>dev_name = ''wlan0'', addresses = [], create_ok = True, set_timeout = 0,
     set_snaplen = 0, set_promisc = 0, activate = 0, datalink_ether = True, dev_mac = Some (MAC 2 0 0 0 0 1),
     filter_ok = (\<lambda>_. True), immediate_ok = True, loop_init = 0\<rparr>]) (Some ''wlan0'') ''10.0.0.0/8'' = Some p \<and>
   uv_pcap_sendpacket (\<lambda>_ _. 0) p [1, 2, 3, 4, 5, 6, 0, 0, 0, 0, 0, 0, 8, 0] =
     Some (r, p', [(0, [1, 2, 3, 4, 5, 6, 2, 0, 0, 0, 0, 1, 8, 0], r)])"
proof -
  define d where "d = \<lparr>dev_name = ''wlan0'', addresses = [], create_ok = True, set_timeout = 0,
     set_snaplen = 0, set_promisc = 0, activate = 0, datalink_ether = True, dev_mac = Some (MAC 2 0 0 0 0 1),
     filter_ok = (\<lambda>_. True), immediate_ok = True, loop_init = 0\<rparr>"
  have "atoi ''wlan0'' = 0" by code_simp
  then obtain p where p: "uv_pcap_init False (Some [d]) (Some ''wlan0'') ''10.0.0.0/8'' = Some p"
    by (simp add: uv_pcap_init_def open_named_def capture_names_equal_def uv_pcap_open_live_def d_def NONE_MAC_def)
  have "mac_bytes m = [2, 0, 0, 0, 0, 1]" if "dev_mac d = Some m" for m using that by (auto simp: d_def)
  then show ?thesis
    using named_adapter_only [OF p, of "[1, 2, 3, 4, 5, 6, 0, 0, 0, 0, 0, 0, 8, 0]" "\<lambda>_ _. 0"] p
    by (auto simp: patch_def simp flip: d_def)
qed

end
