(* ===== verification/Nintendo_Oui.thy ===== *)
theory Nintendo_Oui
  imports Wire
begin

text \<open>
  The vendor prefixes of \<^verbatim>\<open>src/nintendo_oui.h\<close>, in the order of the table, and the test
  \<^verbatim>\<open>is_nintendo_mac\<close>.
\<close>

definition NINTENDO_OUIS :: "(byte \<times> byte \<times> byte) list" where
  "NINTENDO_OUIS = [
     (0x00, 0x09, 0xbf), (0x00, 0x16, 0x56), (0x00, 0x17, 0xab), (0x00, 0x19, 0x1d),
     (0x00, 0x19, 0xfd), (0x00, 0x1a, 0xe9), (0x00, 0x1b, 0x7a), (0x00, 0x1b, 0xea),
     (0x00, 0x1c, 0xbe), (0x00, 0x1d, 0xbc), (0x00, 0x1e, 0x35), (0x00, 0x1e, 0xa9),
     (0x00, 0x1f, 0x32), (0x00, 0x1f, 0xc5), (0x00, 0x21, 0x47), (0x00, 0x21, 0xbd),
     (0x00, 0x22, 0x4c), (0x00, 0x22, 0xaa), (0x00, 0x22, 0xd7), (0x00, 0x23, 0x31),
     (0x00, 0x23, 0xcc), (0x00, 0x24, 0x1e), (0x00, 0x24, 0x44), (0x00, 0x24, 0xf3),
     (0x00, 0x25, 0xa0), (0x00, 0x26, 0x59), (0x00, 0x27, 0x09), (0x04, 0x03, 0xd6),
     (0x18, 0x2a, 0x7b), (0x1c, 0x45, 0x86), (0x20, 0x0b, 0xcf), (0x20, 0x1c, 0x3a),
     (0x28, 0xcf, 0x51), (0x2c, 0x10, 0xc1), (0x30, 0x89, 0xec), (0x34, 0x2f, 0xbd),
     (0x34, 0xaf, 0x2c), (0x38, 0x70, 0x35), (0x38, 0xc6, 0xce), (0x3c, 0xa9, 0xab),
     (0x40, 0x44, 0xf7), (0x40, 0xd2, 0x8a), (0x40, 0xf4, 0x07), (0x48, 0x31, 0x77),
     (0x48, 0xa5, 0xe7), (0x48, 0xf1, 0xeb), (0x4c, 0x30, 0x6a), (0x50, 0x23, 0x6d),
     (0x58, 0x2f, 0x40), (0x58, 0xb0, 0x3e), (0x58, 0xbd, 0xa3), (0x5c, 0x0c, 0xe6),
     (0x5c, 0x52, 0x1e), (0x60, 0x1a, 0xc7), (0x60, 0x6b, 0xff), (0x64, 0xb5, 0xc6),
     (0x70, 0x2c, 0x09), (0x70, 0x48, 0xf7), (0x70, 0xf0, 0x88), (0x74, 0x84, 0x69),
     (0x74, 0xf9, 0xca), (0x78, 0x20, 0xa5), (0x78, 0x81, 0x8c), (0x78, 0xa2, 0xa0),
     (0x7c, 0xbb, 0x8a), (0x80, 0xd2, 0xe5), (0x84, 0xc0, 0x65), (0x8c, 0x56, 0xc5),
     (0x8c, 0xcd, 0xe8), (0x90, 0x45, 0x28), (0x94, 0x58, 0xcb), (0x94, 0x8e, 0x6d),
     (0x98, 0x41, 0x5c), (0x98, 0xb6, 0xe9), (0x98, 0xe2, 0x55), (0x98, 0xe8, 0xfa),
     (0x9c, 0xe6, 0x35), (0xa4, 0x38, 0xcc), (0xa4, 0x5c, 0x27), (0xa4, 0xc0, 0xe1),
     (0xa4, 0xc1, 0xe8), (0xac, 0xfa, 0xe4), (0xb8, 0x68, 0x70), (0xb8, 0x78, 0x26),
     (0xb8, 0x8a, 0xec), (0xb8, 0xae, 0x6e), (0xbc, 0x74, 0x4b), (0xbc, 0x89, 0xa6),
     (0xbc, 0x9e, 0xbb), (0xbc, 0xce, 0x25), (0xc0, 0xa4, 0xcf), (0xc8, 0x48, 0x05),
     (0xc8, 0x91, 0x43), (0xcc, 0x5b, 0x31), (0xcc, 0x9e, 0x00), (0xcc, 0xfb, 0x65),
     (0xd0, 0x55, 0x09), (0xd4, 0xf0, 0x57), (0xd8, 0x6b, 0x83), (0xd8, 0x6b, 0xf7),
     (0xdc, 0x68, 0xeb), (0xdc, 0xcd, 0x18), (0xe0, 0x0c, 0x7f), (0xe0, 0xe7, 0x51),
     (0xe0, 0xef, 0xbf), (0xe0, 0xf6, 0xb5), (0xe8, 0x4e, 0xce), (0xe8, 0xa0, 0xcd),
     (0xe8, 0xda, 0x20), (0xec, 0xc4, 0x0d)]"

fun is_nintendo_mac :: "mac \<Rightarrow> bool" where
  "is_nintendo_mac (MAC a b c d e f) = ((a, b, c) \<in> set NINTENDO_OUIS)"

lemma ouis_unicast: "\<forall>(a, b, c) \<in> set NINTENDO_OUIS. a AND 1 = 0"
  by code_simp

lemma ouis_not_zero: "(0, 0, 0) \<notin> set NINTENDO_OUIS"
  by code_simp

lemma nintendo_unicast: "is_nintendo_mac (MAC a b c d e f) \<Longrightarrow> a AND 1 = 0"
  using ouis_unicast by auto

lemma not_nintendo [simp]: "\<not> is_nintendo_mac BROADCAST_MAC" "\<not> is_nintendo_mac NONE_MAC"
  using nintendo_unicast [of 255 255 255 255 255 255] ouis_not_zero
  by (auto simp: BROADCAST_MAC_def NONE_MAC_def)

text \<open>The test looks at the vendor prefix only.\<close>

lemma nintendo_prefix: "is_nintendo_mac (MAC a b c d e f) = is_nintendo_mac (MAC a b c d' e' f')"
  by simp

end
