(* ===== verification/Lan_Play.thy ===== *)
theory Lan_Play
  imports Checksum Arp_Cache Native_Udp Captures Pcap_Loop Nintendo_Oui
begin

text \<open>
  The relay's state, \<^verbatim>\<open>struct lan_play\<close> of \<^verbatim>\<open>src/lan-play.h\<close> with \<^verbatim>\<open>struct packet_ctx\<close> of
  \<^verbatim>\<open>src/packet.h\<close> and the DHCP leases of \<^verbatim>\<open>src/dhcp-server.h\<close>, and the functions of
  \<^verbatim>\<open>src/lan-play.c\<close> that put frames on the two links.

  What the surroundings answer during one event is the record \<open>env\<close>: the clock (read once per event),
  the command line, the status of each \<^verbatim>\<open>pcap_sendpacket\<close> (the \<open>n\<close>-th output of the run, on a side and an
  interface), of the UDP socket calls and of flushing a capture.  The outputs of the relay are the list
  \<open>out\<close>.  A result \<^term>\<open>None\<close> is an access outside an object or a failed assertion.
\<close>

section \<open>State\<close>

datatype side = WiFi | ZeroTier

text \<open>Outputs: a frame on the wire, a frame handed to the lwIP gateway, a datagram to the relay
  server.\<close>

datatype event =
    Tx side nat "byte list" int
  | GatewayIn "byte list"
  | ServerUdp "byte list" int

record env =
  clk :: clock
  options :: cli_options
  tx_rc :: "nat \<Rightarrow> side \<Rightarrow> nat \<Rightarrow> byte list \<Rightarrow> int"
  server_rc :: "nat \<Rightarrow> byte list \<Rightarrow> int"
  udp_socks :: udp_calls
  flush_oks :: "nat \<Rightarrow> bool"
  ndebug :: bool

text \<open>\<open>ctx_mac = None\<close> is a null pointer: the context of the overlay neighbours is never attached.\<close>

record packet_ctx =
  buffer_len :: nat
  ctx_ip :: ip4
  subnet_net :: ip4
  subnet_mask :: ip4
  ctx_mac :: "mac option"
  identification :: u16
  arp_table :: arp_list
  arp_ttl :: int
  upload_byte :: u64
  download_byte :: u64
  upload_packet :: u64
  download_packet :: u64

record dhcp_lease =
  lease_mac :: mac
  lease_ip :: ip4
  expires :: int
  offered :: bool
  used :: bool

record dhcp_server_state =
  leases :: "dhcp_lease list"
  offers_sent :: u64
  acks_sent :: u64
  naks_sent :: u64
  ignored_non_nintendo :: u64
  lost_races :: u64

record lan_client_fragment =
  frag_local_id :: u16
  frag_src :: ip4
  frag_ident :: u16
  frag_part :: byte
  frag_used :: bool
  frag_total_len :: u16
  frag_buffer :: "byte list"

record lan_client =
  pmtu :: int
  broadcast :: bool
  next_real_broadcast :: bool
  frag_id :: int
  local_id :: int
  frags :: "lan_client_fragment list"
  username :: "byte list option"
  key :: "byte list"
  lc_upload_byte :: u64
  lc_download_byte :: u64
  lc_upload_packet :: u64
  lc_download_packet :: u64

record rx_counters =
  wifi_arp_rx :: u64
  wifi_ipv4_rx :: u64
  zerotier_arp_rx :: u64
  zerotier_ipv4_rx :: u64
  wifi_tx :: u64
  wifi_probe_tx :: u64
  zerotier_tx :: u64

record lan_play =
  ctx :: packet_ctx
  pcap :: uv_pcap
  zerotier_pcap :: uv_pcap
  ingress_zerotier :: bool
  counters :: rx_counters
  switch_discovery_active :: bool
  switch_discovery_host :: byte
  switch_discovery_pause_ticks :: u16
  switch_discovery_wifi_phase :: bool
  wifi_mac :: mac
  wifi_ip :: ip4
  wifi_netmask :: ip4
  wifi_subnet :: ip4
  wifi_broadcast :: ip4
  wifi_subnet_known :: bool
  zerotier_mac :: mac
  zerotier_ip :: ip4
  zerotier_netmask :: ip4
  zerotier_broadcast_ip :: ip4
  switch_mac :: mac
  switch_ip :: ip4
  switch_seen :: bool
  switch_mac_confirmed :: bool
  switch_nintendo_oui :: bool
  switch_dhcp :: bool
  switch_mac_conflicts :: u64
  warned_broadcast_mismatch :: bool
  warned_direct_switch_delivery :: bool
  dhcp_state :: dhcp_server_state
  dhcp_ip_id :: u16
  zerotier_neighbors :: packet_ctx
  udp_guard :: "native_udp_guard option"
  wifi_delivery_probe_sent :: bool
  wifi_delivery_probe_replied :: bool
  wifi_delivery_probe_payload :: "byte list"
  wifi_delivery_probe_ip :: ip4
  wifi_delivery_probe_mac :: mac
  capture_state :: captures
  client :: lan_client
  out :: "event list"

section \<open>Diagnostics\<close>

text \<open>What \<^verbatim>\<open>diagnostic_log_frame\<close> writes about a frame, without the layout of the text.\<close>

datatype diag =
    DArp u16 mac ip4 ip4
  | DMalformed
  | DBadUdpLength
  | DUdp ip4 u16 ip4 u16 nat u32 mac
  | DIcmp byte byte ip4 ip4 "(ip4 \<times> u16 \<times> ip4 \<times> u16) option"
  | DIpv4 byte ip4 ip4 nat

definition fnv_hash :: "byte list \<Rightarrow> u32" where
  "fnv_hash p = foldl (\<lambda>h b. (h XOR ucast b) * 16777619) 2166136261 p"

definition is_fragment :: "u16 \<Rightarrow> bool" where
  "is_fragment flags_off \<longleftrightarrow> flags_off AND 0x3fff \<noteq> 0"

text \<open>The datagram an ICMP error quotes: \<open>q\<close> starts at the quoted header.\<close>

definition describe_quote :: "byte list \<Rightarrow> nat \<Rightarrow> (ip4 \<times> u16 \<times> ip4 \<times> u16) option option" where
  "describe_quote q available =
     (if available < 20 then Some None
      else do {
        b0 \<leftarrow> read8 q 0;
        if ip_version b0 \<noteq> 4 then Some None
        else let qhl = header_len b0
             in if qhl < 20 \<or> available < qhl + 4 then Some None
                else do {
                  proto \<leftarrow> read8 q 9;
                  if proto \<noteq> 17 then Some None
                  else do {
                    s \<leftarrow> CPY_IPV4 q 12; sp \<leftarrow> read16 q qhl;
                    d \<leftarrow> CPY_IPV4 q 16; dp \<leftarrow> read16 q (qhl + 2);
                    Some (Some (s, sp, d, dp)) } } })"

definition describe_ipv4 :: "byte list \<Rightarrow> diag option option" where
  "describe_ipv4 packet = do {
     let ip = drop ETHER_HEADER_LEN packet;
     b0 \<leftarrow> read8 ip 0;
     total \<leftarrow> read16 ip IPV4_OFF_TOTAL_LEN;
     let hlen = header_len b0; let tlen = unat total;
     if ip_version b0 \<noteq> 4 \<or> hlen < 20 \<or> tlen < hlen \<or> tlen > length packet - ETHER_HEADER_LEN
     then Some (Some DMalformed)
     else do {
       fo \<leftarrow> read16 ip IPV4_OFF_FLAGS_FRAG_OFFSET;
       proto \<leftarrow> read8 ip IPV4_OFF_PROTOCOL;
       s \<leftarrow> CPY_IPV4 ip IPV4_OFF_SRC;
       d \<leftarrow> CPY_IPV4 ip IPV4_OFF_DST;
       if proto = IPV4_PROTOCOL_UDP \<and> \<not> is_fragment fo \<and> tlen \<ge> hlen + 8
       then do {
         ulen \<leftarrow> read16 ip (hlen + 4);
         if unat ulen < 8 \<or> unat ulen > tlen - hlen then Some (Some DBadUdpLength)
         else do {
           payload \<leftarrow> read_bytes ip (hlen + 8) (unat ulen - 8);
           sp \<leftarrow> read16 ip hlen; dp \<leftarrow> read16 ip (hlen + 2);
           dst \<leftarrow> CPY_MAC packet 0;
           Some (Some (DUdp s sp d dp (unat ulen - 8) (fnv_hash payload) dst)) } }
       else if proto = IPV4_PROTOCOL_ICMP \<and> \<not> is_fragment fo \<and> tlen \<ge> hlen + 8
       then do {
         t \<leftarrow> read8 ip hlen; c \<leftarrow> read8 ip (hlen + 1);
         q \<leftarrow> (if t = 3 \<or> t = 11 then describe_quote (drop (hlen + 8) ip) (tlen - hlen - 8) else Some None);
         Some (Some (DIcmp t c s d q)) }
       else Some (Some (DIpv4 proto s d (length packet))) } }"

definition diagnostic_describe :: "byte list \<Rightarrow> diag option option" where
  "diagnostic_describe packet = do {
     type \<leftarrow> read16 packet ETHER_OFF_TYPE;
     if type = ETHER_TYPE_ARP \<and> length packet \<ge> ETHER_HEADER_LEN + ARP_LEN
     then do {
       let arp = drop ETHER_HEADER_LEN packet;
       opcode \<leftarrow> read16 arp 6; src \<leftarrow> CPY_MAC packet 6;
       s \<leftarrow> CPY_IPV4 arp 14; t \<leftarrow> CPY_IPV4 arp 24;
       Some (Some (DArp opcode src s t)) }
     else if type = ETHER_TYPE_IPV4 \<and> length packet \<ge> ETHER_HEADER_LEN + IPV4_HEADER_LEN
     then describe_ipv4 packet
     else Some None }"

lemmas checked_access = read8_Some read16_Some CPY_IPV4_Some CPY_MAC_Some read_bytes_Some

lemma describe_quote_total: "available \<le> length q \<Longrightarrow> \<exists>y. describe_quote q available = Some y"
proof (cases "available < 20")
  case False
  moreover assume "available \<le> length q"
  moreover from calculation have "q \<noteq> []" by auto
  ultimately show ?thesis by (auto simp: describe_quote_def Let_def checked_access)
qed (simp add: describe_quote_def)

lemma describe_ipv4_total: "34 \<le> length p \<Longrightarrow> \<exists>y. describe_ipv4 p = Some y"
proof -
  assume p: "34 \<le> length p"
  let ?h = "header_len (p ! 14)" and ?t = "unat (be16 (p ! 16) (p ! 17))"
  have "\<exists>y. describe_quote (drop (22 + ?h) p) (?t - (?h + 8)) = Some y" if "?t \<le> length p - 14"
    using that by (intro describe_quote_total) simp
  then show ?thesis using p by (auto simp: describe_ipv4_def Let_def checked_access)
qed

lemma diagnostic_describe_total: "14 \<le> length p \<Longrightarrow> \<exists>y. diagnostic_describe p = Some y"
  using describe_ipv4_total [of p] by (auto simp: diagnostic_describe_def Let_def checked_access)

definition diagnostic_log_frame :: "env \<Rightarrow> direction \<Rightarrow> byte list \<Rightarrow> lan_play \<Rightarrow> lan_play option" where
  "diagnostic_log_frame e dir packet lp =
     (let lp = lp\<lparr>capture_state := capture_frame (clk e) (flush_oks e) dir packet (capture_state lp)\<rparr>
      in if \<not> diagnostics (options e) \<or> length packet < ETHER_HEADER_LEN then Some lp
         else do { _ \<leftarrow> diagnostic_describe packet; Some lp })"

definition log_frame :: "env \<Rightarrow> direction \<Rightarrow> byte list \<Rightarrow> lan_play \<Rightarrow> lan_play" where
  "log_frame e dir packet lp =
     lp\<lparr>capture_state := capture_frame (clk e) (flush_oks e) dir packet (capture_state lp)\<rparr>"

lemma diagnostic_log_frame_eq [simp]: "diagnostic_log_frame e dir p lp = Some (log_frame e dir p lp)"
  using diagnostic_describe_total [of p] by (auto simp: diagnostic_log_frame_def log_frame_def Let_def)

definition diagnostic_count_rx :: "bool \<Rightarrow> byte list \<Rightarrow> lan_play \<Rightarrow> lan_play option" where
  "diagnostic_count_rx zerotier packet lp =
     (if length packet < ETHER_HEADER_LEN then Some lp
      else do {
        type \<leftarrow> read16 packet ETHER_OFF_TYPE;
        let c = counters lp;
        Some (lp\<lparr>counters :=
          (if type = ETHER_TYPE_ARP
           then if zerotier then c\<lparr>zerotier_arp_rx := zerotier_arp_rx c + 1\<rparr>
                else c\<lparr>wifi_arp_rx := wifi_arp_rx c + 1\<rparr>
           else if type = ETHER_TYPE_IPV4
           then if zerotier then c\<lparr>zerotier_ipv4_rx := zerotier_ipv4_rx c + 1\<rparr>
                else c\<lparr>wifi_ipv4_rx := wifi_ipv4_rx c + 1\<rparr>
           else c)\<rparr>) })"

section \<open>Sending on a link\<close>

definition link_of :: "side \<Rightarrow> lan_play \<Rightarrow> uv_pcap" where
  "link_of s lp = (case s of WiFi \<Rightarrow> pcap lp | ZeroTier \<Rightarrow> zerotier_pcap lp)"

definition set_link :: "side \<Rightarrow> uv_pcap \<Rightarrow> lan_play \<Rightarrow> lan_play" where
  "set_link s h lp = (case s of WiFi \<Rightarrow> lp\<lparr>pcap := h\<rparr> | ZeroTier \<Rightarrow> lp\<lparr>zerotier_pcap := h\<rparr>)"

text \<open>\<^verbatim>\<open>uv_pcap_sendpacket\<close> on one of the two handles of the relay.\<close>

definition link_send :: "env \<Rightarrow> side \<Rightarrow> byte list \<Rightarrow> lan_play \<Rightarrow> (int \<times> lan_play) option" where
  "link_send e s data lp = do {
     (ret, h, tx) \<leftarrow> uv_pcap_sendpacket (tx_rc e (length (out lp)) s) (link_of s lp) data;
     Some (ret, (set_link s h lp)\<lparr>out := out lp @ map (\<lambda>(i, wire, r). Tx s i wire r) tx\<rparr>) }"

definition count_wifi_tx :: "lan_play \<Rightarrow> lan_play" where
  "count_wifi_tx lp = lp\<lparr>counters := (counters lp)\<lparr>wifi_tx := wifi_tx (counters lp) + 1\<rparr>\<rparr>"

definition count_wifi_probe_tx :: "lan_play \<Rightarrow> lan_play" where
  "count_wifi_probe_tx lp =
     lp\<lparr>counters := (counters lp)\<lparr>wifi_probe_tx := wifi_probe_tx (counters lp) + 1\<rparr>\<rparr>"

definition count_zerotier_tx :: "lan_play \<Rightarrow> lan_play" where
  "count_zerotier_tx lp = lp\<lparr>counters := (counters lp)\<lparr>zerotier_tx := zerotier_tx (counters lp) + 1\<rparr>\<rparr>"

definition lan_play_send_packet :: "env \<Rightarrow> byte list \<Rightarrow> lan_play \<Rightarrow> (int \<times> lan_play) option" where
  "lan_play_send_packet e data lp = do {
     let lp = count_wifi_tx lp;
     lp \<leftarrow> diagnostic_log_frame e TX_WiFi data lp;
     link_send e WiFi data lp }"

text \<open>A frame the code assembles: Ethernet header and body.\<close>

definition ether_bytes :: "mac \<Rightarrow> mac \<Rightarrow> u16 \<Rightarrow> byte list \<Rightarrow> byte list" where
  "ether_bytes dst src type body = mac_bytes dst @ mac_bytes src @ net16 type @ body"

definition lan_play_send_wifi_ipv4 ::
  "env \<Rightarrow> mac \<Rightarrow> byte list \<Rightarrow> nat \<Rightarrow> lan_play \<Rightarrow> (int \<times> lan_play) option" where
  "lan_play_send_wifi_ipv4 e dst_mac ip ip_len lp =
     (if ip_len < IPV4_HEADER_LEN \<or> ip_len > ETHER_MTU then Some (-1, lp)
      else do {
        body \<leftarrow> read_bytes ip 0 ip_len;
        lan_play_send_packet e (ether_bytes dst_mac (wifi_mac lp) ETHER_TYPE_IPV4 body) lp })"

definition lan_play_dhcp_send ::
  "env \<Rightarrow> mac \<Rightarrow> byte list \<Rightarrow> nat \<Rightarrow> lan_play \<Rightarrow> (int \<times> lan_play) option" where
  "lan_play_dhcp_send e dst_mac ip ip_len lp = lan_play_send_wifi_ipv4 e dst_mac ip ip_len lp"

text \<open>The 28 bytes of an Ethernet/IPv4 ARP packet.\<close>

definition arp_body :: "u16 \<Rightarrow> mac \<Rightarrow> ip4 \<Rightarrow> mac \<Rightarrow> ip4 \<Rightarrow> byte list" where
  "arp_body opcode sender_mac sender_ip target_mac target_ip =
     net16 1 @ net16 ETHER_TYPE_IPV4 @ [6, 4] @ net16 opcode @
     mac_bytes sender_mac @ ip_bytes sender_ip @ mac_bytes target_mac @ ip_bytes target_ip"

definition lan_play_send_wifi_arp_probe ::
  "env \<Rightarrow> ip4 \<Rightarrow> ip4 \<Rightarrow> lan_play \<Rightarrow> (int \<times> lan_play) option" where
  "lan_play_send_wifi_arp_probe e target_ip sender_ip lp =
     link_send e WiFi
       (ether_bytes BROADCAST_MAC (wifi_mac lp) ETHER_TYPE_ARP
          (arp_body ARP_OPCODE_REQUEST (wifi_mac lp) sender_ip NONE_MAC target_ip))
       (count_wifi_probe_tx lp)"

definition zerotier_send :: "env \<Rightarrow> byte list \<Rightarrow> lan_play \<Rightarrow> (int \<times> lan_play) option" where
  "zerotier_send e frame lp = do {
     let lp = count_zerotier_tx lp;
     lp \<leftarrow> diagnostic_log_frame e TX_ZeroTier frame lp;
     link_send e ZeroTier frame lp }"

definition lan_play_send_zerotier_arp ::
  "env \<Rightarrow> ip4 \<Rightarrow> ip4 \<Rightarrow> lan_play \<Rightarrow> (int \<times> lan_play) option" where
  "lan_play_send_zerotier_arp e sender_ip target_ip lp =
     zerotier_send e
       (ether_bytes BROADCAST_MAC (zerotier_mac lp) ETHER_TYPE_ARP
          (arp_body ARP_OPCODE_REQUEST (zerotier_mac lp) sender_ip NONE_MAC target_ip)) lp"

definition lan_play_send_zerotier_arp_reply ::
  "env \<Rightarrow> mac \<Rightarrow> ip4 \<Rightarrow> ip4 \<Rightarrow> lan_play \<Rightarrow> (int \<times> lan_play) option" where
  "lan_play_send_zerotier_arp_reply e target_mac target_ip sender_ip lp =
     zerotier_send e
       (ether_bytes target_mac (zerotier_mac lp) ETHER_TYPE_ARP
          (arp_body ARP_OPCODE_REPLY (zerotier_mac lp) target_ip target_mac sender_ip)) lp"

definition lan_play_send_zerotier_ipv4_broadcast ::
  "env \<Rightarrow> byte list \<Rightarrow> nat \<Rightarrow> lan_play \<Rightarrow> (int \<times> lan_play) option" where
  "lan_play_send_zerotier_ipv4_broadcast e packet len lp =
     (if len < IPV4_HEADER_LEN \<or> len > ETHER_MTU then Some (-1, lp)
      else do {
        body \<leftarrow> read_bytes packet 0 len;
        zerotier_send e (ether_bytes BROADCAST_MAC (zerotier_mac lp) ETHER_TYPE_IPV4 body) lp })"

text \<open>
  \<^verbatim>\<open>arp_get_mac_by_ip\<close> on the overlay neighbours: their context has no Ethernet address and no
  \<^verbatim>\<open>arg\<close>, so the request a miss would send dereferences a null pointer.
\<close>

definition neighbor_get_mac :: "env \<Rightarrow> ip4 \<Rightarrow> lan_play \<Rightarrow> mac option" where
  "neighbor_get_mac e ip lp = arp_lookup (arp_table (zerotier_neighbors lp)) (now (clk e)) ip"

definition lan_play_send_zerotier_ipv4 ::
  "env \<Rightarrow> ip4 \<Rightarrow> byte list \<Rightarrow> nat \<Rightarrow> lan_play \<Rightarrow> (int \<times> lan_play) option" where
  "lan_play_send_zerotier_ipv4 e dst_ip packet len lp =
     (if len < IPV4_HEADER_LEN \<or> len > ETHER_MTU then Some (-1, lp)
      else if \<not> arp_has_ip (arp_table (zerotier_neighbors lp)) (now (clk e)) dst_ip
      then do {
        (_, lp) \<leftarrow> lan_play_send_zerotier_arp e (zerotier_ip lp) dst_ip lp;
        lan_play_send_zerotier_ipv4_broadcast e packet len lp }
      else do {
        dst \<leftarrow> neighbor_get_mac e dst_ip lp;
        body \<leftarrow> read_bytes packet 0 len;
        zerotier_send e (ether_bytes dst (zerotier_mac lp) ETHER_TYPE_IPV4 body) lp })"

definition lan_client_send_ipv4 ::
  "env \<Rightarrow> ip4 \<Rightarrow> byte list \<Rightarrow> nat \<Rightarrow> lan_play \<Rightarrow> (int \<times> lan_play) option" where
  "lan_client_send_ipv4 e dst_ip packet len lp = lan_play_send_zerotier_ipv4 e dst_ip packet len lp"

section \<open>The contract of a link\<close>

text \<open>
  \<open>core\<close> is the state a transmission leaves alone: everything but the traffic counters, the packet
  identification, the captures, the failure counters of the interfaces and the outputs.
\<close>

definition no_counters :: rx_counters where
  "no_counters = \<lparr>wifi_arp_rx = 0, wifi_ipv4_rx = 0, zerotier_arp_rx = 0, zerotier_ipv4_rx = 0,
     wifi_tx = 0, wifi_probe_tx = 0, zerotier_tx = 0\<rparr>"

definition no_pcap :: uv_pcap where
  "no_pcap = \<lparr>interfaces = [], if_map = (\<lambda>_. None)\<rparr>"

definition ctx_core :: "packet_ctx \<Rightarrow> packet_ctx" where
  "ctx_core c = c\<lparr>identification := 0, upload_byte := 0, download_byte := 0, upload_packet := 0,
     download_packet := 0\<rparr>"

definition core :: "lan_play \<Rightarrow> lan_play" where
  "core lp = lp\<lparr>ctx := ctx_core (ctx lp), counters := no_counters, capture_state := no_captures, pcap := no_pcap,
     zerotier_pcap := no_pcap, out := []\<rparr>"

definition hw_addr :: "side \<Rightarrow> lan_play \<Rightarrow> mac" where
  "hw_addr s lp = (case s of WiFi \<Rightarrow> wifi_mac lp | ZeroTier \<Rightarrow> zerotier_mac lp)"

definition link_up :: "uv_pcap \<Rightarrow> mac \<Rightarrow> bool" where
  "link_up p m \<longleftrightarrow> pcap_ok p \<and> map if_mac (interfaces p) = [m]"

definition io_ok :: "lan_play \<Rightarrow> bool" where
  "io_ok lp \<longleftrightarrow> (\<forall>s. link_up (link_of s lp) (hw_addr s lp)) \<and> captures_ok (capture_state lp)"

lemma core_proj [simp]:
  shows "ctx (core lp) = ctx_core (ctx lp)"
    "ingress_zerotier (core lp) = ingress_zerotier lp"
    "switch_discovery_active (core lp) = switch_discovery_active lp"
    "switch_discovery_host (core lp) = switch_discovery_host lp"
    "switch_discovery_pause_ticks (core lp) = switch_discovery_pause_ticks lp"
    "switch_discovery_wifi_phase (core lp) = switch_discovery_wifi_phase lp"
    "wifi_mac (core lp) = wifi_mac lp"
    "wifi_ip (core lp) = wifi_ip lp"
    "wifi_netmask (core lp) = wifi_netmask lp"
    "wifi_subnet (core lp) = wifi_subnet lp"
    "wifi_broadcast (core lp) = wifi_broadcast lp"
    "wifi_subnet_known (core lp) = wifi_subnet_known lp"
    "zerotier_mac (core lp) = zerotier_mac lp"
    "zerotier_ip (core lp) = zerotier_ip lp"
    "zerotier_netmask (core lp) = zerotier_netmask lp"
    "zerotier_broadcast_ip (core lp) = zerotier_broadcast_ip lp"
    "switch_mac (core lp) = switch_mac lp"
    "switch_ip (core lp) = switch_ip lp"
    "switch_seen (core lp) = switch_seen lp"
    "switch_mac_confirmed (core lp) = switch_mac_confirmed lp"
    "switch_nintendo_oui (core lp) = switch_nintendo_oui lp"
    "switch_dhcp (core lp) = switch_dhcp lp"
    "switch_mac_conflicts (core lp) = switch_mac_conflicts lp"
    "dhcp_state (core lp) = dhcp_state lp"
    "dhcp_ip_id (core lp) = dhcp_ip_id lp"
    "zerotier_neighbors (core lp) = zerotier_neighbors lp"
    "udp_guard (core lp) = udp_guard lp"
    "wifi_delivery_probe_sent (core lp) = wifi_delivery_probe_sent lp"
    "wifi_delivery_probe_payload (core lp) = wifi_delivery_probe_payload lp"
    "wifi_delivery_probe_ip (core lp) = wifi_delivery_probe_ip lp"
    "wifi_delivery_probe_mac (core lp) = wifi_delivery_probe_mac lp"
    "client (core lp) = client lp"
    "hw_addr s (core lp) = hw_addr s lp"
  by (simp_all add: core_def hw_addr_def split: side.split)

lemma core_fields:
  assumes "core lp' = core lp"
  shows "ctx_core (ctx lp') = ctx_core (ctx lp)" "ingress_zerotier lp' = ingress_zerotier lp"
    "switch_discovery_active lp' = switch_discovery_active lp"
    "switch_discovery_host lp' = switch_discovery_host lp"
    "switch_discovery_pause_ticks lp' = switch_discovery_pause_ticks lp"
    "switch_discovery_wifi_phase lp' = switch_discovery_wifi_phase lp"
    "wifi_mac lp' = wifi_mac lp" "wifi_ip lp' = wifi_ip lp" "wifi_netmask lp' = wifi_netmask lp"
    "wifi_subnet lp' = wifi_subnet lp" "wifi_broadcast lp' = wifi_broadcast lp"
    "wifi_subnet_known lp' = wifi_subnet_known lp"
    "zerotier_mac lp' = zerotier_mac lp" "zerotier_ip lp' = zerotier_ip lp"
    "zerotier_netmask lp' = zerotier_netmask lp" "zerotier_broadcast_ip lp' = zerotier_broadcast_ip lp"
    "switch_mac lp' = switch_mac lp" "switch_ip lp' = switch_ip lp" "switch_seen lp' = switch_seen lp"
    "switch_mac_confirmed lp' = switch_mac_confirmed lp" "switch_nintendo_oui lp' = switch_nintendo_oui lp"
    "switch_dhcp lp' = switch_dhcp lp" "switch_mac_conflicts lp' = switch_mac_conflicts lp"
    "dhcp_state lp' = dhcp_state lp" "dhcp_ip_id lp' = dhcp_ip_id lp"
    "zerotier_neighbors lp' = zerotier_neighbors lp" "udp_guard lp' = udp_guard lp"
    "wifi_delivery_probe_sent lp' = wifi_delivery_probe_sent lp"
    "wifi_delivery_probe_payload lp' = wifi_delivery_probe_payload lp"
    "wifi_delivery_probe_ip lp' = wifi_delivery_probe_ip lp"
    "wifi_delivery_probe_mac lp' = wifi_delivery_probe_mac lp"
    "client lp' = client lp" "hw_addr s lp' = hw_addr s lp"
proof -
  have "ctx_core (ctx_core (ctx lp)) = ctx_core (ctx lp)" for lp by (simp add: ctx_core_def)
  then show "ctx_core (ctx lp') = ctx_core (ctx lp)" by (metis assms core_proj(1))
qed (metis assms core_proj)+

lemma ctx_fields:
  assumes "core lp' = core lp"
  shows "ctx_ip (ctx lp') = ctx_ip (ctx lp)" "subnet_net (ctx lp') = subnet_net (ctx lp)"
    "subnet_mask (ctx lp') = subnet_mask (ctx lp)" "ctx_mac (ctx lp') = ctx_mac (ctx lp)"
    "arp_table (ctx lp') = arp_table (ctx lp)" "arp_ttl (ctx lp') = arp_ttl (ctx lp)"
    "buffer_len (ctx lp') = buffer_len (ctx lp)"
proof -
  have proj: "ctx_ip (ctx_core c) = ctx_ip c" "subnet_net (ctx_core c) = subnet_net c"
    "subnet_mask (ctx_core c) = subnet_mask c" "ctx_mac (ctx_core c) = ctx_mac c"
    "arp_table (ctx_core c) = arp_table c" "arp_ttl (ctx_core c) = arp_ttl c"
    "buffer_len (ctx_core c) = buffer_len c" for c by (simp_all add: ctx_core_def)
  note eq = core_fields(1) [OF assms]
  show "ctx_ip (ctx lp') = ctx_ip (ctx lp)" "subnet_net (ctx lp') = subnet_net (ctx lp)"
    "subnet_mask (ctx lp') = subnet_mask (ctx lp)" "ctx_mac (ctx lp') = ctx_mac (ctx lp)"
    "arp_table (ctx lp') = arp_table (ctx lp)" "arp_ttl (ctx lp') = arp_ttl (ctx lp)"
    "buffer_len (ctx lp') = buffer_len (ctx lp)"
    by (metis eq proj)+
qed

text \<open>One frame went out on a side, and nothing but the bookkeeping changed.\<close>

definition sent :: "side \<Rightarrow> byte list \<Rightarrow> int \<Rightarrow> lan_play \<Rightarrow> lan_play \<Rightarrow> bool" where
  "sent s frame r lp lp' \<longleftrightarrow> io_ok lp' \<and> core lp' = core lp \<and> out lp' = out lp @ [Tx s 0 frame r]"

lemma sentD: "sent s frame r lp lp' \<Longrightarrow> io_ok lp' \<and> core lp' = core lp \<and> out lp' = out lp @ [Tx s 0 frame r]"
  by (simp add: sent_def)

lemma length_ether_bytes [simp]: "length (ether_bytes d s t b) = 14 + length b"
  by (simp add: ether_bytes_def)

lemma ether_bytes_windows [simp]:
  "window (ether_bytes d s t b) 6 6 = mac_bytes s" "mac_at (ether_bytes d s t b) 0 = d"
  "mac_at (ether_bytes d s t b) 6 = s" "drop 14 (ether_bytes d s t b) = b"
  "be16 (ether_bytes d s t b ! 12) (ether_bytes d s t b ! 13) = t"
  by (cases d; cases s; simp add: ether_bytes_def window_def mac_at_def net16_def)+

lemma patch_ether_src: "patch (ether_bytes d s t b) 6 (mac_bytes m) = ether_bytes d m t b"
  by (simp add: ether_bytes_def patch_def)

lemma length_arp_body [simp]: "length (arp_body op sm si tm ti) = 28"
  by (simp add: arp_body_def)

locale frame_link =
  fixes transmit :: "env \<Rightarrow> byte list \<Rightarrow> lan_play \<Rightarrow> (int \<times> lan_play) option" and sd :: side
  assumes transmits: "io_ok lp \<Longrightarrow> 12 \<le> length f \<Longrightarrow>
    \<exists>r lp'. transmit e f lp = Some (r, lp') \<and> io_ok lp' \<and> core lp' = core lp \<and>
      out lp' = out lp @ [Tx sd 0 (patch f 6 (mac_bytes (hw_addr sd lp))) r]"
begin

text \<open>Whatever source address a frame was built with, it carries the adapter's own on the wire.\<close>

lemma transmits_ether:
  assumes "io_ok lp"
  shows "\<exists>r lp'. transmit e (ether_bytes d src t b) lp = Some (r, lp') \<and>
    sent sd (ether_bytes d (hw_addr sd lp) t b) r lp lp'"
  using transmits [OF assms, of "ether_bytes d src t b" e] by (simp add: sent_def patch_ether_src)

end

lemma link_of_update [simp]:
  "link_of s (set_link s h lp) = h"
  "s \<noteq> t \<Longrightarrow> link_of t (set_link s h lp) = link_of t lp"
  "link_of s (lp\<lparr>out := evs\<rparr>) = link_of s lp"
  "hw_addr s (set_link t h lp) = hw_addr s lp"
  "hw_addr s (lp\<lparr>out := evs\<rparr>) = hw_addr s lp"
  "capture_state (set_link s h lp) = capture_state lp"
  by (cases s; cases t; simp add: link_of_def set_link_def hw_addr_def)+

lemma core_update [simp]:
  "core (set_link s h lp) = core lp"
  "core (lp\<lparr>out := evs\<rparr>) = core lp"
  "core (lp\<lparr>counters := c\<rparr>) = core lp"
  "core (lp\<lparr>capture_state := cs\<rparr>) = core lp"
  by (cases s; simp add: set_link_def core_def)+

lemma all_sides: "(\<forall>s. P s) \<longleftrightarrow> P WiFi \<and> P ZeroTier"
  by (metis side.exhaust)

lemma io_ok_bookkeeping:
  "io_ok lp \<Longrightarrow> io_ok (lp\<lparr>counters := c\<rparr>)"
  "io_ok lp \<Longrightarrow> io_ok (log_frame e d f lp)"
  "core (log_frame e d f lp) = core lp" "out (log_frame e d f lp) = out lp"
  "hw_addr s (log_frame e d f lp) = hw_addr s lp"
  by (simp_all add: io_ok_def link_of_def hw_addr_def log_frame_def capture_frame_ok all_sides
      split: side.split)

lemma io_ok_set_link:
  "io_ok lp \<Longrightarrow> link_up h (hw_addr s lp) \<Longrightarrow> io_ok ((set_link s h lp)\<lparr>out := evs\<rparr>)"
  unfolding io_ok_def
proof (intro conjI allI)
  fix t
  assume "(\<forall>s. link_up (link_of s lp) (hw_addr s lp)) \<and> captures_ok (capture_state lp)" "link_up h (hw_addr s lp)"
  then show "link_up (link_of t ((set_link s h lp)\<lparr>out := evs\<rparr>)) (hw_addr t ((set_link s h lp)\<lparr>out := evs\<rparr>))"
    by (cases "s = t") simp_all
qed simp

lemma link_send_transmits:
  assumes ok: "io_ok lp" and len: "12 \<le> length f"
  shows "\<exists>r lp'. link_send e s f lp = Some (r, lp') \<and> io_ok lp' \<and> core lp' = core lp \<and>
      out lp' = out lp @ [Tx s 0 (patch f 6 (mac_bytes (hw_addr s lp))) r]"
proof -
  let ?p = "link_of s lp" and ?wire = "patch f 6 (mac_bytes (hw_addr s lp))"
  have up: "link_up ?p (hw_addr s lp)" using ok by (simp add: io_ok_def)
  then obtain h where h: "interfaces ?p = [h]" "if_mac h = hw_addr s lp" "pcap_ok ?p"
    by (auto simp: link_up_def)
  define r where "r = tx_rc e (length (out lp)) s 0 ?wire"
  define h' where "h' = (if r \<noteq> 0 then h\<lparr>send_failures := send_failures h + 1\<rparr> else h)"
  have "uv_pcap_sendpacket (tx_rc e (length (out lp)) s) ?p f
      = Some (r, ?p\<lparr>interfaces := [h']\<rparr>, [(0, ?wire, r)])"
    using send_single [OF h(3,1) len, of "tx_rc e (length (out lp)) s"] h(2) by (simp add: r_def h'_def)
  moreover have "link_up (?p\<lparr>interfaces := [h']\<rparr>) (hw_addr s lp)"
    using h up by (simp add: link_up_def pcap_ok_def h'_def)
  ultimately show ?thesis
    using io_ok_set_link [OF ok] by (simp add: link_send_def)
qed

interpretation raw_wifi: frame_link "\<lambda>e. link_send e WiFi" WiFi
  by unfold_locales (rule link_send_transmits)

interpretation wifi_link: frame_link lan_play_send_packet WiFi
proof unfold_locales
  fix lp f e
  assume "io_ok lp" and f: "12 \<le> length (f :: byte list)"
  then have "io_ok (log_frame e TX_WiFi f (count_wifi_tx lp))"
    by (simp add: count_wifi_tx_def io_ok_bookkeeping)
  from link_send_transmits [OF this f, of e WiFi]
  show "\<exists>r lp'. lan_play_send_packet e f lp = Some (r, lp') \<and> io_ok lp' \<and> core lp' = core lp \<and>
      out lp' = out lp @ [Tx WiFi 0 (patch f 6 (mac_bytes (hw_addr WiFi lp))) r]"
    by (simp add: lan_play_send_packet_def count_wifi_tx_def hw_addr_def log_frame_def)
qed

interpretation zerotier_link: frame_link zerotier_send ZeroTier
proof unfold_locales
  fix lp f e
  assume "io_ok lp" and f: "12 \<le> length (f :: byte list)"
  then have "io_ok (log_frame e TX_ZeroTier f (count_zerotier_tx lp))"
    by (simp add: count_zerotier_tx_def io_ok_bookkeeping)
  from link_send_transmits [OF this f, of e ZeroTier]
  show "\<exists>r lp'. zerotier_send e f lp = Some (r, lp') \<and> io_ok lp' \<and> core lp' = core lp \<and>
      out lp' = out lp @ [Tx ZeroTier 0 (patch f 6 (mac_bytes (hw_addr ZeroTier lp))) r]"
    by (simp add: zerotier_send_def count_zerotier_tx_def hw_addr_def log_frame_def)
qed

section \<open>What the senders put on the wire\<close>

lemma send_wifi_ipv4_sent:
  assumes "io_ok lp" "20 \<le> n" "n \<le> 1500" "n \<le> length ip"
  shows "\<exists>r lp'. lan_play_send_wifi_ipv4 e m ip n lp = Some (r, lp') \<and>
    sent WiFi (ether_bytes m (wifi_mac lp) ETHER_TYPE_IPV4 (take n ip)) r lp lp'"
  using wifi_link.transmits_ether [OF assms(1), of e m "wifi_mac lp"] assms
  by (simp add: lan_play_send_wifi_ipv4_def read_bytes_Some window_def hw_addr_def)

lemma send_wifi_arp_probe_sent:
  assumes "io_ok lp"
  shows "\<exists>r lp'. lan_play_send_wifi_arp_probe e t s lp = Some (r, lp') \<and>
    sent WiFi (ether_bytes BROADCAST_MAC (wifi_mac lp) ETHER_TYPE_ARP
      (arp_body ARP_OPCODE_REQUEST (wifi_mac lp) s NONE_MAC t)) r lp lp'"
proof -
  have "io_ok (count_wifi_probe_tx lp)" using assms by (simp add: count_wifi_probe_tx_def io_ok_bookkeeping)
  from raw_wifi.transmits_ether [OF this, of e] show ?thesis
    by (simp add: lan_play_send_wifi_arp_probe_def hw_addr_def sent_def count_wifi_probe_tx_def)
qed

lemma send_zerotier_arp_sent:
  assumes "io_ok lp"
  shows "\<exists>r lp'. lan_play_send_zerotier_arp e s t lp = Some (r, lp') \<and>
    sent ZeroTier (ether_bytes BROADCAST_MAC (zerotier_mac lp) ETHER_TYPE_ARP
      (arp_body ARP_OPCODE_REQUEST (zerotier_mac lp) s NONE_MAC t)) r lp lp'"
  using zerotier_link.transmits_ether [OF assms, of e _ "zerotier_mac lp"]
  by (simp add: lan_play_send_zerotier_arp_def hw_addr_def)

lemma send_zerotier_arp_reply_sent:
  assumes "io_ok lp"
  shows "\<exists>r lp'. lan_play_send_zerotier_arp_reply e m t s lp = Some (r, lp') \<and>
    sent ZeroTier (ether_bytes m (zerotier_mac lp) ETHER_TYPE_ARP
      (arp_body ARP_OPCODE_REPLY (zerotier_mac lp) t m s)) r lp lp'"
  using zerotier_link.transmits_ether [OF assms, of e _ "zerotier_mac lp"]
  by (simp add: lan_play_send_zerotier_arp_reply_def hw_addr_def)

lemma send_zerotier_broadcast_sent:
  assumes "io_ok lp" "20 \<le> n" "n \<le> 1500" "n \<le> length p"
  shows "\<exists>r lp'. lan_play_send_zerotier_ipv4_broadcast e p n lp = Some (r, lp') \<and>
    sent ZeroTier (ether_bytes BROADCAST_MAC (zerotier_mac lp) ETHER_TYPE_IPV4 (take n p)) r lp lp'"
  using zerotier_link.transmits_ether [OF assms(1), of e _ "zerotier_mac lp"] assms
  by (simp add: lan_play_send_zerotier_ipv4_broadcast_def read_bytes_Some window_def hw_addr_def)

text \<open>To a known neighbour a packet goes as one unicast frame; otherwise an ARP request goes out and
  the packet itself is broadcast.\<close>

lemma send_zerotier_ipv4_known:
  assumes "io_ok lp" "20 \<le> n" "n \<le> 1500" "n \<le> length p" "neighbor_get_mac e ip lp = Some m"
  shows "\<exists>r lp'. lan_play_send_zerotier_ipv4 e ip p n lp = Some (r, lp') \<and>
    sent ZeroTier (ether_bytes m (zerotier_mac lp) ETHER_TYPE_IPV4 (take n p)) r lp lp'"
  using zerotier_link.transmits_ether [OF assms(1), of e _ "zerotier_mac lp"] assms
  by (simp add: lan_play_send_zerotier_ipv4_def read_bytes_Some window_def hw_addr_def
      arp_has_ip_lookup neighbor_get_mac_def)

lemma send_zerotier_ipv4_unknown:
  assumes ok: "io_ok lp" "20 \<le> n" "n \<le> 1500" "n \<le> length p" and "neighbor_get_mac e ip lp = None"
  shows "\<exists>r lp'. lan_play_send_zerotier_ipv4 e ip p n lp = Some (r, lp') \<and>
    (\<exists>r1 lp1. sent ZeroTier (ether_bytes BROADCAST_MAC (zerotier_mac lp) ETHER_TYPE_ARP
        (arp_body ARP_OPCODE_REQUEST (zerotier_mac lp) (zerotier_ip lp) NONE_MAC ip)) r1 lp lp1 \<and>
      sent ZeroTier (ether_bytes BROADCAST_MAC (zerotier_mac lp) ETHER_TYPE_IPV4 (take n p)) r lp1 lp')"
proof -
  obtain r1 lp1 where 1: "lan_play_send_zerotier_arp e (zerotier_ip lp) ip lp = Some (r1, lp1)"
    "sent ZeroTier (ether_bytes BROADCAST_MAC (zerotier_mac lp) ETHER_TYPE_ARP
        (arp_body ARP_OPCODE_REQUEST (zerotier_mac lp) (zerotier_ip lp) NONE_MAC ip)) r1 lp lp1"
    using send_zerotier_arp_sent [OF ok(1)] by blast
  then have lp1: "io_ok lp1" "zerotier_mac lp1 = zerotier_mac lp"
    using core_fields(13) [of lp1 lp] by (simp_all add: sent_def)
  obtain r lp' where 2: "lan_play_send_zerotier_ipv4_broadcast e p n lp1 = Some (r, lp')"
    "sent ZeroTier (ether_bytes BROADCAST_MAC (zerotier_mac lp) ETHER_TYPE_IPV4 (take n p)) r lp1 lp'"
    using send_zerotier_broadcast_sent [OF lp1(1) ok(2-4), of e] lp1(2) by auto
  have "lan_play_send_zerotier_ipv4 e ip p n lp = Some (r, lp')"
    using assms 1 2 by (simp add: lan_play_send_zerotier_ipv4_def arp_has_ip_lookup neighbor_get_mac_def)
  then show ?thesis using 1(2) 2(2) by blast
qed

end
