(* ===== verification/Packet.thy ===== *)
theory Packet
  imports Lan_Play
begin

text \<open>
  The packet processor of \<^verbatim>\<open>src/packet.c\<close>, \<^verbatim>\<open>src/arp.c\<close> and \<^verbatim>\<open>src/ipv4/\<close>: sending chains of buffers as
  Ethernet frames, proxy ARP, ICMP echo and the dispatch of received frames.  The context \<^verbatim>\<open>self\<close> of the
  code is the field \<open>ctx\<close> of the relay.
\<close>

section \<open>Sending\<close>

text \<open>
  The copy loop of \<^verbatim>\<open>send_payloads\<close> into the send buffer: \<open>Some None\<close> is a chain that does not fit.
\<close>

fun gather_payload :: "nat \<Rightarrow> byte list \<Rightarrow> payload \<Rightarrow> byte list option option" where
  "gather_payload blen acc [] = Some (Some acc)"
| "gather_payload blen acc ((p, l) # rest) =
     (if length acc + unat l \<ge> blen then Some None
      else do { b \<leftarrow> read_bytes p 0 (unat l); gather_payload blen (acc @ b) rest })"

definition send_payloads :: "env \<Rightarrow> payload \<Rightarrow> lan_play \<Rightarrow> (int \<times> lan_play) option" where
  "send_payloads e ps lp = do {
     r \<leftarrow> gather_payload (buffer_len (ctx lp)) [] ps;
     case r of
       None \<Rightarrow> if ndebug e then Some (-1, lp) else None
     | Some data \<Rightarrow>
         let c = ctx lp;
             lp = lp\<lparr>ctx := c\<lparr>upload_packet := upload_packet c + 1,
                            upload_byte := upload_byte c + word_of_nat (length data)\<rparr>\<rparr>
         in lan_play_send_packet e data lp }"

text \<open>A buffer of known size as a one-element chain.\<close>

definition part :: "byte list \<Rightarrow> byte list \<times> u16" where
  "part b = (b, word_of_nat (length b))"

definition send_ether_ex :: "env \<Rightarrow> mac \<Rightarrow> mac \<Rightarrow> u16 \<Rightarrow> payload \<Rightarrow> lan_play \<Rightarrow> (int \<times> lan_play) option" where
  "send_ether_ex e dst src type ps lp =
     send_payloads e (part (mac_bytes dst @ mac_bytes src @ net16 type) # ps) lp"

definition send_ether :: "env \<Rightarrow> mac \<Rightarrow> u16 \<Rightarrow> payload \<Rightarrow> lan_play \<Rightarrow> (int \<times> lan_play) option" where
  "send_ether e dst type ps lp = do {
     src \<leftarrow> ctx_mac (ctx lp);
     send_ether_ex e dst src type ps lp }"

fun payload_total_len :: "payload \<Rightarrow> u16" where
  "payload_total_len [] = 0"
| "payload_total_len ((p, l) # rest) = l + payload_total_len rest"

definition packet_init :: "nat \<Rightarrow> ip4 \<Rightarrow> ip4 \<Rightarrow> ip4 \<Rightarrow> int \<Rightarrow> packet_ctx" where
  "packet_init blen ip net netmask ttl =
     \<lparr>buffer_len = blen, ctx_ip = ip, subnet_net = net, subnet_mask = netmask,
      ctx_mac = Some BROADCAST_MAC, identification = 0, arp_table = arp_list_init, arp_ttl = ttl,
      upload_byte = 0, download_byte = 0, upload_packet = 0, download_packet = 0\<rparr>"

definition packet_set_mac :: "mac \<Rightarrow> lan_play \<Rightarrow> lan_play" where
  "packet_set_mac m lp = lp\<lparr>ctx := (ctx lp)\<lparr>ctx_mac := Some m\<rparr>\<rparr>"

section \<open>ARP\<close>

definition send_arp_ex ::
  "env \<Rightarrow> mac \<Rightarrow> byte \<Rightarrow> mac \<Rightarrow> ip4 \<Rightarrow> mac \<Rightarrow> ip4 \<Rightarrow> lan_play \<Rightarrow> (int \<times> lan_play) option" where
  "send_arp_ex e dst_mac opcode sender_mac sender_ip target_mac target_ip lp =
     send_ether e dst_mac ETHER_TYPE_ARP
       [part (arp_body (ucast opcode) sender_mac sender_ip target_mac target_ip)] lp"

definition send_arp ::
  "env \<Rightarrow> byte \<Rightarrow> mac \<Rightarrow> ip4 \<Rightarrow> mac \<Rightarrow> ip4 \<Rightarrow> lan_play \<Rightarrow> (int \<times> lan_play) option" where
  "send_arp e opcode sender_mac sender_ip target_mac target_ip lp =
     send_arp_ex e target_mac opcode sender_mac sender_ip target_mac target_ip lp"

definition send_arp_request :: "env \<Rightarrow> ip4 \<Rightarrow> lan_play \<Rightarrow> (int \<times> lan_play) option" where
  "send_arp_request e target_ip lp = do {
     m \<leftarrow> ctx_mac (ctx lp);
     send_arp_ex e BROADCAST_MAC 1 m (ctx_ip (ctx lp)) NONE_MAC target_ip lp }"

definition arp_get_mac_by_ip :: "env \<Rightarrow> ip4 \<Rightarrow> lan_play \<Rightarrow> (mac option \<times> lan_play) option" where
  "arp_get_mac_by_ip e ip lp =
     (case arp_lookup (arp_table (ctx lp)) (now (clk e)) ip of
        Some m \<Rightarrow> Some (Some m, lp)
      | None \<Rightarrow> do { (_, lp) \<leftarrow> send_arp_request e ip lp; Some (None, lp) })"

definition ctx_arp_set :: "env \<Rightarrow> mac \<Rightarrow> ip4 \<Rightarrow> lan_play \<Rightarrow> lan_play" where
  "ctx_arp_set e m ip lp =
     lp\<lparr>ctx := (ctx lp)\<lparr>arp_table :=
       fst (arp_set (arp_table (ctx lp)) (now (clk e)) (arp_ttl (ctx lp)) m ip)\<rparr>\<rparr>"

record ether_frame =
  raw :: "byte list"
  raw_len :: nat
  ether_dst :: mac
  ether_src :: mac
  ether_type :: u16

definition parse_ether :: "byte list \<Rightarrow> nat \<Rightarrow> ether_frame option" where
  "parse_ether packet len = do {
     d \<leftarrow> CPY_MAC packet ETHER_OFF_DST;
     s \<leftarrow> CPY_MAC packet ETHER_OFF_SRC;
     t \<leftarrow> read16 packet ETHER_OFF_TYPE;
     Some \<lparr>raw = packet, raw_len = len, ether_dst = d, ether_src = s, ether_type = t\<rparr> }"

definition ether_payload :: "ether_frame \<Rightarrow> byte list" where
  "ether_payload eth = drop ETHER_HEADER_LEN (raw eth)"

record arp =
  hardware_type :: u16
  protocol_type :: u16
  hardware_size :: byte
  protocol_size :: byte
  opcode :: u16
  sender_mac :: mac
  sender_ip :: ip4
  target_mac :: mac
  target_ip :: ip4

definition parse_arp :: "ether_frame \<Rightarrow> arp option" where
  "parse_arp eth = do {
     let p = ether_payload eth;
     ht \<leftarrow> read16 p 0; pt \<leftarrow> read16 p 2; hs \<leftarrow> read8 p 4; ps \<leftarrow> read8 p 5; oc \<leftarrow> read16 p 6;
     sm \<leftarrow> CPY_MAC p 8; si \<leftarrow> CPY_IPV4 p 14; tm \<leftarrow> CPY_MAC p 18; ti \<leftarrow> CPY_IPV4 p 24;
     Some \<lparr>hardware_type = ht, protocol_type = pt, hardware_size = hs, protocol_size = ps, opcode = oc,
       sender_mac = sm, sender_ip = si, target_mac = tm, target_ip = ti\<rparr> }"

definition arp_request :: "env \<Rightarrow> arp \<Rightarrow> lan_play \<Rightarrow> (int \<times> lan_play) option" where
  "arp_request e a lp =
     (if IS_SUBNET (target_ip a) (subnet_net (ctx lp)) (subnet_mask (ctx lp))
      then if target_ip a = sender_ip a then Some (0, lp)
           else if sender_ip a = NONE_IP then Some (0, lp)
           else if ingress_zerotier lp
           then if target_ip a \<noteq> zerotier_ip lp then Some (0, lp)
                else lan_play_send_zerotier_arp_reply e (sender_mac a) (target_ip a) (sender_ip a) lp
           else do {
             lp \<leftarrow> (if target_ip a \<noteq> ctx_ip (ctx lp) \<and>
                      \<not> arp_has_ip (arp_table (ctx lp)) (now (clk e)) (target_ip a) \<and>
                      zerotier_if (options e) = None
                   then do { (_, lp) \<leftarrow> lan_play_send_zerotier_arp e (sender_ip a) (target_ip a) lp; Some lp }
                   else Some lp);
             m \<leftarrow> ctx_mac (ctx lp);
             send_arp e 2 m (target_ip a) (sender_mac a) (sender_ip a) lp }
      else Some (0, lp))"

definition arp_reply :: "env \<Rightarrow> arp \<Rightarrow> lan_play \<Rightarrow> (int \<times> lan_play) option" where
  "arp_reply e a lp = Some (0, lp)"

definition process_arp :: "env \<Rightarrow> ether_frame \<Rightarrow> lan_play \<Rightarrow> (int \<times> lan_play) option" where
  "process_arp e eth lp = do {
     a \<leftarrow> parse_arp eth;
     if hardware_type a \<noteq> 1 \<or> protocol_type a \<noteq> ETHER_TYPE_IPV4 \<or> hardware_size a \<noteq> 6 \<or> protocol_size a \<noteq> 4
     then Some (-1, lp)
     else let lp = ctx_arp_set e (sender_mac a) (sender_ip a) lp
          in if opcode a = ARP_OPCODE_REQUEST then arp_request e a lp
             else if opcode a = ARP_OPCODE_REPLY then arp_reply e a lp
             else Some (-1, lp) }"

section \<open>IPv4, ICMP and UDP\<close>

text \<open>The 20-byte header \<^verbatim>\<open>send_ipv4_ex\<close> writes, with the checksum field as given.\<close>

definition ipv4_header :: "u16 \<Rightarrow> u16 \<Rightarrow> byte \<Rightarrow> u16 \<Rightarrow> ip4 \<Rightarrow> ip4 \<Rightarrow> byte list" where
  "ipv4_header tlen ident protocol checksum src dst =
     [0x45, 0] @ net16 tlen @ net16 ident @ net16 0 @ [128, protocol] @ net16 checksum @
     ip_bytes src @ ip_bytes dst"

definition send_ipv4_ex ::
  "env \<Rightarrow> ip4 \<Rightarrow> ip4 \<Rightarrow> byte \<Rightarrow> payload \<Rightarrow> lan_play \<Rightarrow> (int \<times> lan_play) option" where
  "send_ipv4_ex e src dst protocol ps lp = do {
     let total = 20 + payload_total_len ps;
     let ident = identification (ctx lp);
     let lp = lp\<lparr>ctx := (ctx lp)\<lparr>identification := ident + 1\<rparr>\<rparr>;
     let checksum = calc_checksum (ipv4_header total ident protocol 0 src dst);
     (dst_mac, lp) \<leftarrow> arp_get_mac_by_ip e dst lp;
     case dst_mac of
       None \<Rightarrow> Some (0, lp)
     | Some m \<Rightarrow>
         send_ether e m ETHER_TYPE_IPV4
           (part (ipv4_header total ident protocol checksum src dst) # ps) lp }"

definition send_ipv4 :: "env \<Rightarrow> ip4 \<Rightarrow> byte \<Rightarrow> payload \<Rightarrow> lan_play \<Rightarrow> (int \<times> lan_play) option" where
  "send_ipv4 e dst protocol ps lp = send_ipv4_ex e (ctx_ip (ctx lp)) dst protocol ps lp"

definition send_udp_ex ::
  "env \<Rightarrow> ip4 \<Rightarrow> u16 \<Rightarrow> ip4 \<Rightarrow> u16 \<Rightarrow> payload \<Rightarrow> lan_play \<Rightarrow> (int \<times> lan_play) option" where
  "send_udp_ex e src srcport dst dstport ps lp = do {
     let udp_length = 8 + payload_total_len ps;
     let head = (\<lambda>c. net16 srcport @ net16 dstport @ net16 udp_length @ net16 c);
     let pseudo = ip_bytes src @ ip_bytes dst @ [0, IPV4_PROTOCOL_UDP] @ net16 udp_length;
     checksum \<leftarrow> calc_payload_checksum (part pseudo # part (head 0) # ps);
     send_ipv4_ex e src dst IPV4_PROTOCOL_UDP (part (head checksum) # ps) lp }"

text \<open>The fields of \<^verbatim>\<open>struct ipv4\<close> that are read later; \<^verbatim>\<open>checksum\<close> is read from offset 9 as in the
  code, and is not used.\<close>

record ipv4 =
  ip_ether :: ether_frame
  ip_vers :: byte
  ip_hlen :: nat
  ip_total_len :: u16
  ip_identification :: u16
  ip_flags :: u16
  ip_fragment_offset :: u16
  ip_ttl :: byte
  ip_protocol :: byte
  ip_checksum :: u16
  ip_src :: ip4
  ip_dst :: ip4

definition parse_ipv4 :: "ether_frame \<Rightarrow> ipv4 option" where
  "parse_ipv4 eth = do {
     let p = ether_payload eth;
     t \<leftarrow> read8 p 0;
     ds \<leftarrow> read8 p 1;
     total \<leftarrow> read16 p IPV4_OFF_TOTAL_LEN;
     ident \<leftarrow> read16 p 4;
     tt \<leftarrow> read16 p IPV4_OFF_FLAGS_FRAG_OFFSET;
     ttl \<leftarrow> read8 p 8;
     proto \<leftarrow> read8 p IPV4_OFF_PROTOCOL;
     ck \<leftarrow> read16 p IPV4_OFF_PROTOCOL;
     s \<leftarrow> CPY_IPV4 p IPV4_OFF_SRC;
     d \<leftarrow> CPY_IPV4 p IPV4_OFF_DST;
     Some \<lparr>ip_ether = eth, ip_vers = ip_version t, ip_hlen = header_len t, ip_total_len = total,
       ip_identification = ident, ip_flags = drop_bit 13 tt, ip_fragment_offset = tt AND 0x1fff,
       ip_ttl = ttl, ip_protocol = proto, ip_checksum = ck, ip_src = s, ip_dst = d\<rparr> }"

definition ipv4_payload :: "ipv4 \<Rightarrow> byte list" where
  "ipv4_payload i = drop (ip_hlen i) (ether_payload (ip_ether i))"

record udp =
  srcport :: u16
  dstport :: u16
  udp_len :: u16
  udp_check :: u16

definition parse_udp :: "ipv4 \<Rightarrow> udp option" where
  "parse_udp i = do {
     let p = ipv4_payload i;
     s \<leftarrow> read16 p 0; d \<leftarrow> read16 p 2; l \<leftarrow> read16 p 4; c \<leftarrow> read16 p 6;
     Some \<lparr>srcport = s, dstport = d, udp_len = l, udp_check = c\<rparr> }"

abbreviation (input) BUFFER_SIZE :: nat where "BUFFER_SIZE \<equiv> 2048"

text \<open>
  \<^verbatim>\<open>process_icmp\<close> copies \<^verbatim>\<open>icmp_len\<close> bytes into a buffer of \<open>BUFFER_SIZE\<close> bytes: a negative length is a
  huge \<^verbatim>\<open>size_t\<close>, and a length beyond the buffer or the frame is out of range as well.  The bytes of
  the buffer behind the copy are never sent.
\<close>

definition process_icmp :: "env \<Rightarrow> ipv4 \<Rightarrow> lan_play \<Rightarrow> (int \<times> lan_play) option" where
  "process_icmp e i lp =
     (if unat (ip_total_len i) < ip_hlen i then None
      else let n = unat (ip_total_len i) - ip_hlen i
           in if n > BUFFER_SIZE then None
              else do {
                d \<leftarrow> read_bytes (ipv4_payload i) 0 n;
                buf \<leftarrow> write_bytes (d @ replicate (BUFFER_SIZE - n) 0) 0 [0];
                buf \<leftarrow> write_bytes buf 2 (net16 0);
                let checksum = calc_checksum (take n buf);
                buf \<leftarrow> write_bytes buf 2 (net16 checksum);
                (_, lp) \<leftarrow> send_ipv4 e (ip_src i) IPV4_PROTOCOL_ICMP [(buf, word_of_nat n)] lp;
                Some (0, lp) })"

definition is_nintendo_lan_broadcast :: "ip4 \<Rightarrow> bool" where
  "is_nintendo_lan_broadcast ip \<longleftrightarrow> ip = IP4 10 255 255 255"

definition process_ipv4 :: "env \<Rightarrow> ether_frame \<Rightarrow> lan_play \<Rightarrow> (int \<times> lan_play) option" where
  "process_ipv4 e eth lp = do {
     i \<leftarrow> parse_ipv4 eth;
     let lp = ctx_arp_set e (ether_src eth) (ip_src i) lp;
     let body = ether_payload eth; let total = ip_total_len i; let c = ctx lp;
     if ip_dst i = ctx_ip c
     then if ip_protocol i = IPV4_PROTOCOL_ICMP then process_icmp e i lp else Some (0, lp)
     else if is_nintendo_lan_broadcast (ip_dst i)
     then if ingress_zerotier lp
          then send_ether e BROADCAST_MAC ETHER_TYPE_IPV4 [(body, total)] lp
          else lan_play_send_zerotier_ipv4_broadcast e body (unat total) lp
     else if IS_SUBNET (ip_dst i) (subnet_net c) (subnet_mask c)
     then if IS_BROADCAST (ip_dst i) (subnet_net c) (subnet_mask c)
          then if ingress_zerotier lp
               then send_ether e BROADCAST_MAC ETHER_TYPE_IPV4 [(body, total)] lp
               else lan_client_send_ipv4 e (ip_dst i) body (unat total) lp
          else if \<not> ingress_zerotier lp
          then lan_client_send_ipv4 e (ip_dst i) body (unat total) lp
          else if arp_has_ip (arp_table c) (now (clk e)) (ip_dst i)
          then do {
            (dst_mac, lp) \<leftarrow> arp_get_mac_by_ip e (ip_dst i) lp;
            m \<leftarrow> dst_mac;
            send_ether e m ETHER_TYPE_IPV4 [(body, total)] lp }
          else lan_client_send_ipv4 e (ip_dst i) body (unat total) lp
     else if ctx_mac c = Some (ether_dst eth)
     then do {
       f \<leftarrow> read_bytes (raw eth) 0 (raw_len eth);
       Some (0, lp\<lparr>out := out lp @ [GatewayIn f]\<rparr>) }
     else Some (0, lp) }"

section \<open>Received frames\<close>

definition process_ether :: "env \<Rightarrow> byte list \<Rightarrow> nat \<Rightarrow> lan_play \<Rightarrow> (int \<times> lan_play) option" where
  "process_ether e packet len lp = do {
     eth \<leftarrow> parse_ether packet len;
     m \<leftarrow> ctx_mac (ctx lp);
     if ether_src eth = m then Some (0, lp)
     else if ether_type eth = ETHER_TYPE_ARP then process_arp e eth lp
     else if ether_type eth = ETHER_TYPE_IPV4 then process_ipv4 e eth lp
     else Some (0, lp) }"

text \<open>\<^verbatim>\<open>print_packet\<close> prints \<^verbatim>\<open>pkthdr->len\<close> bytes, the length on the wire, of the captured ones.\<close>

definition print_packet :: "byte list \<Rightarrow> nat \<Rightarrow> lan_play \<Rightarrow> lan_play option" where
  "print_packet packet len lp = do { _ \<leftarrow> read_bytes packet 0 len; Some lp }"

definition get_packet :: "env \<Rightarrow> byte list \<Rightarrow> nat \<Rightarrow> lan_play \<Rightarrow> lan_play option" where
  "get_packet e packet len lp =
     (if len \<ge> 65536 then print_packet packet len lp
      else do {
        let c = ctx lp;
        let lp = lp\<lparr>ctx := c\<lparr>download_packet := download_packet c + 1,
                            download_byte := download_byte c + word_of_nat len\<rparr>\<rparr>;
        (ret, lp) \<leftarrow> process_ether e packet len lp;
        if ret \<noteq> 0 then print_packet packet len lp else Some lp })"

text \<open>\<^verbatim>\<open>lan_play_gateway_send_packet\<close>: an IPv4 packet of the lwIP gateway for a local host.\<close>

definition lan_play_gateway_send_packet ::
  "env \<Rightarrow> byte list \<Rightarrow> u16 \<Rightarrow> lan_play \<Rightarrow> (int \<times> lan_play) option" where
  "lan_play_gateway_send_packet e data len lp = do {
     dst \<leftarrow> CPY_IPV4 data IPV4_OFF_DST;
     (dst_mac, lp) \<leftarrow> arp_get_mac_by_ip e dst lp;
     case dst_mac of
       None \<Rightarrow> Some (0, lp)
     | Some m \<Rightarrow> send_ether e m ETHER_TYPE_IPV4 [(data, len)] lp }"

section \<open>Lemmas on sending\<close>

lemma gather_payload_fits:
  "payload_ok ps \<Longrightarrow> length acc + length (payload_bytes ps) < blen \<Longrightarrow>
     gather_payload blen acc ps = Some (Some (acc @ payload_bytes ps))"
proof (induction ps arbitrary: acc)
  case (Cons pl ps)
  obtain p l where pl: "pl = (p, l)" by force
  have "window p 0 (unat l) = take (unat l) p" by (simp add: window_def)
  then show ?case using Cons by (simp add: pl read_bytes_Some)
qed simp

lemma gather_payload_too_big:
  "payload_ok ps \<Longrightarrow> blen \<le> length acc + length (payload_bytes ps) \<Longrightarrow> ps \<noteq> [] \<Longrightarrow>
     gather_payload blen acc ps = Some None"
proof (induction ps arbitrary: acc)
  case (Cons pl ps)
  obtain p l where pl: "pl = (p, l)" by force
  have w: "window p 0 (unat l) = take (unat l) p" by (simp add: window_def)
  show ?case using Cons w by (cases ps) (auto simp: pl read_bytes_Some)
qed simp

lemma part_simps [simp]:
  assumes "length b < 65536"
  shows "payload_bytes (part b # ps) = b @ payload_bytes ps" "payload_ok (part b # ps) \<longleftrightarrow> payload_ok ps"
proof -
  have "unat (word_of_nat (length b) :: u16) = length b" using assms by (rule unat_of_nat_16)
  then show "payload_bytes (part b # ps) = b @ payload_bytes ps" "payload_ok (part b # ps) \<longleftrightarrow> payload_ok ps"
    by (simp_all add: part_def)
qed

lemma core_ctx_counters [simp]:
  "core (lp\<lparr>ctx := (ctx lp)\<lparr>upload_packet := a, upload_byte := b\<rparr>\<rparr>) = core lp"
  "core (lp\<lparr>ctx := (ctx lp)\<lparr>download_packet := a, download_byte := b\<rparr>\<rparr>) = core lp"
  "core (lp\<lparr>ctx := (ctx lp)\<lparr>identification := i\<rparr>\<rparr>) = core lp"
  by (simp_all add: core_def ctx_core_def)

lemma io_ok_ctx [simp]: "io_ok (lp\<lparr>ctx := c\<rparr>) = io_ok lp"
  by (simp add: io_ok_def all_sides link_of_def hw_addr_def)

lemma send_ether_sent:
  assumes "io_ok lp" "ctx_mac (ctx lp) = Some m" "payload_ok ps"
    and "14 + length (payload_bytes ps) < buffer_len (ctx lp)"
  shows "\<exists>r lp'. send_ether e dst t ps lp = Some (r, lp') \<and>
    sent WiFi (ether_bytes dst (wifi_mac lp) t (payload_bytes ps)) r lp lp'"
proof -
  let ?h = "mac_bytes dst @ mac_bytes m @ net16 t"
  let ?c = "(ctx lp)\<lparr>upload_packet := upload_packet (ctx lp) + 1,
      upload_byte := upload_byte (ctx lp) + word_of_nat (14 + length (payload_bytes ps))\<rparr>"
  have g: "gather_payload (buffer_len (ctx lp)) [] (part ?h # ps) = Some (Some (ether_bytes dst m t (payload_bytes ps)))"
    using assms gather_payload_fits [of "part ?h # ps" "[]" "buffer_len (ctx lp)"]
    by (simp add: ether_bytes_def)
  have "io_ok (lp\<lparr>ctx := ?c\<rparr>)" using assms(1) by simp
  from wifi_link.transmits_ether [OF this, of e dst m t "payload_bytes ps"] show ?thesis
    using assms g by (simp add: send_ether_def send_ether_ex_def send_payloads_def sent_def hw_addr_def Let_def)
qed

text \<open>
  The hit and the miss of \<^verbatim>\<open>arp_get_mac_by_ip\<close>: on a miss one ARP request for the address goes out.
\<close>

lemma arp_get_mac_hit:
  "arp_lookup (arp_table (ctx lp)) (now (clk e)) ip = Some m \<Longrightarrow>
     arp_get_mac_by_ip e ip lp = Some (Some m, lp)"
  by (simp add: arp_get_mac_by_ip_def)

lemma arp_get_mac_miss:
  assumes "arp_lookup (arp_table (ctx lp)) (now (clk e)) ip = None"
    and "io_ok lp" "ctx_mac (ctx lp) = Some m" "42 < buffer_len (ctx lp)"
  shows "\<exists>r lp'. arp_get_mac_by_ip e ip lp = Some (None, lp') \<and>
    sent WiFi (ether_bytes BROADCAST_MAC (wifi_mac lp) ETHER_TYPE_ARP
      (arp_body ARP_OPCODE_REQUEST m (ctx_ip (ctx lp)) NONE_MAC ip)) r lp lp'"
proof -
  let ?b = "arp_body ARP_OPCODE_REQUEST m (ctx_ip (ctx lp)) NONE_MAC ip"
  have "\<exists>r lp'. send_ether e BROADCAST_MAC ETHER_TYPE_ARP [part ?b] lp = Some (r, lp') \<and>
    sent WiFi (ether_bytes BROADCAST_MAC (wifi_mac lp) ETHER_TYPE_ARP ?b) r lp lp'"
    using send_ether_sent [OF assms(2,3), of "[part ?b]" e BROADCAST_MAC ETHER_TYPE_ARP] assms(4) by simp
  then show ?thesis
    using assms by (auto simp: arp_get_mac_by_ip_def send_arp_request_def send_arp_ex_def)
qed

section \<open>Safety\<close>

text \<open>
  The invariant of a running relay, and what every step of it may do: it stays in the invariant, keeps
  the adapters' addresses, and appends outputs whose frames carry the address of the adapter they
  leave on.
\<close>

definition relay_ok :: "lan_play \<Rightarrow> bool" where
  "relay_ok lp \<longleftrightarrow> io_ok lp \<and> buffer_len (ctx lp) = BUFFER_SIZE \<and> ctx_mac (ctx lp) \<noteq> None"

fun event_own :: "lan_play \<Rightarrow> event \<Rightarrow> bool" where
  "event_own lp (Tx s i f r) \<longleftrightarrow> 14 \<le> length f \<and> mac_at f 6 = hw_addr s lp"
| "event_own lp (GatewayIn f) \<longleftrightarrow> True"
| "event_own lp (ServerUdp f r) \<longleftrightarrow> True"

text \<open>The network configuration, and the console the relay serves.\<close>

definition config :: "lan_play \<Rightarrow> _" where
  "config lp = (ctx_ip (ctx lp), subnet_net (ctx lp), subnet_mask (ctx lp), wifi_ip lp, wifi_netmask lp,
     wifi_subnet lp, wifi_broadcast lp, wifi_subnet_known lp, zerotier_ip lp, zerotier_netmask lp,
     zerotier_broadcast_ip lp)"

definition console :: "lan_play \<Rightarrow> bool \<times> ip4 \<times> mac \<times> bool" where
  "console lp = (switch_seen lp, switch_ip lp, switch_mac lp, switch_mac_confirmed lp)"

definition still :: "lan_play \<Rightarrow> _" where
  "still lp = (config lp, console lp, dhcp_state lp, udp_guard lp)"

text \<open>An advance that leaves the part \<open>K\<close> of the state as it is and does not forget that the delivery probe was sent.\<close>

definition advance :: "(lan_play \<Rightarrow> 'k) \<Rightarrow> lan_play \<Rightarrow> lan_play \<Rightarrow> bool" where
  "advance K lp lp' \<longleftrightarrow> relay_ok lp' \<and> K lp' = K lp \<and> (\<forall>s. hw_addr s lp' = hw_addr s lp) \<and>
     (wifi_delivery_probe_sent lp \<longrightarrow> wifi_delivery_probe_sent lp') \<and>
     (\<exists>evs. out lp' = out lp @ evs \<and> (\<forall>ev \<in> set evs. event_own lp ev))"

abbreviation progress :: "lan_play \<Rightarrow> lan_play \<Rightarrow> bool" where
  "progress \<equiv> advance still"

definition safe :: "(lan_play \<Rightarrow> ('r \<times> lan_play) option) \<Rightarrow> lan_play \<Rightarrow> bool" where
  "safe f lp \<longleftrightarrow> (\<exists>r lp'. f lp = Some (r, lp') \<and> progress lp lp')"

lemma progress_refl: "relay_ok lp \<Longrightarrow> advance K lp lp"
  by (simp add: advance_def)

lemma event_own_cong: "(\<forall>s. hw_addr s lp' = hw_addr s lp) \<Longrightarrow> event_own lp' ev = event_own lp ev"
  by (cases ev) simp_all

lemma progress_trans: "advance K a b \<Longrightarrow> advance K b c \<Longrightarrow> advance K a c"
  unfolding advance_def using event_own_cong [of b a] by auto

lemma progress_ok: "advance K lp lp' \<Longrightarrow> relay_ok lp'"
  by (simp add: advance_def)

lemma advance_weaken: "advance K lp lp' \<Longrightarrow> (\<And>a b. K a = K b \<Longrightarrow> L a = L b) \<Longrightarrow> advance L lp lp'"
  unfolding advance_def by blast

lemma advance_same: "advance K lp lp' \<Longrightarrow> K lp' = K lp"
  by (simp add: advance_def)

lemmas still_defs = still_def config_def console_def

lemma safeI: "f lp = Some (r, lp') \<Longrightarrow> progress lp lp' \<Longrightarrow> safe f lp"
  by (auto simp: safe_def)

lemma safeE: "safe f lp \<Longrightarrow> (\<And>r lp'. f lp = Some (r, lp') \<Longrightarrow> progress lp lp' \<Longrightarrow> P) \<Longrightarrow> P"
  by (auto simp: safe_def)

lemma safe_return: "relay_ok lp \<Longrightarrow> safe (\<lambda>lp. Some (r, lp)) lp"
  by (auto simp: safe_def intro: progress_refl)

lemma sent_progress:
  assumes "sent s (ether_bytes d (hw_addr s lp) t b) r lp lp'" "relay_ok lp"
  shows "progress lp lp'"
proof -
  have c: "core lp' = core lp" using assms by (simp add: sent_def)
  show ?thesis
    using assms ctx_fields [OF c] core_fields [OF c]
    by (simp add: advance_def relay_ok_def sent_def still_defs)
qed

lemma hw_simps: "hw_addr WiFi lp = wifi_mac lp" "hw_addr ZeroTier lp = zerotier_mac lp"
  by (simp_all add: hw_addr_def)

lemma progress_ctx:
  "relay_ok lp \<Longrightarrow> buffer_len c = buffer_len (ctx lp) \<Longrightarrow> ctx_mac c \<noteq> None \<Longrightarrow> ctx_ip c = ctx_ip (ctx lp) \<Longrightarrow>
     subnet_net c = subnet_net (ctx lp) \<Longrightarrow> subnet_mask c = subnet_mask (ctx lp) \<Longrightarrow> progress lp (lp\<lparr>ctx := c\<rparr>)"
  by (simp add: advance_def relay_ok_def hw_addr_def all_sides still_defs)

lemma safe_send_ether:
  assumes "relay_ok lp" "payload_ok ps" "length (payload_bytes ps) < 2034"
  shows "safe (send_ether e dst t ps) lp"
proof -
  obtain m where "ctx_mac (ctx lp) = Some m" using assms by (auto simp: relay_ok_def)
  then show ?thesis
    using send_ether_sent [of lp m ps e dst t] sent_progress [of WiFi dst lp t "payload_bytes ps"] assms
    by (auto simp: relay_ok_def hw_simps safe_def)
qed

lemma safe_send_arp_ex: "relay_ok lp \<Longrightarrow> safe (send_arp_ex e d op sm si tm ti) lp"
  using safe_send_ether [of lp "[part (arp_body (ucast op) sm si tm ti)]" e d] 
  by (simp add: send_arp_ex_def safe_def)

lemma safe_arp_get_mac: "relay_ok lp \<Longrightarrow> safe (arp_get_mac_by_ip e ip) lp"
proof -
  assume ok: "relay_ok lp"
  then obtain m where m: "ctx_mac (ctx lp) = Some m" by (auto simp: relay_ok_def)
  have "safe (send_arp_ex e BROADCAST_MAC 1 m (ctx_ip (ctx lp)) NONE_MAC ip) lp"
    by (rule safe_send_arp_ex [OF ok])
  then show ?thesis using m progress_refl [OF ok]
    by (auto simp: arp_get_mac_by_ip_def send_arp_request_def safe_def split: option.split)
qed

lemma length_ipv4_header [simp]: "length (ipv4_header t i p c s d) = 20"
  by (simp add: ipv4_header_def)

lemma safe_send_ipv4_ex:
  assumes ok: "relay_ok lp" and ps: "payload_ok ps" "length (payload_bytes ps) < 2014"
  shows "safe (send_ipv4_ex e src dst proto ps) lp"
proof -
  let ?lp = "lp\<lparr>ctx := (ctx lp)\<lparr>identification := identification (ctx lp) + 1\<rparr>\<rparr>"
  have p0: "progress lp ?lp" using ok by (intro progress_ctx) (simp_all add: relay_ok_def)
  obtain dm lp1 where 1: "arp_get_mac_by_ip e dst ?lp = Some (dm, lp1)" "progress ?lp lp1"
    using safe_arp_get_mac [OF progress_ok [OF p0]] by (blast elim: safeE)
  have p1: "progress lp lp1" by (rule progress_trans [OF p0 1(2)])
  show ?thesis
  proof (cases dm)
    case None
    then show ?thesis using 1 p1 by (intro safeI [OF _ p1]) (simp add: send_ipv4_ex_def Let_def)
  next
    case (Some m)
    let ?total = "20 + payload_total_len ps" and ?id = "identification (ctx lp)"
    let ?h = "ipv4_header ?total ?id proto (calc_checksum (ipv4_header ?total ?id proto 0 src dst)) src dst"
    have "safe (send_ether e m ETHER_TYPE_IPV4 (part ?h # ps)) lp1"
      using ps by (intro safe_send_ether progress_ok [OF p1]) simp_all
    then obtain r lp2 where 2: "send_ether e m ETHER_TYPE_IPV4 (part ?h # ps) lp1 = Some (r, lp2)" "progress lp1 lp2"
      by (rule safeE)
    show ?thesis
      using 1 2 Some by (intro safeI [OF _ progress_trans [OF p1 2(2)]]) (simp add: send_ipv4_ex_def Let_def)
  qed
qed

lemma safe_zerotier_arp: "relay_ok lp \<Longrightarrow> safe (lan_play_send_zerotier_arp e si ti) lp"
  using send_zerotier_arp_sent [of lp e si ti] sent_progress [of ZeroTier _ lp]
  by (auto simp: safe_def relay_ok_def hw_simps)

lemma safe_zerotier_arp_reply: "relay_ok lp \<Longrightarrow> safe (lan_play_send_zerotier_arp_reply e m t si) lp"
  using send_zerotier_arp_reply_sent [of lp e m t si] sent_progress [of ZeroTier _ lp]
  by (auto simp: safe_def relay_ok_def hw_simps)

lemma safe_zerotier_broadcast:
  assumes "relay_ok lp" "n \<le> length p"
  shows "safe (lan_play_send_zerotier_ipv4_broadcast e p n) lp"
proof (cases "n < 20 \<or> n > 1500")
  case True
  then show ?thesis using assms
    by (auto simp: lan_play_send_zerotier_ipv4_broadcast_def safe_def intro: progress_refl)
next
  case False
  then show ?thesis
    using send_zerotier_broadcast_sent [of lp n p e] sent_progress [of ZeroTier _ lp] assms
    by (auto simp: safe_def relay_ok_def hw_simps)
qed

lemma safe_zerotier_ipv4:
  assumes ok: "relay_ok lp" and n: "n \<le> length p"
  shows "safe (lan_play_send_zerotier_ipv4 e ip p n) lp"
proof (cases "n < 20 \<or> n > 1500")
  case True
  then show ?thesis using assms
    by (auto simp: lan_play_send_zerotier_ipv4_def safe_def intro: progress_refl)
next
  case False
  show ?thesis
  proof (cases "neighbor_get_mac e ip lp")
    case None
    obtain r1 lp1 where 1: "lan_play_send_zerotier_arp e (zerotier_ip lp) ip lp = Some (r1, lp1)" "progress lp lp1"
      using safe_zerotier_arp [OF ok] by (blast elim: safeE)
    obtain r lp2 where 2: "lan_play_send_zerotier_ipv4_broadcast e p n lp1 = Some (r, lp2)" "progress lp1 lp2"
      using safe_zerotier_broadcast [OF progress_ok [OF 1(2)] n] by (blast elim: safeE)
    show ?thesis using False None 1 2
      by (intro safeI [OF _ progress_trans [OF 1(2) 2(2)]])
        (simp add: lan_play_send_zerotier_ipv4_def arp_has_ip_lookup neighbor_get_mac_def)
  next
    case (Some m)
    then show ?thesis
      using send_zerotier_ipv4_known [of lp n p e ip m] sent_progress [of ZeroTier _ lp] assms False
      by (auto simp: safe_def relay_ok_def hw_simps)
  qed
qed

lemma progress_arp_set: "relay_ok lp \<Longrightarrow> progress lp (ctx_arp_set e m ip lp)"
  unfolding ctx_arp_set_def by (rule progress_ctx) (simp_all add: relay_ok_def)

lemma ctx_arp_set_fields [simp]:
  "ingress_zerotier (ctx_arp_set e m ip lp) = ingress_zerotier lp"
  "ctx_mac (ctx (ctx_arp_set e m ip lp)) = ctx_mac (ctx lp)"
  "ctx_ip (ctx (ctx_arp_set e m ip lp)) = ctx_ip (ctx lp)"
  "subnet_net (ctx (ctx_arp_set e m ip lp)) = subnet_net (ctx lp)"
  "subnet_mask (ctx (ctx_arp_set e m ip lp)) = subnet_mask (ctx lp)"
  "zerotier_ip (ctx_arp_set e m ip lp) = zerotier_ip lp"
  "wifi_mac (ctx_arp_set e m ip lp) = wifi_mac lp"
  "out (ctx_arp_set e m ip lp) = out lp"
  by (simp_all add: ctx_arp_set_def)

lemma safe_arp_request:
  assumes ok: "relay_ok lp"
  shows "safe (arp_request e a) lp"
proof -
  have answer: "safe (\<lambda>lp. do { m \<leftarrow> ctx_mac (ctx lp); send_arp e 2 m (target_ip a) (sender_mac a) (sender_ip a) lp }) lp1"
    if "relay_ok lp1" for lp1
    using safe_send_arp_ex [OF that, of e "sender_mac a" 2 _ "target_ip a" "sender_mac a" "sender_ip a"] that
    by (auto simp: send_arp_def safe_def relay_ok_def)
  obtain r1 lp1 where 1: "lan_play_send_zerotier_arp e (sender_ip a) (target_ip a) lp = Some (r1, lp1)" "progress lp lp1"
    using safe_zerotier_arp [OF ok] by (blast elim: safeE)
  obtain r2 lp2 where 2: "do { m \<leftarrow> ctx_mac (ctx lp1); send_arp e 2 m (target_ip a) (sender_mac a) (sender_ip a) lp1 } = Some (r2, lp2)"
    "progress lp1 lp2" using answer [OF progress_ok [OF 1(2)]] by (blast elim: safeE)
  show ?thesis
    using answer [OF ok] safe_zerotier_arp_reply [OF ok, of e "sender_mac a" "target_ip a" "sender_ip a"]
      progress_trans [OF 1(2) 2(2)] progress_refl [OF ok] 1 2
    by (auto simp: arp_request_def safe_def)
qed

lemma parse_ether_Some:
  "14 \<le> length p \<Longrightarrow> parse_ether p n = Some \<lparr>raw = p, raw_len = n, ether_dst = mac_at p 0,
     ether_src = mac_at p 6, ether_type = be16 (p ! 12) (p ! 13)\<rparr>"
  by (simp add: parse_ether_def checked_access)

lemma parse_arp_Some:
  assumes "42 \<le> length (raw eth)"
  defines "p \<equiv> drop 14 (raw eth)"
  shows "parse_arp eth = Some \<lparr>hardware_type = be16 (p ! 0) (p ! 1), protocol_type = be16 (p ! 2) (p ! 3),
     hardware_size = p ! 4, protocol_size = p ! 5, opcode = be16 (p ! 6) (p ! 7),
     sender_mac = mac_at p 8, sender_ip = ip_at p 14, target_mac = mac_at p 18, target_ip = ip_at p 24\<rparr>"
  using assms by (simp add: parse_arp_def ether_payload_def checked_access Let_def)

lemma parse_ipv4_Some:
  assumes "34 \<le> length (raw eth)"
  shows "\<exists>i. parse_ipv4 eth = Some i \<and> ip_ether i = eth \<and> ip_hlen i = header_len (raw eth ! 14) \<and>
    ip_total_len i = be16 (raw eth ! 16) (raw eth ! 17) \<and> ip_protocol i = raw eth ! 23 \<and>
    ip_src i = ip_at (drop 14 (raw eth)) 12 \<and> ip_dst i = ip_at (drop 14 (raw eth)) 16"
proof -
  have "drop 14 (raw eth) \<noteq> []" using assms by simp
  then show ?thesis using assms by (simp add: parse_ipv4_def ether_payload_def checked_access Let_def)
qed

lemma safe_process_arp:
  assumes ok: "relay_ok lp" and len: "42 \<le> length (raw eth)"
  shows "safe (process_arp e eth) lp"
proof -
  obtain a where a: "parse_arp eth = Some a" using parse_arp_Some [OF len] by blast
  let ?lp = "ctx_arp_set e (sender_mac a) (sender_ip a) lp"
  have p: "progress lp ?lp" by (rule progress_arp_set [OF ok])
  obtain r lp' where "arp_request e a ?lp = Some (r, lp')" "progress ?lp lp'"
    using safe_arp_request [OF progress_ok [OF p]] by (blast elim: safeE)
  then show ?thesis
    using a p progress_trans [OF p] progress_refl [OF ok]
    by (auto simp: process_arp_def arp_reply_def safe_def Let_def)
qed

lemma safe_process_icmp:
  assumes ok: "relay_ok lp" and len: "ip_hlen i \<le> unat (ip_total_len i)"
    "unat (ip_total_len i) \<le> length (ether_payload (ip_ether i))" "unat (ip_total_len i) \<le> 1500"
  shows "safe (process_icmp e i) lp"
proof -
  define n where "n = unat (ip_total_len i) - ip_hlen i"
  define d where "d = window (ipv4_payload i) 0 n"
  let ?b1 = "patch (patch (d @ replicate (2048 - n) 0) 0 [0]) 2 (net16 0)"
  define b2 where "b2 = patch ?b1 2 (net16 (calc_checksum (take n ?b1)))"
  have n: "n \<le> 1500" "n \<le> length (ipv4_payload i)" using len by (simp_all add: n_def ipv4_payload_def)
  then have d: "length d = n" by (simp add: d_def)
  have b2: "length b2 = 2048" using d n by (simp add: b2_def)
  have un: "unat (word_of_nat n :: u16) = n" using n by (intro unat_of_nat_16) simp
  have "payload_ok [(b2, word_of_nat n)]" "length (payload_bytes [(b2, word_of_nat n)]) < 2014"
    using n b2 un by (simp_all add: payload_ok_def payload_bytes_def)
  then obtain r lp' where s: "send_ipv4 e (ip_src i) IPV4_PROTOCOL_ICMP [(b2, word_of_nat n)] lp = Some (r, lp')" "progress lp lp'"
    unfolding send_ipv4_def using safe_send_ipv4_ex [OF ok] by (blast elim: safeE)
  have "process_icmp e i lp = Some (0, lp')"
    using len n d s by (simp add: process_icmp_def n_def [symmetric] d_def [symmetric] b2_def [symmetric]
        read_bytes_Some write_bytes_Some Let_def)
  then show ?thesis using s(2) by (rule safeI)
qed

text \<open>What the dispatcher needs of an IPv4 frame: the length field is covered by the capture.\<close>

definition ipv4_fits :: "byte list \<Rightarrow> bool" where
  "ipv4_fits p \<longleftrightarrow> 34 \<le> length p \<and> header_len (p ! 14) \<le> unat (be16 (p ! 16) (p ! 17)) \<and>
     unat (be16 (p ! 16) (p ! 17)) \<le> length p - 14"

lemma safe_process_ipv4:
  assumes ok: "relay_ok lp" and fits: "ipv4_fits (raw eth)" "length (raw eth) \<le> 1514"
    and len: "raw_len eth \<le> length (raw eth)"
  shows "safe (process_ipv4 e eth) lp"
proof -
  obtain i where i: "parse_ipv4 eth = Some i" "ip_ether i = eth" "ip_hlen i = header_len (raw eth ! 14)"
    "ip_total_len i = be16 (raw eth ! 16) (raw eth ! 17)"
    using parse_ipv4_Some [of eth] fits by (auto simp: ipv4_fits_def)
  let ?lp = "ctx_arp_set e (ether_src eth) (ip_src i) lp" and ?b = "ether_payload eth" and ?t = "ip_total_len i"
  have p: "progress lp ?lp" by (rule progress_arp_set [OF ok])
  note ok1 = progress_ok [OF p]
  have t: "unat ?t \<le> length ?b" "unat ?t \<le> 1500" "ip_hlen i \<le> unat ?t"
    using fits i by (auto simp: ipv4_fits_def ether_payload_def)
  have icmp: "safe (process_icmp e i) ?lp" using ok1 t i by (intro safe_process_icmp) simp_all
  have ether: "safe (send_ether e m ETHER_TYPE_IPV4 [(?b, ?t)]) ?lp" for m
    using ok1 t by (intro safe_send_ether) (simp_all add: payload_ok_def payload_bytes_def)
  have bc: "safe (lan_play_send_zerotier_ipv4_broadcast e ?b (unat ?t)) ?lp"
    using ok1 t by (intro safe_zerotier_broadcast)
  have zt: "safe (lan_play_send_zerotier_ipv4 e (ip_dst i) ?b (unat ?t)) ?lp"
    using ok1 t by (intro safe_zerotier_ipv4)
  have gw: "progress ?lp (?lp\<lparr>out := out lp @ [GatewayIn (window (raw eth) 0 (raw_len eth))]\<rparr>)"
    using ok1 by (simp add: advance_def relay_ok_def io_ok_def all_sides hw_addr_def link_of_def still_defs)
  have hit: "arp_get_mac_by_ip e (ip_dst i) ?lp = Some (Some m, ?lp)"
    if "arp_lookup (arp_table (ctx ?lp)) (now (clk e)) (ip_dst i) = Some m" for m
    using that by (rule arp_get_mac_hit)
  have "safe (\<lambda>_. process_ipv4 e eth lp) ?lp"
    using icmp ether bc zt gw hit progress_refl [OF ok1] i len
    by (auto simp: process_ipv4_def safe_def lan_client_send_ipv4_def arp_has_ip_lookup read_bytes_Some Let_def)
  then show ?thesis using progress_trans [OF p] by (auto simp: safe_def)
qed

lemma safe_process_ether:
  assumes ok: "relay_ok lp" and len: "14 \<le> length p" "length p \<le> 1514" "n \<le> length p"
    and arp: "be16 (p ! 12) (p ! 13) = ETHER_TYPE_ARP \<Longrightarrow> 42 \<le> length p"
    and ip: "be16 (p ! 12) (p ! 13) = ETHER_TYPE_IPV4 \<Longrightarrow> ipv4_fits p"
  shows "safe (process_ether e p n) lp"
proof -
  obtain m where m: "ctx_mac (ctx lp) = Some m" using ok by (auto simp: relay_ok_def)
  let ?eth = "\<lparr>raw = p, raw_len = n, ether_dst = mac_at p 0, ether_src = mac_at p 6,
     ether_type = be16 (p ! 12) (p ! 13)\<rparr>"
  have "safe (process_arp e ?eth) lp" if "be16 (p ! 12) (p ! 13) = ETHER_TYPE_ARP"
    using arp [OF that] by (intro safe_process_arp [OF ok]) simp
  moreover have "safe (process_ipv4 e ?eth) lp" if "be16 (p ! 12) (p ! 13) = ETHER_TYPE_IPV4"
    using ip [OF that] len by (intro safe_process_ipv4 [OF ok]) simp_all
  ultimately show ?thesis
    using parse_ether_Some [OF len(1), of n] m progress_refl [OF ok]
    by (auto simp: process_ether_def safe_def)
qed

lemma get_packet_progress:
  assumes ok: "relay_ok lp" and len: "14 \<le> length p" "length p \<le> 1514" "n = length p"
    and arp: "be16 (p ! 12) (p ! 13) = ETHER_TYPE_ARP \<Longrightarrow> 42 \<le> length p"
    and ip: "be16 (p ! 12) (p ! 13) = ETHER_TYPE_IPV4 \<Longrightarrow> ipv4_fits p"
  shows "\<exists>lp'. get_packet e p n lp = Some lp' \<and> progress lp lp'"
proof -
  let ?c = "(ctx lp)\<lparr>download_packet := download_packet (ctx lp) + 1,
      download_byte := download_byte (ctx lp) + word_of_nat n\<rparr>"
  have p: "progress lp (lp\<lparr>ctx := ?c\<rparr>)" using ok by (intro progress_ctx) (simp_all add: relay_ok_def)
  obtain r lp' where "process_ether e p n (lp\<lparr>ctx := ?c\<rparr>) = Some (r, lp')" "progress (lp\<lparr>ctx := ?c\<rparr>) lp'"
    using safe_process_ether [OF progress_ok [OF p] len(1,2) _ arp ip, of n e] len by (auto elim: safeE)
  then show ?thesis
    using len progress_trans [OF p]
    by (auto simp: get_packet_def print_packet_def read_bytes_Some Let_def)
qed

end
