(* ===== verification/Dhcp_Server.thy ===== *)
theory Dhcp_Server
  imports Packet
begin

text \<open>
  The DHCP server of \<^verbatim>\<open>src/dhcp-server.c\<close>: a table of eight leases, the choice of an address, the reply
  packet, the parser of client packets and \<^verbatim>\<open>dhcp_server_consume\<close>.  A pointer to a lease is its index in
  the table.
\<close>

section \<open>Leases\<close>

abbreviation (input) DHCP_LEASE_COUNT :: nat where "DHCP_LEASE_COUNT \<equiv> 8"
abbreviation (input) DHCP_LEASE_TIME :: int where "DHCP_LEASE_TIME \<equiv> 3600"
abbreviation (input) DHCP_OFFER_TIME :: int where "DHCP_OFFER_TIME \<equiv> 120"
abbreviation (input) DHCP_MSG_DISCOVER :: byte where "DHCP_MSG_DISCOVER \<equiv> 1"
abbreviation (input) DHCP_MSG_OFFER :: byte where "DHCP_MSG_OFFER \<equiv> 2"
abbreviation (input) DHCP_MSG_REQUEST :: byte where "DHCP_MSG_REQUEST \<equiv> 3"
abbreviation (input) DHCP_MSG_ACK :: byte where "DHCP_MSG_ACK \<equiv> 5"
abbreviation (input) DHCP_MSG_NAK :: byte where "DHCP_MSG_NAK \<equiv> 6"
abbreviation (input) DHCP_MSG_RELEASE :: byte where "DHCP_MSG_RELEASE \<equiv> 7"

definition no_lease :: dhcp_lease where
  "no_lease = \<lparr>lease_mac = NONE_MAC, lease_ip = NONE_IP, expires = 0, offered = False, used = False\<rparr>"

definition dhcp_server_init :: dhcp_server_state where
  "dhcp_server_init = \<lparr>leases = replicate DHCP_LEASE_COUNT no_lease, offers_sent = 0, acks_sent = 0,
     naks_sent = 0, ignored_non_nintendo = 0, lost_races = 0\<rparr>"

definition dhcp_sweep_expired :: "int \<Rightarrow> dhcp_lease list \<Rightarrow> dhcp_lease list" where
  "dhcp_sweep_expired t ls = map (\<lambda>l. if used l \<and> expires l \<le> t then no_lease else l) ls"

fun find_index :: "('a \<Rightarrow> bool) \<Rightarrow> 'a list \<Rightarrow> nat option" where
  "find_index P [] = None"
| "find_index P (x # xs) = (if P x then Some 0 else map_option Suc (find_index P xs))"

definition dhcp_find_mac :: "mac \<Rightarrow> dhcp_lease list \<Rightarrow> nat option" where
  "dhcp_find_mac m ls = find_index (\<lambda>l. used l \<and> lease_mac l = m) ls"

definition lease_taken :: "int \<Rightarrow> ip4 \<Rightarrow> dhcp_lease list \<Rightarrow> bool" where
  "lease_taken t ip ls \<longleftrightarrow> (\<exists>l \<in> set ls. used l \<and> expires l > t \<and> lease_ip l = ip)"

definition lease_taken_by_other :: "int \<Rightarrow> ip4 \<Rightarrow> mac \<Rightarrow> dhcp_lease list \<Rightarrow> bool" where
  "lease_taken_by_other t ip m ls \<longleftrightarrow>
     (\<exists>l \<in> set ls. used l \<and> expires l > t \<and> lease_ip l = ip \<and> lease_mac l \<noteq> m)"

text \<open>The loop over the candidates below the broadcast address.\<close>

function pick_loop :: "env \<Rightarrow> lan_play \<Rightarrow> u32 \<Rightarrow> u32 \<Rightarrow> u32 \<Rightarrow> ip4 option" where
  "pick_loop e lp net bcast cand =
     (if cand > net \<and> bcast - cand \<le> 24
      then let ip = u32_to_ipv4 cand; t = now (clk e)
           in if cand = ipv4_to_u32 (ctx_ip (ctx lp)) \<or> cand = ipv4_to_u32 (zerotier_ip lp)
              then pick_loop e lp net bcast (cand - 1)
              else if switch_seen lp \<and> ip = switch_ip lp then pick_loop e lp net bcast (cand - 1)
              else if arp_has_ip (arp_table (ctx lp)) t ip then pick_loop e lp net bcast (cand - 1)
              else if lease_taken t ip (leases (dhcp_state lp)) then pick_loop e lp net bcast (cand - 1)
              else Some ip
      else None)"
  by pat_completeness auto

lemma pick_loop_decreases: "net < cand \<Longrightarrow> unat (cand - 1) < unat (cand :: u32)"
proof -
  assume "net < cand"
  then have "unat cand \<noteq> 0" by (auto simp: word_less_nat_alt)
  then show ?thesis by (simp add: unat_minus_one unat_eq_zero [symmetric] del: unat_eq_zero)
qed

termination pick_loop
  by (relation "measure (\<lambda>(e, lp, net, bcast, cand). unat cand)") (auto intro: pick_loop_decreases)

declare pick_loop.simps [simp del]

definition dhcp_pick_ip :: "env \<Rightarrow> mac \<Rightarrow> lan_play \<Rightarrow> ip4 option" where
  "dhcp_pick_ip e m lp =
     (let ls = leases (dhcp_state lp); t = now (clk e);
          own = (case dhcp_find_mac m ls of
                   Some i \<Rightarrow> if expires (ls ! i) > t then Some (lease_ip (ls ! i)) else None
                 | None \<Rightarrow> None)
      in case own of
           Some ip \<Rightarrow> Some ip
         | None \<Rightarrow>
             let net = ipv4_to_u32 (zerotier_ip lp) AND ipv4_to_u32 (zerotier_netmask lp);
                 bcast = ipv4_to_u32 (zerotier_broadcast_ip lp);
                 ip = u32_to_ipv4 (ipv4_to_u32 (zerotier_ip lp))
             in if \<not> lease_taken_by_other t ip m ls \<and> \<not> arp_has_ip (arp_table (ctx lp)) t ip \<and>
                   (\<not> switch_seen lp \<or> ip = switch_ip lp)
                then Some ip
                else pick_loop e lp net bcast (bcast - 1))"

definition set_leases :: "dhcp_lease list \<Rightarrow> lan_play \<Rightarrow> lan_play" where
  "set_leases ls lp = lp\<lparr>dhcp_state := (dhcp_state lp)\<lparr>leases := ls\<rparr>\<rparr>"

definition dhcp_claim :: "int \<Rightarrow> mac \<Rightarrow> ip4 \<Rightarrow> bool \<Rightarrow> lan_play \<Rightarrow> nat option \<times> lan_play" where
  "dhcp_claim t m ip offer lp =
     (let ls = leases (dhcp_state lp);
          slot = (case dhcp_find_mac m ls of
                    Some i \<Rightarrow> Some i
                  | None \<Rightarrow> find_index (\<lambda>l. \<not> used l) ls)
      in case slot of
           None \<Rightarrow> (None, lp)
         | Some i \<Rightarrow>
             (Some i, set_leases (ls[i := \<lparr>lease_mac = m, lease_ip = ip,
                expires = t + (if offer then DHCP_OFFER_TIME else DHCP_LEASE_TIME),
                offered = offer, used = True\<rparr>]) lp))"

section \<open>Replies\<close>

record dhcp_request =
  xid :: u32
  req_flags :: u16
  chaddr :: mac
  msg_type :: byte
  requested_ip :: ip4
  has_requested_ip :: bool
  server_id :: ip4
  has_server_id :: bool
  ciaddr :: ip4

definition dhcp_opt :: "byte list \<Rightarrow> nat \<Rightarrow> byte \<Rightarrow> byte list \<Rightarrow> (byte list \<times> nat) option" where
  "dhcp_opt p off code data = do {
     p \<leftarrow> write_bytes p off [code];
     p \<leftarrow> write_bytes p (off + 1) [word_of_nat (length data)];
     p \<leftarrow> write_bytes p (off + 2) data;
     Some (p, off + 2 + length data) }"

fun dhcp_opts :: "byte list \<Rightarrow> nat \<Rightarrow> (byte \<times> byte list) list \<Rightarrow> (byte list \<times> nat) option" where
  "dhcp_opts p off [] = Some (p, off)"
| "dhcp_opts p off ((code, data) # rest) = do {
     (p, off) \<leftarrow> dhcp_opt p off code data;
     dhcp_opts p off rest }"

text \<open>The options in the order the code writes them: 3600 seconds is \<^verbatim>\<open>00 00 0e 10\<close>.\<close>

definition reply_options :: "lan_play \<Rightarrow> byte \<Rightarrow> (byte \<times> byte list) list" where
  "reply_options lp mt =
     (53, [mt]) #
     (if mt \<noteq> DHCP_MSG_NAK
      then [(54, ip_bytes (ctx_ip (ctx lp))), (51, [0, 0, 14, 16]),
            (1, ip_bytes (zerotier_netmask lp)), (3, ip_bytes (ctx_ip (ctx lp))),
            (6, ip_bytes (ctx_ip (ctx lp))), (28, ip_bytes (zerotier_broadcast_ip lp))]
      else [])"

text \<open>The 300 bytes of the BOOTP message.\<close>

definition dhcp_message :: "mac \<Rightarrow> dhcp_request \<Rightarrow> byte \<Rightarrow> ip4 \<Rightarrow> lan_play \<Rightarrow> byte list option" where
  "dhcp_message dst_mac req mt yiaddr lp = do {
     let p = replicate 300 0;
     p \<leftarrow> write_bytes p 0 [2, 1, 6, 0];
     p \<leftarrow> write_bytes p 4 (net16 (ucast (drop_bit 16 (xid req))));
     p \<leftarrow> write_bytes p 6 (net16 (ucast (xid req AND 0xffff)));
     p \<leftarrow> write_bytes p 10 (net16 (req_flags req));
     p \<leftarrow> write_bytes p 16 (ip_bytes yiaddr);
     p \<leftarrow> write_bytes p 20 (ip_bytes (ctx_ip (ctx lp)));
     p \<leftarrow> write_bytes p 28 (mac_bytes dst_mac);
     p \<leftarrow> write_bytes p 236 (net16 0x6382);
     p \<leftarrow> write_bytes p 238 (net16 0x5363);
     (p, off) \<leftarrow> dhcp_opts p 240 (reply_options lp mt);
     write_bytes p off [255] }"

definition dhcp_ip_header :: "u16 \<Rightarrow> u16 \<Rightarrow> ip4 \<Rightarrow> byte list" where
  "dhcp_ip_header ident checksum src =
     [0x45, 0] @ net16 328 @ net16 ident @ [0, 0, 64, IPV4_PROTOCOL_UDP] @ net16 checksum @
     ip_bytes src @ [255, 255, 255, 255]"

definition dhcp_udp_header :: "u16 \<Rightarrow> byte list" where
  "dhcp_udp_header checksum = net16 67 @ net16 68 @ net16 308 @ net16 checksum"

definition dhcp_reply_packet ::
  "mac \<Rightarrow> dhcp_request \<Rightarrow> byte \<Rightarrow> ip4 \<Rightarrow> lan_play \<Rightarrow> byte list option" where
  "dhcp_reply_packet dst_mac req mt yiaddr lp = do {
     msg \<leftarrow> dhcp_message dst_mac req mt yiaddr lp;
     let h = dhcp_ip_header (dhcp_ip_id lp + 1);
     let src = ctx_ip (ctx lp);
     let hc = ipv4_header_checksum (h 0 src);
     uc \<leftarrow> udp_checksum (h hc src @ dhcp_udp_header 0 @ msg) 20 328;
     Some (h hc src @ dhcp_udp_header uc @ msg) }"

definition dhcp_send_reply ::
  "env \<Rightarrow> mac \<Rightarrow> dhcp_request \<Rightarrow> byte \<Rightarrow> ip4 \<Rightarrow> lan_play \<Rightarrow> (int \<times> lan_play) option" where
  "dhcp_send_reply e dst_mac req mt yiaddr lp = do {
     ip \<leftarrow> dhcp_reply_packet dst_mac req mt yiaddr lp;
     let lp = lp\<lparr>dhcp_ip_id := dhcp_ip_id lp + 1\<rparr>;
     lan_play_dhcp_send e BROADCAST_MAC ip 328 lp }"

section \<open>Client packets\<close>

definition empty_request :: dhcp_request where
  "empty_request = \<lparr>xid = 0, req_flags = 0, chaddr = NONE_MAC, msg_type = 0, requested_ip = NONE_IP,
     has_requested_ip = False, server_id = NONE_IP, has_server_id = False, ciaddr = NONE_IP\<rparr>"

text \<open>One option: \<open>data\<close> points behind its length byte.\<close>

definition apply_option :: "byte \<Rightarrow> nat \<Rightarrow> byte list \<Rightarrow> nat \<Rightarrow> dhcp_request \<Rightarrow> dhcp_request option" where
  "apply_option code olen dhcp at req =
     (if code = 53 \<and> olen = 1
      then do { v \<leftarrow> read8 dhcp at; Some (req\<lparr>msg_type := v\<rparr>) }
      else if code = 50 \<and> olen = 4
      then do { v \<leftarrow> CPY_IPV4 dhcp at; Some (req\<lparr>requested_ip := v, has_requested_ip := True\<rparr>) }
      else if code = 54 \<and> olen = 4
      then do { v \<leftarrow> CPY_IPV4 dhcp at; Some (req\<lparr>server_id := v, has_server_id := True\<rparr>) }
      else Some req)"

function option_loop :: "byte list \<Rightarrow> nat \<Rightarrow> nat \<Rightarrow> dhcp_request \<Rightarrow> dhcp_request option" where
  "option_loop dhcp end_off off req =
     (if off + 1 < end_off
      then do {
        code \<leftarrow> read8 dhcp off;
        if code = 255 then Some req
        else if code = 0 then option_loop dhcp end_off (off + 1) req
        else if off + 2 > end_off then Some req
        else do {
          olen \<leftarrow> read8 dhcp (off + 1);
          if off + 2 + unat olen > end_off then Some req
          else do {
            req \<leftarrow> apply_option code (unat olen) dhcp (off + 2) req;
            option_loop dhcp end_off (off + 2 + unat olen) req } } }
      else Some req)"
  by pat_completeness auto
termination
  by (relation "measure (\<lambda>(dhcp, end_off, off, req). end_off - off)") auto

declare option_loop.simps [simp del]

text \<open>\<^verbatim>\<open>dhcp_parse\<close>: \<open>Some None\<close> is the result \<^verbatim>\<open>false\<close>.\<close>

definition dhcp_parse :: "byte list \<Rightarrow> dhcp_request option option" where
  "dhcp_parse frame =
     (if length frame < ETHER_HEADER_LEN + IPV4_HEADER_LEN + UDP_OFF_END + 240 then Some None
      else do {
        type \<leftarrow> read16 frame ETHER_OFF_TYPE;
        if type \<noteq> ETHER_TYPE_IPV4 then Some None
        else do {
          let ip = drop ETHER_HEADER_LEN frame;
          b0 \<leftarrow> read8 ip 0;
          let hlen = header_len b0;
          if ip_version b0 \<noteq> 4 \<or> hlen < IPV4_HEADER_LEN then Some None
          else do {
            total \<leftarrow> read16 ip IPV4_OFF_TOTAL_LEN;
            if unat total < hlen + UDP_OFF_END \<or> unat total > length frame - ETHER_HEADER_LEN then Some None
            else do {
              proto \<leftarrow> read8 ip IPV4_OFF_PROTOCOL;
              if proto \<noteq> IPV4_PROTOCOL_UDP then Some None
              else do {
                port \<leftarrow> read16 ip (hlen + 2);
                ulen \<leftarrow> read16 ip (hlen + 4);
                if port \<noteq> 67 \<or> unat ulen < UDP_OFF_END + 240 \<or> hlen + unat ulen > unat total then Some None
                else do {
                  let dhcp = drop (hlen + UDP_OFF_END) ip;
                  head \<leftarrow> read_bytes dhcp 0 3;
                  magic1 \<leftarrow> read16 dhcp 236; magic2 \<leftarrow> read16 dhcp 238;
                  if head \<noteq> [1, 1, 6] \<or> magic1 \<noteq> 0x6382 \<or> magic2 \<noteq> 0x5363 then Some None
                  else do {
                    x1 \<leftarrow> read16 dhcp 4; x2 \<leftarrow> read16 dhcp 6; fl \<leftarrow> read16 dhcp 10;
                    ci \<leftarrow> CPY_IPV4 dhcp 12; ch \<leftarrow> CPY_MAC dhcp 28;
                    let req = empty_request\<lparr>xid := push_bit 16 (ucast x1) OR ucast x2, req_flags := fl,
                                ciaddr := ci, chaddr := ch\<rparr>;
                    req \<leftarrow> option_loop dhcp (hlen + unat ulen - UDP_OFF_END) 240 req;
                    Some (if msg_type req \<noteq> 0 then Some req else None) } } } } } } })"

section \<open>The server\<close>

definition dhcp_in_our_subnet :: "lan_play \<Rightarrow> ip4 \<Rightarrow> bool" where
  "dhcp_in_our_subnet lp ip \<longleftrightarrow>
     (let m = ipv4_to_u32 (zerotier_netmask lp)
      in ipv4_to_u32 ip AND m = ipv4_to_u32 (zerotier_ip lp) AND m)"

definition upd_dhcp :: "(dhcp_server_state \<Rightarrow> dhcp_server_state) \<Rightarrow> lan_play \<Rightarrow> lan_play" where
  "upd_dhcp f lp = lp\<lparr>dhcp_state := f (dhcp_state lp)\<rparr>"

definition dhcp_discover :: "env \<Rightarrow> mac \<Rightarrow> dhcp_request \<Rightarrow> lan_play \<Rightarrow> (bool \<times> lan_play) option" where
  "dhcp_discover e m req lp =
     (case dhcp_pick_ip e m lp of
        None \<Rightarrow> Some (True, lp)
      | Some ip \<Rightarrow>
          (case dhcp_claim (now (clk e)) m ip True lp of
             (None, lp) \<Rightarrow> Some (True, lp)
           | (Some _, lp) \<Rightarrow> do {
               (ret, lp) \<leftarrow> dhcp_send_reply e m req DHCP_MSG_OFFER ip lp;
               Some (True, if ret = 0 then upd_dhcp (\<lambda>s. s\<lparr>offers_sent := offers_sent s + 1\<rparr>) lp else lp) }))"

definition dhcp_request_msg :: "env \<Rightarrow> mac \<Rightarrow> dhcp_request \<Rightarrow> lan_play \<Rightarrow> (bool \<times> lan_play) option" where
  "dhcp_request_msg e m req lp =
     (let ls = leases (dhcp_state lp); t = now (clk e);
          want = (if has_requested_ip req then requested_ip req else ciaddr req);
          has_want = (has_requested_ip req \<or> ciaddr req \<noteq> NONE_IP);
          held = (case dhcp_find_mac m ls of
                    Some i \<Rightarrow> expires (ls ! i) > t \<and> has_want \<and> want = lease_ip (ls ! i)
                  | None \<Rightarrow> False)
      in if held
         then do {
           let lp = snd (dhcp_claim t m want False lp);
           (ret, lp) \<leftarrow> dhcp_send_reply e m req DHCP_MSG_ACK want lp;
           Some (True, if ret = 0 then upd_dhcp (\<lambda>s. s\<lparr>acks_sent := acks_sent s + 1\<rparr>) lp else lp) }
         else if has_want \<and> dhcp_in_our_subnet lp want
         then do {
           (ret, lp) \<leftarrow> dhcp_send_reply e m req DHCP_MSG_NAK NONE_IP lp;
           Some (True, if ret = 0 then upd_dhcp (\<lambda>s. s\<lparr>naks_sent := naks_sent s + 1\<rparr>) lp else lp) }
         else if has_want
         then Some (True, upd_dhcp (\<lambda>s. s\<lparr>lost_races := lost_races s + 1\<rparr>) lp)
         else Some (True, lp))"

definition dhcp_release :: "mac \<Rightarrow> lan_play \<Rightarrow> lan_play" where
  "dhcp_release m lp =
     (case dhcp_find_mac m (leases (dhcp_state lp)) of
        Some i \<Rightarrow> set_leases ((leases (dhcp_state lp))[i := no_lease]) lp
      | None \<Rightarrow> lp)"

definition dhcp_server_consume :: "env \<Rightarrow> byte list \<Rightarrow> lan_play \<Rightarrow> (bool \<times> lan_play) option" where
  "dhcp_server_consume e frame lp =
     (if \<not> dhcp_server (options e) \<or> \<not> wifi_subnet_known lp then Some (False, lp)
      else do {
        r \<leftarrow> dhcp_parse frame;
        case r of
          None \<Rightarrow> Some (False, lp)
        | Some req \<Rightarrow> do {
            let lp = set_leases (dhcp_sweep_expired (now (clk e)) (leases (dhcp_state lp))) lp;
            m \<leftarrow> CPY_MAC frame ETHER_OFF_SRC;
            if \<not> is_nintendo_mac m
            then Some (True, upd_dhcp (\<lambda>s. s\<lparr>ignored_non_nintendo := ignored_non_nintendo s + 1\<rparr>) lp)
            else if msg_type req = DHCP_MSG_DISCOVER then dhcp_discover e m req lp
            else if msg_type req = DHCP_MSG_REQUEST then dhcp_request_msg e m req lp
            else if msg_type req = DHCP_MSG_RELEASE then Some (True, dhcp_release m lp)
            else Some (True, lp) } })"

section \<open>The lease table\<close>

lemma find_index_Some:
  "find_index P xs = Some i \<Longrightarrow> i < length xs \<and> P (xs ! i) \<and> (\<forall>j < i. \<not> P (xs ! j))"
  by (induction xs arbitrary: i) (auto simp: less_Suc_eq_0_disj split: if_splits)

lemma find_index_None: "find_index P xs = None \<longleftrightarrow> (\<forall>x \<in> set xs. \<not> P x)"
  by (induction xs) auto

text \<open>No two leases share a hardware address or an IPv4 address.\<close>

definition leases_ok :: "dhcp_lease list \<Rightarrow> bool" where
  "leases_ok ls \<longleftrightarrow> length ls = DHCP_LEASE_COUNT \<and>
     (\<forall>i < length ls. \<forall>j < length ls. i \<noteq> j \<longrightarrow> used (ls ! i) \<longrightarrow> used (ls ! j) \<longrightarrow>
        lease_mac (ls ! i) \<noteq> lease_mac (ls ! j) \<and> lease_ip (ls ! i) \<noteq> lease_ip (ls ! j))"

definition all_live :: "int \<Rightarrow> dhcp_lease list \<Rightarrow> bool" where
  "all_live t ls \<longleftrightarrow> (\<forall>l \<in> set ls. used l \<longrightarrow> expires l > t)"

lemma unused_no_lease [simp]: "\<not> used no_lease"
  by (simp add: no_lease_def)

lemma leases_ok_init: "leases_ok (leases dhcp_server_init)"
  by (simp add: leases_ok_def dhcp_server_init_def)

lemma leases_ok_sweep: "leases_ok ls \<Longrightarrow> leases_ok (dhcp_sweep_expired t ls)"
  by (auto simp: leases_ok_def dhcp_sweep_expired_def)

lemma all_live_sweep: "all_live t (dhcp_sweep_expired t ls)"
  by (auto simp: all_live_def dhcp_sweep_expired_def)

lemma leases_ok_update:
  assumes ok: "leases_ok ls"
    and new: "\<And>j. j < length ls \<Longrightarrow> j \<noteq> i \<Longrightarrow> used (ls ! j) \<Longrightarrow> used l \<Longrightarrow>
      lease_mac (ls ! j) \<noteq> lease_mac l \<and> lease_ip (ls ! j) \<noteq> lease_ip l"
  shows "leases_ok (ls[i := l])"
proof (cases "i < length ls")
  case i: True
  have "lease_mac (ls[i := l] ! a) \<noteq> lease_mac (ls[i := l] ! b) \<and> lease_ip (ls[i := l] ! a) \<noteq> lease_ip (ls[i := l] ! b)"
    if ab: "a < length ls" "b < length ls" "a \<noteq> b" "used (ls[i := l] ! a)" "used (ls[i := l] ! b)" for a b
  proof (cases "a = i")
    case True
    then show ?thesis using ab i new [of b] by auto
  next
    case False
    then show ?thesis using ab i new [of a] ok by (cases "b = i") (auto simp: leases_ok_def)
  qed
  then show ?thesis using ok by (simp add: leases_ok_def)
qed (use ok in \<open>simp add: list_update_beyond\<close>)

lemma leases_ok_ip_inj:
  "leases_ok ls \<Longrightarrow> i < length ls \<Longrightarrow> j < length ls \<Longrightarrow> used (ls ! i) \<Longrightarrow> used (ls ! j) \<Longrightarrow>
     lease_ip (ls ! i) = lease_ip (ls ! j) \<Longrightarrow> i = j"
  unfolding leases_ok_def by metis

lemma leases_ok_clear: "leases_ok ls \<Longrightarrow> leases_ok (ls[i := no_lease])"
  by (rule leases_ok_update) simp_all

lemma dhcp_find_mac_Some:
  "dhcp_find_mac m ls = Some i \<Longrightarrow> i < length ls \<and> used (ls ! i) \<and> lease_mac (ls ! i) = m"
  unfolding dhcp_find_mac_def by (drule find_index_Some) simp

lemma dhcp_find_mac_unique:
  "leases_ok ls \<Longrightarrow> dhcp_find_mac m ls = Some i \<Longrightarrow> j < length ls \<Longrightarrow> used (ls ! j) \<Longrightarrow>
     lease_mac (ls ! j) = m \<Longrightarrow> j = i"
  using dhcp_find_mac_Some [of m ls i] unfolding leases_ok_def by metis

lemma dhcp_find_mac_None:
  "dhcp_find_mac m ls = None \<Longrightarrow> j < length ls \<Longrightarrow> used (ls ! j) \<Longrightarrow> lease_mac (ls ! j) \<noteq> m"
  by (auto simp: dhcp_find_mac_def find_index_None)

lemma leases_set_leases [simp]: "leases (dhcp_state (set_leases ls lp)) = ls"
  by (simp add: set_leases_def)

text \<open>A claim keeps the table consistent when no other client holds the address.\<close>

lemma dhcp_claim_ok:
  assumes ok: "leases_ok (leases (dhcp_state lp))"
    and free: "\<And>l. l \<in> set (leases (dhcp_state lp)) \<Longrightarrow> used l \<Longrightarrow> lease_mac l \<noteq> m \<Longrightarrow> lease_ip l \<noteq> ip"
  shows "leases_ok (leases (dhcp_state (snd (dhcp_claim t m ip b lp))))"
proof -
  let ?ls = "leases (dhcp_state lp)"
  have set: "leases_ok (?ls[i := \<lparr>lease_mac = m, lease_ip = ip, expires = x, offered = b, used = True\<rparr>])"
    if "i < length ?ls" "\<And>j. j < length ?ls \<Longrightarrow> j \<noteq> i \<Longrightarrow> used (?ls ! j) \<Longrightarrow> lease_mac (?ls ! j) \<noteq> m" for i x
    using that free by (intro leases_ok_update [OF ok]) auto
  show ?thesis
  proof (cases "dhcp_find_mac m ?ls")
    case (Some i)
    then have "leases_ok (?ls[i := \<lparr>lease_mac = m, lease_ip = ip, expires = x, offered = b, used = True\<rparr>])" for x
      using dhcp_find_mac_Some [OF Some] dhcp_find_mac_unique [OF ok Some] by (intro set) blast+
    then show ?thesis using Some by (simp add: dhcp_claim_def Let_def)
  next
    case None
    then have "leases_ok (?ls[i := \<lparr>lease_mac = m, lease_ip = ip, expires = x, offered = b, used = True\<rparr>])"
      if "find_index (\<lambda>l. \<not> used l) ?ls = Some i" for i x
      using find_index_Some [OF that] dhcp_find_mac_None [OF None] by (intro set) blast+
    then show ?thesis using None ok
      by (cases "find_index (\<lambda>l. \<not> used l) ?ls") (simp_all add: dhcp_claim_def Let_def)
  qed
qed

lemma dhcp_claim_holds:
  assumes "dhcp_claim t m ip b lp = (Some i, lp')"
  shows "i < length (leases (dhcp_state lp')) \<and> leases (dhcp_state lp') ! i =
    \<lparr>lease_mac = m, lease_ip = ip, expires = t + (if b then 120 else 3600), offered = b, used = True\<rparr>"
proof -
  have "i < length (leases (dhcp_state lp))"
    using assms dhcp_find_mac_Some [of m "leases (dhcp_state lp)"]
      find_index_Some [of "\<lambda>l. \<not> used l" "leases (dhcp_state lp)"]
    by (auto simp: dhcp_claim_def Let_def split: option.splits)
  then show ?thesis using assms by (auto simp: dhcp_claim_def Let_def split: option.splits)
qed

section \<open>The choice of an address\<close>

lemma pick_loop_Some:
  "pick_loop e lp net bcast cand = Some ip \<Longrightarrow>
     \<exists>c. ip = u32_to_ipv4 c \<and> net < c \<and> bcast - c \<le> 24 \<and> c \<noteq> ipv4_to_u32 (ctx_ip (ctx lp)) \<and>
       c \<noteq> ipv4_to_u32 (zerotier_ip lp) \<and> \<not> (switch_seen lp \<and> ip = switch_ip lp) \<and>
       \<not> arp_has_ip (arp_table (ctx lp)) (now (clk e)) ip \<and>
       \<not> lease_taken (now (clk e)) ip (leases (dhcp_state lp))"
proof (induction e lp net bcast cand rule: pick_loop.induct)
  case (1 e lp net bcast cand)
  show ?case
  proof (cases "net < cand \<and> bcast - cand \<le> 24")
    case False
    then have "pick_loop e lp net bcast cand = None" by (subst pick_loop.simps) (rule if_not_P)
    then show ?thesis using "1.prems" by simp
  next
    case True
    note step = pick_loop.simps [of e lp net bcast cand, unfolded Let_def if_P [OF True]]
    show ?thesis using 1 True unfolding step by (auto split: if_splits)
  qed
qed

lemma dhcp_pick_free:
  assumes "dhcp_pick_ip e m lp = Some ip" "leases_ok (leases (dhcp_state lp))"
    "all_live (now (clk e)) (leases (dhcp_state lp))"
    and "l \<in> set (leases (dhcp_state lp))" "used l" "lease_mac l \<noteq> m"
  shows "lease_ip l \<noteq> ip"
proof -
  let ?ls = "leases (dhcp_state lp)"
  have live: "expires l > now (clk e)" using assms by (simp add: all_live_def)
  obtain j where j: "j < length ?ls" "l = ?ls ! j" using assms(4) by (auto simp: in_set_conv_nth)
  have own: "lease_ip l \<noteq> lease_ip (?ls ! i)" if "dhcp_find_mac m ?ls = Some i" for i
    using dhcp_find_mac_Some [OF that] assms j leases_ok_ip_inj [OF assms(2), of i j] by auto
  have "lease_ip l \<noteq> ip" if "pick_loop e lp net bcast c = Some ip" for net bcast c
    using pick_loop_Some [OF that] assms(4,5) live by (auto simp: lease_taken_def)
  then show ?thesis
    using assms own live
    by (auto simp: dhcp_pick_ip_def Let_def lease_taken_by_other_def split: option.splits if_splits)
qed

section \<open>The reply\<close>

definition encode_options :: "(byte \<times> byte list) list \<Rightarrow> byte list" where
  "encode_options os = concat (map (\<lambda>(c, d). c # word_of_nat (length d) # d) os)"

lemma encode_simps [simp]:
  "encode_options [] = []"
  "encode_options ((c, d) # os) = c # word_of_nat (length d) # d @ encode_options os"
  by (simp_all add: encode_options_def)

lemma dhcp_opt_eq:
  assumes "off + 2 + length d \<le> length p"
  shows "dhcp_opt p off c d = Some (patch p off (c # word_of_nat (length d) # d), off + 2 + length d)"
proof -
  have "patch (patch p off [c]) (off + 1) [l] = patch p off [c, l]" for l
    using patch_append [of off "[c]" "[l]" p] assms by simp
  moreover have "patch (patch p off [c, l]) (off + 2) d = patch p off (c # l # d)" for l
    using patch_append [of off "[c, l]" d p] assms by simp
  ultimately show ?thesis using assms by (simp add: dhcp_opt_def write_bytes_Some)
qed

lemma dhcp_opts_eq:
  "off + length (encode_options os) \<le> length p \<Longrightarrow>
     dhcp_opts p off os = Some (patch p off (encode_options os), off + length (encode_options os))"
proof (induction os arbitrary: p off)
  case Nil
  then show ?case by (simp add: patch_def)
next
  case (Cons o1 os)
  obtain c d where o1: "o1 = (c, d)" by force
  let ?h = "c # word_of_nat (length d) # d"
  have "patch (patch p off ?h) (off + length ?h) (encode_options os) = patch p off (?h @ encode_options os)"
    using Cons.prems by (intro patch_append) (simp add: o1)
  then show ?case using Cons by (simp add: o1 dhcp_opt_eq add.assoc)
qed

lemma length_reply_options: "length (encode_options (reply_options lp mt)) = (if mt = 6 then 3 else 39)"
  by (simp add: reply_options_def)

lemma dhcp_message_Some:
  "\<exists>msg. dhcp_message m req mt yi lp = Some msg \<and> length msg = 300 \<and>
     window msg 0 3 = [2, 1, 6] \<and> be16 (msg ! 4) (msg ! 5) = ucast (drop_bit 16 (xid req)) \<and>
     be16 (msg ! 6) (msg ! 7) = ucast (xid req AND 0xffff) \<and>
     ip_at msg 16 = yi \<and> ip_at msg 20 = ctx_ip (ctx lp) \<and> mac_at msg 28 = m \<and>
     window msg 240 (length (encode_options (reply_options lp mt)) + 1) =
       encode_options (reply_options lp mt) @ [255]"
proof -
  define os where "os = encode_options (reply_options lp mt)"
  have os: "length os \<le> 39" by (simp add: os_def length_reply_options)
  have app: "patch (patch p 240 os) (240 + length os) [255] = patch p 240 (os @ [255])" if "length p = 300" for p
    using patch_append [of 240 os "[255]" p] os that by simp
  have first: "window (patch (replicate 300 0) 0 [2, 1, 6, 0]) 0 3 = ([2, 1, 6] :: byte list)"
    by (simp add: window_def patch_def)
  show ?thesis
    unfolding dhcp_message_def using os
    by (simp add: write_bytes_Some dhcp_opts_eq Let_def os_def [symmetric] app)
      (simp add: window_patch_same window_patch_disjoint ip_at_patch_disjoint mac_at_patch_same
        mac_at_patch_disjoint nth_patch net16_def first)
qed

lemma length_dhcp_headers [simp]:
  "length (dhcp_ip_header i c s) = 20" "length (dhcp_udp_header c) = 8"
  by (simp_all add: dhcp_ip_header_def dhcp_udp_header_def)

lemma net16_zero: "net16 0 = [0, 0]"
  by (simp add: net16_def hi8_def lo8_def)

lemma patch_dhcp_ip_header:
  "patch (dhcp_ip_header i c s) 10 (net16 c') = dhcp_ip_header i c' s"
  by (simp add: dhcp_ip_header_def patch_def net16_def)

lemma patch_dhcp_udp_header:
  "length h = 20 \<Longrightarrow> patch (h @ dhcp_udp_header c @ msg) 26 (net16 c') = h @ dhcp_udp_header c' @ msg"
  by (simp add: dhcp_udp_header_def patch_def net16_def)

lemma dhcp_reply_packet_Some:
  "\<exists>ip msg. dhcp_reply_packet m req mt yi lp = Some ip \<and> dhcp_message m req mt yi lp = Some msg \<and>
     length ip = 328 \<and> drop 28 ip = msg \<and> ipv4_header_checksum (take 20 ip) = 0 \<and>
     udp_verifies ip 20 328 \<and> ip_at ip 12 = ctx_ip (ctx lp) \<and> ip_at ip 16 = IP4 255 255 255 255 \<and>
     be16 (ip ! 20) (ip ! 21) = 67 \<and> be16 (ip ! 22) (ip ! 23) = 68"
proof -
  obtain msg where msg: "dhcp_message m req mt yi lp = Some msg" "length msg = 300"
    using dhcp_message_Some by blast
  let ?src = "ctx_ip (ctx lp)" and ?h = "dhcp_ip_header (dhcp_ip_id lp + 1)"
  define hc where "hc = ipv4_header_checksum (?h 0 ?src)"
  have z: "patch (?h 0 ?src) 10 [0, 0] = ?h 0 ?src"
    using patch_dhcp_ip_header [of "dhcp_ip_id lp + 1" 0 ?src 0] by (simp add: net16_zero)
  have hdr: "ipv4_header_checksum (?h hc ?src) = 0"
    using header_cks.field_verifies [of "?h 0 ?src" 10] by (simp add: patch_dhcp_ip_header hc_def z)
  let ?p = "\<lambda>c. ?h hc ?src @ dhcp_udp_header c @ msg"
  have len: "length (?p c) = 328" for c using msg by simp
  have u0: "patch (?p 0) 26 [0, 0] = ?p 0"
    using patch_dhcp_udp_header [of "?h hc ?src" 0 msg 0] by (simp add: net16_zero)
  obtain uc where uc: "udp_checksum (?p 0) 20 328 = Some uc"
    using udp_checksum_ones [of 20 328 "?p 0"] len by auto
  have "udp_verifies (patch (?p 0) 26 (net16 uc)) 20 328"
    using udp_checksum_field_verifies [of 20 328 "?p 0" uc] len u0 uc by simp
  then have udp: "udp_verifies (?p uc) 20 328" by (simp add: patch_dhcp_udp_header)
  have "dhcp_reply_packet m req mt yi lp = Some (?p uc)"
    using msg uc by (simp add: dhcp_reply_packet_def Let_def hc_def)
  moreover have "drop 28 (?p uc) = msg" "take 20 (?p uc) = ?h hc ?src" by simp_all
  moreover have "ip_at (?p uc) 12 = ?src" "ip_at (?p uc) 16 = IP4 255 255 255 255"
    "be16 (?p uc ! 20) (?p uc ! 21) = 67" "be16 (?p uc ! 22) (?p uc ! 23) = 68"
    by (cases ?src; simp add: ip_at_def dhcp_ip_header_def dhcp_udp_header_def nth_append net16_def)+
  ultimately show ?thesis using msg udp hdr len [of uc] by metis
qed

lemma dhcp_send_reply_sent:
  assumes ok: "io_ok lp"
  shows "\<exists>r lp' ip. dhcp_reply_packet m req mt yi lp = Some ip \<and> dhcp_send_reply e m req mt yi lp = Some (r, lp') \<and>
    sent WiFi (ether_bytes BROADCAST_MAC (wifi_mac lp) ETHER_TYPE_IPV4 ip) r (lp\<lparr>dhcp_ip_id := dhcp_ip_id lp + 1\<rparr>) lp'"
proof -
  obtain ip where ip: "dhcp_reply_packet m req mt yi lp = Some ip" "length ip = 328"
    using dhcp_reply_packet_Some by blast
  have "io_ok (lp\<lparr>dhcp_ip_id := dhcp_ip_id lp + 1\<rparr>)"
    using ok by (simp add: io_ok_def all_sides link_of_def hw_addr_def)
  from send_wifi_ipv4_sent [OF this, of 328 ip e BROADCAST_MAC] show ?thesis
    using ip by (simp add: dhcp_send_reply_def lan_play_dhcp_send_def Let_def)
qed

section \<open>The server's steps\<close>

text \<open>The server changes neither the configuration nor the console nor the port guard.\<close>

definition but_dhcp :: "lan_play \<Rightarrow> _" where
  "but_dhcp lp = (config lp, console lp, udp_guard lp)"

lemma progress_dhcp_state: "relay_ok lp \<Longrightarrow> advance but_dhcp lp (lp\<lparr>dhcp_state := s\<rparr>)"
  by (simp add: advance_def relay_ok_def io_ok_def all_sides link_of_def hw_addr_def still_defs but_dhcp_def)

lemma advance_but_dhcp: "progress lp lp' \<Longrightarrow> advance but_dhcp lp lp'"
  by (erule advance_weaken) (simp add: still_def but_dhcp_def)

lemma progress_dhcp_id: "relay_ok lp \<Longrightarrow> progress lp (lp\<lparr>dhcp_ip_id := i\<rparr>)"
  by (simp add: advance_def relay_ok_def io_ok_def all_sides link_of_def hw_addr_def still_defs)

lemma dhcp_reply_progress:
  assumes ok: "relay_ok lp"
  shows "\<exists>r lp'. dhcp_send_reply e m req mt yi lp = Some (r, lp') \<and> progress lp lp' \<and> dhcp_state lp' = dhcp_state lp"
proof -
  let ?lp = "lp\<lparr>dhcp_ip_id := dhcp_ip_id lp + 1\<rparr>"
  have io: "io_ok lp" using ok by (simp add: relay_ok_def)
  obtain r lp' ip where s: "dhcp_send_reply e m req mt yi lp = Some (r, lp')"
    "sent WiFi (ether_bytes BROADCAST_MAC (wifi_mac lp) ETHER_TYPE_IPV4 ip) r ?lp lp'"
    using dhcp_send_reply_sent [OF io] by blast
  have p: "progress lp ?lp" by (rule progress_dhcp_id [OF ok])
  have "progress ?lp lp'"
    using sent_progress [of WiFi BROADCAST_MAC ?lp] s(2) progress_ok [OF p] by (simp add: hw_simps)
  moreover have "dhcp_state lp' = dhcp_state ?lp" using s(2) core_fields(24) [of lp' ?lp] by (simp add: sent_def)
  ultimately show ?thesis using s(1) progress_trans [OF p] by auto
qed

text \<open>What one handled client packet may do: the relay makes progress and the table stays
  consistent.\<close>

definition dhcp_step :: "lan_play \<Rightarrow> lan_play \<Rightarrow> bool" where
  "dhcp_step lp lp' \<longleftrightarrow> advance but_dhcp lp lp' \<and> leases_ok (leases (dhcp_state lp'))"

lemma dhcp_step_upd:
  "dhcp_step lp lp' \<Longrightarrow> (\<And>s. leases (f s) = leases s) \<Longrightarrow> dhcp_step lp (upd_dhcp f lp')"
  using progress_trans [of but_dhcp lp lp' "upd_dhcp f lp'"] progress_dhcp_state [of lp' "f (dhcp_state lp')"]
  by (auto simp: dhcp_step_def upd_dhcp_def dest: progress_ok)

lemma dhcp_step_refl: "relay_ok lp \<Longrightarrow> leases_ok (leases (dhcp_state lp)) \<Longrightarrow> dhcp_step lp lp"
  by (simp add: dhcp_step_def progress_refl)

lemma dhcp_step_leases:
  "relay_ok lp \<Longrightarrow> leases_ok ls \<Longrightarrow> dhcp_step lp (set_leases ls lp)"
  by (simp add: dhcp_step_def set_leases_def progress_dhcp_state)

lemma dhcp_step_trans: "dhcp_step a b \<Longrightarrow> dhcp_step b c \<Longrightarrow> dhcp_step a c"
  by (auto simp: dhcp_step_def intro: progress_trans)

lemma dhcp_step_claim:
  "relay_ok lp \<Longrightarrow> leases_ok (leases (dhcp_state (snd (dhcp_claim t m ip b lp)))) \<Longrightarrow>
     dhcp_step lp (snd (dhcp_claim t m ip b lp))"
  by (auto simp: dhcp_claim_def Let_def dhcp_step_refl intro: dhcp_step_leases split: option.splits)

lemma dhcp_step_reply:
  assumes "relay_ok lp" "dhcp_step lp lp1"
  shows "\<exists>r lp'. dhcp_send_reply e m req mt yi lp1 = Some (r, lp') \<and> dhcp_step lp lp'"
proof -
  have p: "advance but_dhcp lp lp1" "leases_ok (leases (dhcp_state lp1))" using assms by (auto simp: dhcp_step_def)
  then show ?thesis
    using dhcp_reply_progress [OF progress_ok [OF p(1)], of e m req mt yi] progress_trans [OF p(1) advance_but_dhcp]
    by (auto simp: dhcp_step_def)
qed

lemma dhcp_discover_step:
  assumes ok: "relay_ok lp" "leases_ok (leases (dhcp_state lp))" "all_live (now (clk e)) (leases (dhcp_state lp))"
  shows "\<exists>lp'. dhcp_discover e m req lp = Some (True, lp') \<and> dhcp_step lp lp'"
proof (cases "dhcp_pick_ip e m lp")
  case None
  then show ?thesis using ok by (simp add: dhcp_discover_def dhcp_step_refl)
next
  case (Some ip)
  let ?c = "dhcp_claim (now (clk e)) m ip True lp"
  have "leases_ok (leases (dhcp_state (snd ?c)))"
    by (rule dhcp_claim_ok [OF ok(2)]) (rule dhcp_pick_free [OF Some ok(2,3)])
  then have c: "dhcp_step lp (snd ?c)" by (rule dhcp_step_claim [OF ok(1)])
  obtain r lp2 where "dhcp_send_reply e m req 2 ip (snd ?c) = Some (r, lp2)" "dhcp_step lp lp2"
    using dhcp_step_reply [OF ok(1) c] by blast
  then show ?thesis using c Some
    by (cases ?c; cases "fst ?c") (auto simp: dhcp_discover_def intro!: dhcp_step_upd)
qed

lemma dhcp_request_step:
  assumes ok: "relay_ok lp" "leases_ok (leases (dhcp_state lp))"
  shows "\<exists>lp'. dhcp_request_msg e m req lp = Some (True, lp') \<and> dhcp_step lp lp'"
proof -
  let ?ls = "leases (dhcp_state lp)" and ?want = "if has_requested_ip req then requested_ip req else ciaddr req"
  let ?c = "snd (dhcp_claim (now (clk e)) m ?want False lp)"
  have claim: "dhcp_step lp ?c" if i: "dhcp_find_mac m ?ls = Some i" and w: "?want = lease_ip (?ls ! i)" for i
  proof (rule dhcp_step_claim [OF ok(1)], rule dhcp_claim_ok [OF ok(2)])
    fix l assume "l \<in> set ?ls" "used l" "lease_mac l \<noteq> m"
    then show "lease_ip l \<noteq> ?want"
      using dhcp_find_mac_Some [OF i] leases_ok_ip_inj [OF ok(2)] w by (metis in_set_conv_nth)
  qed
  have ack: "\<exists>r lp'. dhcp_send_reply e m req 5 ?want ?c = Some (r, lp') \<and> dhcp_step lp lp'"
    if "dhcp_find_mac m ?ls = Some i" "?want = lease_ip (?ls ! i)" for i
    by (rule dhcp_step_reply [OF ok(1) claim [OF that]])
  have nak: "\<exists>r lp'. dhcp_send_reply e m req 6 NONE_IP lp = Some (r, lp') \<and> dhcp_step lp lp'"
    by (rule dhcp_step_reply [OF ok(1) dhcp_step_refl [OF ok]])
  show ?thesis
    using ack nak dhcp_step_refl [OF ok]
    unfolding dhcp_request_msg_def Let_def
    by (fastforce intro!: dhcp_step_upd split: option.splits)
qed

section \<open>The parser\<close>

text \<open>The option list is closed by an \<^verbatim>\<open>END\<close> option inside the captured bytes.\<close>

function options_closed :: "byte list \<Rightarrow> nat \<Rightarrow> bool" where
  "options_closed dhcp off =
     (if off < length dhcp
      then if dhcp ! off = 255 then True
           else if dhcp ! off = 0 then options_closed dhcp (off + 1)
           else off + 1 < length dhcp \<and> options_closed dhcp (off + 2 + unat (dhcp ! (off + 1)))
      else False)"
  by pat_completeness auto
termination
  by (relation "measure (\<lambda>(dhcp, off). length dhcp - off)") auto

declare options_closed.simps [simp del]

lemma options_closed_bound: "options_closed dhcp off \<Longrightarrow> off < length dhcp"
  by (subst (asm) options_closed.simps) (simp split: if_splits)

lemma apply_option_total: "at + olen \<le> length dhcp \<Longrightarrow> \<exists>r. apply_option c olen dhcp at req = Some r"
  by (auto simp: apply_option_def read8_Some CPY_IPV4_Some)

lemma option_loop_closed:
  "options_closed dhcp off \<Longrightarrow> \<exists>r. option_loop dhcp end_off off req = Some r"
proof (induction dhcp end_off off req rule: option_loop.induct)
  case (1 dhcp end_off off req)
  have len: "off < length dhcp" using "1.prems" by (rule options_closed_bound)
  note closed = "1.prems" [unfolded options_closed.simps [of dhcp off]]
  let ?olen = "unat (dhcp ! (off + 1))"
  show ?case
  proof (cases "off + 1 < end_off \<and> dhcp ! off \<noteq> 255 \<and> dhcp ! off \<noteq> 0 \<and> off + 2 + ?olen \<le> end_off")
    case True
    then have next_ok: "off + 1 < length dhcp" "options_closed dhcp (off + 2 + ?olen)"
      using closed len by auto
    then have "off + 2 + ?olen \<le> length dhcp" using options_closed_bound by fastforce
    then obtain r where r: "apply_option (dhcp ! off) ?olen dhcp (off + 2) req = Some r"
      using apply_option_total by blast
    have "\<exists>r'. option_loop dhcp end_off (off + 2 + ?olen) r = Some r'"
      using True next_ok len r "1.IH"(2) [of "dhcp ! off" "dhcp ! (off + 1)" r] by (simp add: read8_Some)
    then show ?thesis using True next_ok len r
      by (subst option_loop.simps) (simp add: read8_Some)
  next
    case False
    have "\<exists>r'. option_loop dhcp end_off (off + 1) req = Some r'"
      if "off + 1 < end_off" "dhcp ! off = 0" using that closed len "1.IH"(1) [of "dhcp ! off"]
      by (simp add: read8_Some)
    then show ?thesis using False len closed
      by (subst option_loop.simps) (auto simp: read8_Some)
  qed
qed

lemma option_loop_in_range:
  "end_off \<le> length dhcp \<Longrightarrow> \<exists>r. option_loop dhcp end_off off req = Some r"
proof (induction dhcp end_off off req rule: option_loop.induct)
  case (1 dhcp end_off off req)
  let ?olen = "unat (dhcp ! (off + 1))"
  show ?case
  proof (cases "off + 1 < end_off \<and> dhcp ! off \<noteq> 255 \<and> dhcp ! off \<noteq> 0 \<and> off + 2 + ?olen \<le> end_off")
    case True
    then obtain r where r: "apply_option (dhcp ! off) ?olen dhcp (off + 2) req = Some r"
      using apply_option_total [of "off + 2" ?olen dhcp "dhcp ! off" req] "1.prems" by auto
    have "\<exists>r'. option_loop dhcp end_off (off + 2 + ?olen) r = Some r'"
      using True r "1.IH"(2) [of "dhcp ! off" "dhcp ! (off + 1)" r] "1.prems" by (simp add: read8_Some)
    then show ?thesis using True r "1.prems" by (subst option_loop.simps) (simp add: read8_Some)
  next
    case False
    have "\<exists>r'. option_loop dhcp end_off (off + 1) req = Some r'"
      if "off + 1 < end_off" "dhcp ! off = 0" using that "1.IH"(1) [of "dhcp ! off"] "1.prems"
      by (simp add: read8_Some)
    then show ?thesis using False "1.prems" by (subst option_loop.simps) (auto simp: read8_Some)
  qed
qed

definition dhcp_closed :: "byte list \<Rightarrow> bool" where
  "dhcp_closed f \<longleftrightarrow> options_closed (drop (22 + header_len (f ! 14)) f) 240"

lemma dhcp_parse_total:
  assumes "dhcp_closed f"
  shows "\<exists>r. dhcp_parse f = Some r"
proof (cases "length f < 282")
  case False
  let ?h = "header_len (f ! 14)"
  have "\<exists>r. option_loop (drop (22 + ?h) f) n 240 q = Some r" for n q
    using assms by (intro option_loop_closed) (simp add: dhcp_closed_def)
  then obtain F where "\<And>n q. option_loop (drop (22 + ?h) f) n 240 q = Some (F n q)" by metis
  moreover have "f \<noteq> []" "\<not> length f \<le> 14" using False by auto
  ultimately show ?thesis using False
    by (auto simp: dhcp_parse_def Let_def checked_access)
qed (simp add: dhcp_parse_def)

lemma dhcp_parse_length: "dhcp_parse f = Some (Some req) \<Longrightarrow> 282 \<le> length f"
  by (simp add: dhcp_parse_def split: if_splits)

lemma dhcp_consume_step:
  assumes ok: "relay_ok lp" "leases_ok (leases (dhcp_state lp))"
    and parse: "dhcp_server (options e) \<Longrightarrow> \<exists>r. dhcp_parse f = Some r"
  shows "\<exists>b lp'. dhcp_server_consume e f lp = Some (b, lp') \<and> dhcp_step lp lp'"
proof (cases "\<not> dhcp_server (options e) \<or> \<not> wifi_subnet_known lp \<or> dhcp_parse f = Some None")
  case True
  then show ?thesis using dhcp_step_refl [OF ok] by (auto simp: dhcp_server_consume_def)
next
  case False
  then obtain req where req: "dhcp_parse f = Some (Some req)" using parse by (metis not_None_eq)
  let ?ls = "dhcp_sweep_expired (now (clk e)) (leases (dhcp_state lp))"
  let ?lp = "set_leases ?ls lp" and ?m = "mac_at f 6"
  have m: "CPY_MAC f 6 = Some ?m" using dhcp_parse_length [OF req] by (simp add: CPY_MAC_Some)
  have lok: "leases_ok ?ls" by (rule leases_ok_sweep [OF ok(2)])
  have s: "dhcp_step lp ?lp" by (rule dhcp_step_leases [OF ok(1) lok])
  then have r: "relay_ok ?lp" by (auto simp: dhcp_step_def dest: progress_ok)
  have d: "\<exists>lp'. dhcp_discover e ?m req ?lp = Some (True, lp') \<and> dhcp_step ?lp lp'"
    using r lok by (intro dhcp_discover_step) (simp_all add: all_live_sweep)
  have q: "\<exists>lp'. dhcp_request_msg e ?m req ?lp = Some (True, lp') \<and> dhcp_step ?lp lp'"
    using r lok by (intro dhcp_request_step) simp_all
  have rel: "dhcp_step ?lp (dhcp_release ?m ?lp)"
    using dhcp_step_leases [OF r leases_ok_clear [OF lok]] dhcp_step_refl [OF r] lok
    by (auto simp: dhcp_release_def split: option.split)
  have "\<exists>lp'. dhcp_server_consume e f lp = Some (True, lp') \<and> dhcp_step ?lp lp'"
    using False req m d q rel dhcp_step_refl [OF r] lok
    by (auto simp: dhcp_server_consume_def Let_def intro!: dhcp_step_upd)
  then show ?thesis using dhcp_step_trans [OF s] by blast
qed

end
