(* ===== verification/Relay.thy ===== *)
theory Relay
  imports Dhcp_Server
begin

text \<open>
  The relay of \<^verbatim>\<open>src/lan-play.c\<close>: address translation with repaired checksums, the two forwarding
  directions, learning the local console, the delivery probe, the discovery sweep and the two capture
  handlers.  The length argument of the forwarding functions is a \<^verbatim>\<open>uint16_t\<close>.
\<close>

section \<open>Addresses\<close>

definition is_zerotier_destination :: "lan_play \<Rightarrow> ip4 \<Rightarrow> bool" where
  "is_zerotier_destination lp ip \<longleftrightarrow>
     (if ip = zerotier_broadcast_ip lp then True
      else ip_and ip (zerotier_netmask lp) = ip_and (zerotier_ip lp) (zerotier_netmask lp))"

definition ip_in_subnet :: "ip4 \<Rightarrow> ip4 \<Rightarrow> ip4 \<Rightarrow> bool" where
  "ip_in_subnet ip net netmask \<longleftrightarrow> ip_and ip netmask = net"

section \<open>Rewriting\<close>

text \<open>\<^verbatim>\<open>rewrite_ipv4_addresses\<close>: \<open>Some None\<close> is the result \<^verbatim>\<open>false\<close>, before anything is written.\<close>

definition rewrite_ipv4_addresses :: "byte list \<Rightarrow> nat \<Rightarrow> ip4 \<Rightarrow> ip4 \<Rightarrow> byte list option option" where
  "rewrite_ipv4_addresses ip captured_len src dst =
     (if captured_len < IPV4_HEADER_LEN then Some None
      else do {
        b0 \<leftarrow> read8 ip 0;
        total \<leftarrow> read16 ip IPV4_OFF_TOTAL_LEN;
        let hlen = header_len b0; let tlen = unat total;
        if hlen < IPV4_HEADER_LEN \<or> hlen > captured_len \<or> tlen < hlen \<or> tlen > captured_len then Some None
        else do {
          ip \<leftarrow> write_bytes ip IPV4_OFF_SRC (ip_bytes src);
          ip \<leftarrow> write_bytes ip IPV4_OFF_DST (ip_bytes dst);
          ip \<leftarrow> write_bytes ip IPV4_OFF_CHECKSUM [0, 0];
          h \<leftarrow> read_bytes ip 0 hlen;
          ip \<leftarrow> write_bytes ip IPV4_OFF_CHECKSUM (net16 (ipv4_header_checksum h));
          proto \<leftarrow> read8 ip IPV4_OFF_PROTOCOL;
          if proto = IPV4_PROTOCOL_UDP \<and> tlen \<ge> hlen + 8
          then do {
            ip \<leftarrow> write_bytes ip (hlen + 6) [0, 0];
            c \<leftarrow> udp_checksum ip hlen tlen;
            ip \<leftarrow> write_bytes ip (hlen + 6) (net16 c);
            Some (Some ip) }
          else Some (Some ip) } })"

section \<open>Wi-Fi to ZeroTier\<close>

text \<open>An unfragmented ICMP destination-unreachable with code 3, port unreachable.\<close>

definition is_port_unreachable :: "byte list \<Rightarrow> nat \<Rightarrow> bool option" where
  "is_port_unreachable ip ip_len = do {
     b0 \<leftarrow> read8 ip 0;
     fo \<leftarrow> read16 ip IPV4_OFF_FLAGS_FRAG_OFFSET;
     proto \<leftarrow> read8 ip IPV4_OFF_PROTOCOL;
     let hl = header_len b0;
     if proto = IPV4_PROTOCOL_ICMP \<and> \<not> is_fragment fo \<and> hl \<ge> IPV4_HEADER_LEN \<and> ip_len \<ge> hl + 8
     then do {
       t \<leftarrow> read8 ip hl; c \<leftarrow> read8 ip (hl + 1);
       Some (t = 3 \<and> c = 3) }
     else Some False }"

text \<open>A game broadcast (UDP port 35000) for the \<^verbatim>\<open>10.255.255.255\<close> address that is translated.\<close>

definition warn_mismatch :: "byte list \<Rightarrow> nat \<Rightarrow> ip4 \<Rightarrow> ip4 \<Rightarrow> lan_play \<Rightarrow> lan_play option" where
  "warn_mismatch ip ip_len original_dst dst lp = do {
     b0 \<leftarrow> read8 ip 0;
     let hl = header_len b0;
     proto \<leftarrow> read8 ip IPV4_OFF_PROTOCOL;
     fo \<leftarrow> read16 ip 6;
     if \<not> warned_broadcast_mismatch lp \<and> proto = IPV4_PROTOCOL_UDP \<and> ip_len \<ge> hl + 8 \<and> \<not> is_fragment fo
     then do {
       port \<leftarrow> read16 ip (hl + 2);
       Some (if port = 35000 \<and> is_nintendo_lan_broadcast original_dst \<and> original_dst \<noteq> dst
             then lp\<lparr>warned_broadcast_mismatch := True\<rparr> else lp) }
     else Some lp }"

text \<open>The source port of a first UDP fragment is reserved on the host; \<open>True\<close>: go on.\<close>

definition reserve_port :: "env \<Rightarrow> byte list \<Rightarrow> nat \<Rightarrow> lan_play \<Rightarrow> (bool \<times> lan_play) option" where
  "reserve_port e ip ip_len lp = do {
     b0 \<leftarrow> read8 ip 0;
     let hl = header_len b0;
     proto \<leftarrow> read8 ip IPV4_OFF_PROTOCOL;
     fo \<leftarrow> read16 ip IPV4_OFF_FLAGS_FRAG_OFFSET;
     if proto = IPV4_PROTOCOL_UDP \<and> fo AND 0x1fff = 0 \<and> ip_len \<ge> hl + 8
     then do {
       port \<leftarrow> read16 ip hl;
       let (ret, g) = native_udp_guard_reserve (udp_socks e) (udp_guard lp) port;
       Some (ret = None, lp\<lparr>udp_guard := g\<rparr>) }
     else Some (True, lp) }"

text \<open>The destinations that are forwarded, and the destination a packet gets on the overlay.\<close>

definition overlay_target :: "lan_play \<Rightarrow> ip4 \<Rightarrow> bool" where
  "overlay_target lp d \<longleftrightarrow> is_nintendo_lan_broadcast d \<or> is_zerotier_destination lp d"

definition overlay_dst :: "lan_play \<Rightarrow> ip4 \<Rightarrow> ip4" where
  "overlay_dst lp d = (if is_nintendo_lan_broadcast d then zerotier_broadcast_ip lp else d)"

definition lan_play_relay_wifi_ipv4 :: "env \<Rightarrow> byte list \<Rightarrow> lan_play \<Rightarrow> (bool \<times> lan_play) option" where
  "lan_play_relay_wifi_ipv4 e frame lp =
     (let frame_len = length frame mod 65536; ip = drop ETHER_HEADER_LEN frame
      in if \<not> switch_seen lp \<or> frame_len < ETHER_HEADER_LEN + IPV4_HEADER_LEN then Some (False, lp)
         else do {
           src \<leftarrow> CPY_IPV4 ip IPV4_OFF_SRC;
           if src \<noteq> switch_ip lp then Some (False, lp)
           else do {
             total \<leftarrow> read16 ip IPV4_OFF_TOTAL_LEN;
             original_dst \<leftarrow> CPY_IPV4 ip IPV4_OFF_DST;
             let ip_len = unat total;
             if ip_len > ETHER_MTU \<or> frame_len < ETHER_HEADER_LEN + ip_len \<or>
                \<not> overlay_target lp original_dst
             then Some (False, lp)
             else do {
               drop_it \<leftarrow> is_port_unreachable ip ip_len;
               if drop_it then Some (True, lp)
               else do {
                 translated \<leftarrow> read_bytes ip 0 ip_len;
                 let dst = overlay_dst lp original_dst;
                 r \<leftarrow> rewrite_ipv4_addresses translated ip_len (zerotier_ip lp) dst;
                 case r of
                   None \<Rightarrow> Some (False, lp)
                 | Some translated \<Rightarrow> do {
                     lp \<leftarrow> warn_mismatch ip ip_len original_dst dst lp;
                     (go, lp) \<leftarrow> reserve_port e ip ip_len lp;
                     if \<not> go then Some (True, lp)
                     else if dst = zerotier_broadcast_ip lp
                     then do {
                       (_, lp) \<leftarrow> lan_play_send_zerotier_ipv4_broadcast e translated ip_len lp;
                       Some (True, lp) }
                     else do {
                       (_, lp) \<leftarrow> lan_play_send_zerotier_ipv4 e dst translated ip_len lp;
                       Some (True, lp) } } } } } })"

section \<open>The delivery probe\<close>

text \<open>\<^verbatim>\<open>uv_hrtime()\<close> as it lies in memory on a little-endian host.\<close>

definition le64 :: "u64 \<Rightarrow> byte list" where
  "le64 w = map (\<lambda>i. ucast (drop_bit (8 * i) w)) [0..<8]"

definition probe_tag :: "byte list" where
  "probe_tag = [0x5a, 0x4c, 0x4c, 0x50, 0x52, 0x4f, 0x42, 0x45]"

definition probe_icmp :: "byte list \<Rightarrow> u16 \<Rightarrow> byte list" where
  "probe_icmp payload checksum = [8, 0] @ net16 checksum @ net16 0x5a4c @ net16 1 @ payload"

text \<open>The 44-byte packet before its addresses are filled in.\<close>

definition probe_packet :: "byte list \<Rightarrow> byte list" where
  "probe_packet payload =
     [0x45, 0] @ net16 44 @ [0, 0, 0, 0, 64, 1, 0, 0] @ replicate 8 0 @
     probe_icmp payload (ipv4_header_checksum (probe_icmp payload 0))"

definition probe_source :: "lan_play \<Rightarrow> ip4" where
  "probe_source lp = (if switch_dhcp lp then wifi_ip lp else ctx_ip (ctx lp))"

definition probe_wifi_delivery :: "env \<Rightarrow> lan_play \<Rightarrow> lan_play option" where
  "probe_wifi_delivery e lp =
     (if wifi_delivery_probe_sent lp then Some lp
      else do {
        let payload = probe_tag @ le64 (hrtime (clk e));
        let ip = probe_packet payload;
        r \<leftarrow> rewrite_ipv4_addresses ip 44 (probe_source lp) (switch_ip lp);
        let ip = (case r of Some ip \<Rightarrow> ip | None \<Rightarrow> ip);
        let lp = lp\<lparr>wifi_delivery_probe_payload := payload, wifi_delivery_probe_ip := switch_ip lp,
                   wifi_delivery_probe_mac := switch_mac lp, wifi_delivery_probe_sent := True\<rparr>;
        (_, lp) \<leftarrow> lan_play_send_wifi_ipv4 e (switch_mac lp) ip 44 lp;
        Some lp })"

definition consume_wifi_delivery_reply :: "byte list \<Rightarrow> lan_play \<Rightarrow> (bool \<times> lan_play) option" where
  "consume_wifi_delivery_reply frame lp =
     (if \<not> wifi_delivery_probe_sent lp \<or> length frame < 14 + 44 then Some (False, lp)
      else do {
        type \<leftarrow> read16 frame 12;
        src \<leftarrow> CPY_MAC frame ETHER_OFF_SRC;
        dst \<leftarrow> CPY_MAC frame ETHER_OFF_DST;
        if type \<noteq> ETHER_TYPE_IPV4 \<or> src \<noteq> wifi_delivery_probe_mac lp \<or> dst \<noteq> wifi_mac lp
        then Some (False, lp)
        else do {
          let ip = drop 14 frame;
          b0 \<leftarrow> read8 ip 0;
          total \<leftarrow> read16 ip 2;
          proto \<leftarrow> read8 ip 9;
          fo \<leftarrow> read16 ip 6;
          s \<leftarrow> CPY_IPV4 ip 12;
          d \<leftarrow> CPY_IPV4 ip 16;
          let hlen = header_len b0; let tlen = unat total;
          if ip_version b0 \<noteq> 4 \<or> hlen < 20 \<or> tlen \<noteq> hlen + 24 \<or> tlen > length frame - 14 \<or> proto \<noteq> 1 \<or>
             is_fragment fo \<or> s \<noteq> wifi_delivery_probe_ip lp \<or> d \<noteq> probe_source lp
          then Some (False, lp)
          else do {
            icmp \<leftarrow> read_bytes ip hlen 24;
            h \<leftarrow> read_bytes ip 0 hlen;
            if icmp ! 0 \<noteq> 0 \<or> icmp ! 1 \<noteq> 0 \<or> be16 (icmp ! 4) (icmp ! 5) \<noteq> 0x5a4c \<or>
               be16 (icmp ! 6) (icmp ! 7) \<noteq> 1 \<or> window icmp 8 16 \<noteq> wifi_delivery_probe_payload lp \<or>
               ipv4_header_checksum h \<noteq> 0 \<or> ipv4_header_checksum icmp \<noteq> 0
            then Some (False, lp)
            else Some (True, lp\<lparr>wifi_delivery_probe_replied := True\<rparr>) } } })"

section \<open>ZeroTier to Wi-Fi\<close>

definition lan_play_relay_zerotier_ipv4 :: "env \<Rightarrow> byte list \<Rightarrow> lan_play \<Rightarrow> (bool \<times> lan_play) option" where
  "lan_play_relay_zerotier_ipv4 e frame lp =
     (let frame_len = length frame mod 65536; ip = drop ETHER_HEADER_LEN frame
      in if \<not> switch_seen lp \<or> frame_len < ETHER_HEADER_LEN + IPV4_HEADER_LEN then Some (False, lp)
         else do {
           total \<leftarrow> read16 ip IPV4_OFF_TOTAL_LEN;
           original_dst \<leftarrow> CPY_IPV4 ip IPV4_OFF_DST;
           let ip_len = unat total;
           let bcast = (original_dst = zerotier_broadcast_ip lp);
           let for_switch = (\<not> bcast \<and> original_dst = switch_ip lp);
           if ip_len > ETHER_MTU \<or> frame_len < ETHER_HEADER_LEN + ip_len \<or>
              (\<not> bcast \<and> original_dst \<noteq> zerotier_ip lp \<and> \<not> for_switch)
           then Some (False, lp)
           else do {
             let lp = (if for_switch \<and> \<not> warned_direct_switch_delivery lp
                       then lp\<lparr>warned_direct_switch_delivery := True\<rparr> else lp);
             translated \<leftarrow> read_bytes ip 0 ip_len;
             src \<leftarrow> CPY_IPV4 ip IPV4_OFF_SRC;
             r \<leftarrow> rewrite_ipv4_addresses translated ip_len src
                    (if bcast then zerotier_broadcast_ip lp else switch_ip lp);
             case r of
               None \<Rightarrow> Some (False, lp)
             | Some translated \<Rightarrow> do {
                 (ret, lp) \<leftarrow> lan_play_send_wifi_ipv4 e (if bcast then BROADCAST_MAC else switch_mac lp)
                                translated ip_len lp;
                 b0 \<leftarrow> read8 ip 0;
                 proto \<leftarrow> read8 ip 9;
                 fo \<leftarrow> read16 ip 6;
                 let hl = header_len b0;
                 if ret = 0 \<and> \<not> bcast \<and> proto = IPV4_PROTOCOL_UDP \<and> \<not> is_fragment fo \<and> ip_len \<ge> hl + 8
                 then do {
                   port \<leftarrow> read16 ip (hl + 2);
                   lp \<leftarrow> (if port = 35000 then probe_wifi_delivery e lp else Some lp);
                   Some (True, lp) }
                 else Some (True, lp) } } })"

section \<open>Learning the console\<close>

text \<open>
  The claim a Wi-Fi frame makes: the IPv4 address of its sender, and whether it is direct evidence (an
  ARP packet, or a broadcast to the game's broadcast addresses).  \<open>Some None\<close>: no claim.
\<close>

definition switch_claim :: "byte list \<Rightarrow> lan_play \<Rightarrow> (ip4 \<times> bool) option option" where
  "switch_claim frame lp =
     (if length frame < ETHER_HEADER_LEN then Some None
      else do {
        src0 \<leftarrow> read8 frame 6;
        src \<leftarrow> CPY_MAC frame 6;
        if src0 AND 1 \<noteq> 0 \<or> src = NONE_MAC then Some None
        else do {
          let body = drop ETHER_HEADER_LEN frame;
          type \<leftarrow> read16 frame ETHER_OFF_TYPE;
          if type = ETHER_TYPE_ARP
          then if length frame < ETHER_HEADER_LEN + ARP_LEN then Some None
               else do {
                 hw \<leftarrow> read16 body 0; pr \<leftarrow> read16 body 2; hs \<leftarrow> read8 body 4; ps \<leftarrow> read8 body 5;
                 oc \<leftarrow> read16 body 6; sm \<leftarrow> CPY_MAC body 8; si \<leftarrow> CPY_IPV4 body 14;
                 Some (if hw \<noteq> 1 \<or> pr \<noteq> ETHER_TYPE_IPV4 \<or> hs \<noteq> 6 \<or> ps \<noteq> 4 \<or>
                          (oc \<noteq> ARP_OPCODE_REQUEST \<and> oc \<noteq> ARP_OPCODE_REPLY) \<or> sm \<noteq> src
                       then None else Some (si, True)) }
          else if type = ETHER_TYPE_IPV4
          then if length frame < ETHER_HEADER_LEN + IPV4_HEADER_LEN then Some None
               else do {
                 b0 \<leftarrow> read8 body 0;
                 total \<leftarrow> read16 body IPV4_OFF_TOTAL_LEN;
                 let hl = header_len b0;
                 if ip_version b0 \<noteq> 4 \<or> hl < IPV4_HEADER_LEN \<or> unat total < hl \<or>
                    unat total > length frame - ETHER_HEADER_LEN
                 then Some None
                 else do {
                   si \<leftarrow> CPY_IPV4 body IPV4_OFF_SRC;
                   di \<leftarrow> CPY_IPV4 body IPV4_OFF_DST;
                   dm \<leftarrow> CPY_MAC frame 0;
                   Some (Some (si, dm = BROADCAST_MAC \<and>
                     (di = zerotier_broadcast_ip lp \<or> is_nintendo_lan_broadcast di))) } }
          else Some None } })"

text \<open>Whether an address may be a console's: \<open>wifi_dest\<close> is the address range of the Wi-Fi network.\<close>

definition wifi_dest :: "lan_play \<Rightarrow> ip4 \<Rightarrow> bool" where
  "wifi_dest lp ip \<longleftrightarrow> wifi_subnet_known lp \<and> ip_in_subnet ip (wifi_subnet lp) (wifi_netmask lp)"

definition dhcp_candidate :: "lan_play \<Rightarrow> ip4 \<Rightarrow> bool" where
  "dhcp_candidate lp ip \<longleftrightarrow> wifi_dest lp ip \<and> \<not> is_zerotier_destination lp ip"

definition console_address :: "lan_play \<Rightarrow> ip4 \<Rightarrow> mac \<Rightarrow> bool" where
  "console_address lp ip m \<longleftrightarrow>
     (if (\<not> is_zerotier_destination lp ip \<and> \<not> wifi_dest lp ip) \<or> ip = zerotier_broadcast_ip lp \<or>
         ip = ctx_ip (ctx lp)
      then False
      else if wifi_dest lp ip \<and> (ip = wifi_broadcast lp \<or> ip = wifi_subnet lp) then False
      else if ip_and ip (ip_not (zerotier_netmask lp)) = NONE_IP then False
      else if dhcp_candidate lp ip \<and> \<not> is_nintendo_mac m then False
      else True)"

definition learn_local_switch :: "env \<Rightarrow> byte list \<Rightarrow> lan_play \<Rightarrow> (bool \<times> lan_play) option" where
  "learn_local_switch e frame lp = do {
     claim \<leftarrow> switch_claim frame lp;
     case claim of
       None \<Rightarrow> Some (False, lp)
     | Some (ip, direct) \<Rightarrow> do {
         src \<leftarrow> CPY_MAC frame 6;
         if \<not> console_address lp ip src then Some (False, lp)
         else if switch_seen lp \<and> ip \<noteq> switch_ip lp then Some (False, lp)
         else
           let changed = (\<not> switch_seen lp \<or> src \<noteq> switch_mac lp)
           in if switch_seen lp \<and> changed \<and> (switch_mac_confirmed lp \<or> \<not> direct)
              then Some (True, lp\<lparr>switch_mac_conflicts := switch_mac_conflicts lp + 1\<rparr>)
              else do {
                let lp = lp\<lparr>switch_ip := ip, switch_mac := src, switch_seen := True,
                           switch_mac_confirmed := switch_mac_confirmed lp \<or> direct\<rparr>;
                if \<not> changed then Some (True, lp)
                else do {
                  let lp = ctx_arp_set e src ip lp;
                  let lp = lp\<lparr>switch_dhcp := dhcp_candidate lp ip\<rparr>;
                  let lp = (if is_nintendo_mac src then lp\<lparr>switch_nintendo_oui := True\<rparr> else lp);
                  lp \<leftarrow> probe_wifi_delivery e lp;
                  Some (True, lp) } } } }"

section \<open>The discovery sweep\<close>

fun set_host :: "ip4 \<Rightarrow> byte \<Rightarrow> ip4" where
  "set_host (IP4 a b c d) h = IP4 a b c h"

fun host_of :: "ip4 \<Rightarrow> byte" where
  "host_of (IP4 a b c d) = d"

text \<open>The Wi-Fi subnet is swept first, then the overlay's; then the sweep pauses for 600 ticks.\<close>

definition sweep_wifi :: "lan_play \<Rightarrow> bool" where
  "sweep_wifi lp \<longleftrightarrow> switch_discovery_wifi_phase lp \<and> wifi_subnet_known lp"

definition sweep_target :: "lan_play \<Rightarrow> ip4" where
  "sweep_target lp = set_host (if sweep_wifi lp then wifi_ip lp else subnet_net (ctx lp)) (switch_discovery_host lp)"

definition sweep_sender :: "lan_play \<Rightarrow> ip4" where
  "sweep_sender lp = (if sweep_wifi lp then wifi_ip lp else ctx_ip (ctx lp))"

definition sweep_next :: "bool \<Rightarrow> lan_play \<Rightarrow> lan_play" where
  "sweep_next wifi_phase lp =
     (let lp = lp\<lparr>switch_discovery_host := switch_discovery_host lp + 1\<rparr>
      in if switch_discovery_host lp = 0 \<or> switch_discovery_host lp = 255
         then if wifi_phase
              then lp\<lparr>switch_discovery_host := 2, switch_discovery_wifi_phase := False\<rparr>
              else lp\<lparr>switch_discovery_host := 2, switch_discovery_wifi_phase := wifi_subnet_known lp,
                     switch_discovery_pause_ticks := 600\<rparr>
         else lp)"

definition switch_discovery_timer_cb :: "env \<Rightarrow> lan_play \<Rightarrow> lan_play option" where
  "switch_discovery_timer_cb e lp =
     (if switch_seen lp then Some (lp\<lparr>switch_discovery_active := False\<rparr>)
      else if switch_discovery_pause_ticks lp \<noteq> 0
      then Some (lp\<lparr>switch_discovery_pause_ticks := switch_discovery_pause_ticks lp - 1\<rparr>)
      else if sweep_wifi lp \<and> host_of (sweep_target lp) = host_of (wifi_ip lp)
      then Some (sweep_next (sweep_wifi lp) lp)
      else do {
        (_, lp') \<leftarrow> lan_play_send_wifi_arp_probe e (sweep_target lp) (sweep_sender lp) lp;
        Some (sweep_next (sweep_wifi lp) lp') })"

section \<open>The capture handlers\<close>

text \<open>\<open>len\<close> is the length on the wire, \<^term>\<open>length frame\<close> the captured length.\<close>

definition lan_play_pcap_handler :: "env \<Rightarrow> byte list \<Rightarrow> nat \<Rightarrow> mac \<Rightarrow> lan_play \<Rightarrow> lan_play option" where
  "lan_play_pcap_handler e frame len m lp =
     (if length frame < ETHER_HEADER_LEN then Some lp
      else do {
        src \<leftarrow> CPY_MAC frame ETHER_OFF_SRC;
        if src = m then diagnostic_log_frame e HOST frame lp
        else do {
          let lp = lp\<lparr>ingress_zerotier := False\<rparr>;
          lp \<leftarrow> diagnostic_count_rx False frame lp;
          lp \<leftarrow> diagnostic_log_frame e RX_WiFi frame lp;
          (consumed, lp) \<leftarrow> consume_wifi_delivery_reply frame lp;
          if consumed then Some lp
          else do {
            (consumed, lp) \<leftarrow> dhcp_server_consume e frame lp;
            if consumed then Some lp
            else do {
              (learnt, lp) \<leftarrow> learn_local_switch e frame lp;
              if \<not> learnt then Some lp
              else do {
                let lp = packet_set_mac m lp;
                type \<leftarrow> read16 frame ETHER_OFF_TYPE;
                (relayed, lp) \<leftarrow>
                  (if length frame \<ge> ETHER_HEADER_LEN + IPV4_HEADER_LEN \<and> type = ETHER_TYPE_IPV4
                   then lan_play_relay_wifi_ipv4 e frame lp else Some (False, lp));
                if relayed then Some lp else get_packet e frame len lp } } } } })"

text \<open>The sender an overlay frame is evidence for.\<close>

definition peer_claim :: "byte list \<Rightarrow> ip4 option option" where
  "peer_claim frame = do {
     let body = drop ETHER_HEADER_LEN frame;
     type \<leftarrow> read16 frame ETHER_OFF_TYPE;
     if type = ETHER_TYPE_IPV4
     then if length frame \<ge> ETHER_HEADER_LEN + IPV4_HEADER_LEN
          then do {
            b0 \<leftarrow> read8 body 0; si \<leftarrow> CPY_IPV4 body IPV4_OFF_SRC;
            Some (if ip_version b0 = 4 then Some si else None) }
          else Some None
     else if type = ETHER_TYPE_ARP \<and> length frame \<ge> ETHER_HEADER_LEN + ARP_LEN
     then do {
       hw \<leftarrow> read16 body 0; pr \<leftarrow> read16 body 2; hs \<leftarrow> read8 body 4; ps \<leftarrow> read8 body 5;
       sm \<leftarrow> CPY_MAC body 8; src \<leftarrow> CPY_MAC frame ETHER_OFF_SRC; si \<leftarrow> CPY_IPV4 body 14;
       Some (if hw = 1 \<and> pr = ETHER_TYPE_IPV4 \<and> hs = 6 \<and> ps = 4 \<and> sm = src then Some si else None) }
     else Some None }"

definition learn_peer :: "env \<Rightarrow> byte list \<Rightarrow> lan_play \<Rightarrow> lan_play option" where
  "learn_peer e frame lp = do {
     claim \<leftarrow> peer_claim frame;
     src0 \<leftarrow> read8 frame ETHER_OFF_SRC;
     src \<leftarrow> CPY_MAC frame ETHER_OFF_SRC;
     case claim of
       None \<Rightarrow> Some lp
     | Some ip \<Rightarrow>
         Some (if is_zerotier_destination lp ip \<and> ip \<noteq> zerotier_ip lp \<and> ip \<noteq> zerotier_broadcast_ip lp \<and>
                  src0 AND 1 = 0
               then lp\<lparr>zerotier_neighbors := (zerotier_neighbors lp)\<lparr>arp_table :=
                      fst (arp_set (arp_table (zerotier_neighbors lp)) (now (clk e))
                             (arp_ttl (zerotier_neighbors lp)) src ip)\<rparr>\<rparr>
               else lp) }"

definition lan_play_zerotier_pcap_handler ::
  "env \<Rightarrow> byte list \<Rightarrow> nat \<Rightarrow> mac \<Rightarrow> lan_play \<Rightarrow> lan_play option" where
  "lan_play_zerotier_pcap_handler e frame len m lp =
     (if length frame < ETHER_HEADER_LEN then Some lp
      else do {
        src \<leftarrow> CPY_MAC frame ETHER_OFF_SRC;
        if src = m then diagnostic_log_frame e HOST frame lp
        else do {
          lp \<leftarrow> learn_peer e frame lp;
          let lp = lp\<lparr>ingress_zerotier := True\<rparr>;
          lp \<leftarrow> diagnostic_count_rx True frame lp;
          lp \<leftarrow> diagnostic_log_frame e RX_ZeroTier frame lp;
          let lp = packet_set_mac m lp;
          type \<leftarrow> read16 frame ETHER_OFF_TYPE;
          (relayed, lp) \<leftarrow>
            (if length frame \<ge> ETHER_HEADER_LEN + IPV4_HEADER_LEN \<and> type = ETHER_TYPE_IPV4
             then lan_play_relay_zerotier_ipv4 e frame lp else Some (False, lp));
          if relayed then Some (lp\<lparr>ingress_zerotier := False\<rparr>)
          else do {
            lp \<leftarrow> get_packet e frame len lp;
            Some (lp\<lparr>ingress_zerotier := False\<rparr>) } } })"

section \<open>Correctness of the rewriting\<close>

lemma take_patch_in:
  "i + length vs \<le> n \<Longrightarrow> n \<le> length p \<Longrightarrow> take n (patch p i vs) = patch (take n p) i vs"
  by (intro nth_equalityI) (auto simp: nth_patch)

lemma take_patch_out:
  "n \<le> i \<Longrightarrow> i + length vs \<le> length p \<Longrightarrow> take n (patch p i vs) = take n p"
  by (intro nth_equalityI) (auto simp: nth_patch)

lemma patch_twice:
  "length a = length b \<Longrightarrow> i + length a \<le> length p \<Longrightarrow> patch (patch p i a) i b = patch p i b"
  by (intro nth_equalityI) (auto simp: nth_patch)

text \<open>An IPv4 header whose lengths fit the buffer.\<close>

definition ipv4_valid :: "byte list \<Rightarrow> nat \<Rightarrow> bool" where
  "ipv4_valid ip n \<longleftrightarrow> 20 \<le> n \<and> n \<le> length ip \<and>
     (let h = header_len (ip ! 0); t = unat (be16 (ip ! 2) (ip ! 3)) in 20 \<le> h \<and> h \<le> t \<and> t \<le> n)"

definition has_udp :: "byte list \<Rightarrow> bool" where
  "has_udp ip \<longleftrightarrow> ip ! 9 = IPV4_PROTOCOL_UDP \<and>
     header_len (ip ! 0) + 8 \<le> unat (be16 (ip ! 2) (ip ! 3))"

text \<open>What a translated packet must be: the new addresses, valid checksums, and every other byte as
  it was.\<close>

definition translated_ok :: "byte list \<Rightarrow> ip4 \<Rightarrow> ip4 \<Rightarrow> byte list \<Rightarrow> bool" where
  "translated_ok ip src dst q \<longleftrightarrow>
     (let h = header_len (ip ! 0); t = unat (be16 (ip ! 2) (ip ! 3))
      in length q = length ip \<and> ip_at q 12 = src \<and> ip_at q 16 = dst \<and>
         ipv4_header_checksum (take h q) = 0 \<and>
         (has_udp ip \<longrightarrow> udp_verifies q h t \<and> be16 (q ! (h + 6)) (q ! (h + 7)) \<noteq> 0) \<and>
         (\<forall>k < length ip. \<not> (10 \<le> k \<and> k < 20) \<longrightarrow> \<not> (has_udp ip \<and> (k = h + 6 \<or> k = h + 7)) \<longrightarrow>
            q ! k = ip ! k))"

lemma rewrite_header:
  fixes ip :: "byte list" and s d :: ip4
  assumes "20 \<le> h" "even h" "h \<le> 60" "h \<le> length ip"
  defines "p \<equiv> patch (patch ip 12 (ip_bytes s)) 16 (ip_bytes d)"
  defines "q \<equiv> patch p 10 (net16 (ipv4_header_checksum (take h (patch p 10 [0, 0]))))"
  shows "length q = length ip" "ip_at q 12 = s" "ip_at q 16 = d" "ipv4_header_checksum (take h q) = 0"
    "k < length ip \<Longrightarrow> \<not> (10 \<le> k \<and> k < 20) \<Longrightarrow> q ! k = ip ! k"
proof -
  have p: "length p = length ip" using assms by (simp add: p_def)
  show "length q = length ip" using assms p by (simp add: q_def)
  show "ip_at q 12 = s" "ip_at q 16 = d"
    using assms p by (simp_all add: q_def p_def ip_at_patch_disjoint)
  have "take h (patch p 10 [0, 0]) = patch (take h p) 10 [0, 0]"
    using assms p by (intro take_patch_in) simp_all
  moreover have "take h q = patch (take h p) 10 (net16 (ipv4_header_checksum (take h (patch p 10 [0, 0]))))"
    unfolding q_def using assms(1,4) p by (intro take_patch_in) simp_all
  ultimately show "ipv4_header_checksum (take h q) = 0"
    using header_cks.field_verifies [of "take h p" 10] assms(1-4) p by simp
  show "q ! k = ip ! k" if "k < length ip" "\<not> (10 \<le> k \<and> k < 20)"
    using that assms(1,4) p by (auto simp: q_def p_def nth_patch)
qed

lemma rewrite_ok:
  assumes valid: "ipv4_valid ip n" and n: "n \<le> 65535"
  shows "\<exists>q. rewrite_ipv4_addresses ip n src dst = Some (Some q) \<and> translated_ok ip src dst q"
proof -
  define h where "h = header_len (ip ! 0)"
  define t where "t = unat (be16 (ip ! 2) (ip ! 3))"
  have ht: "20 \<le> h" "h \<le> t" "t \<le> n" "n \<le> length ip" "even h" "h \<le> 60" "20 \<le> n" "ip \<noteq> []"
    using valid by (auto simp: ipv4_valid_def h_def t_def Let_def header_len_le even_header_len)
  define p where "p = patch (patch ip 12 (ip_bytes src)) 16 (ip_bytes dst)"
  define q where "q = patch p 10 (net16 (ipv4_header_checksum (take h (patch p 10 [0, 0]))))"
  note hdr = rewrite_header [where h = h and ip = ip and s = src and d = dst, folded p_def, folded q_def]
  have lp: "length p = length ip" using ht by (simp add: p_def)
  have lq: "length q = length ip" using hdr ht by simp
  have q9: "q ! 9 = ip ! 9" using hdr(5) [of 9] ht by simp
  have p9: "p ! 9 = ip ! 9" using ht by (simp add: p_def nth_patch)
  have twice: "patch (patch p 10 [0, 0]) 10 (net16 c) = patch p 10 (net16 c)" for c
    using lp ht by (intro patch_twice) simp_all
  have eval: "rewrite_ipv4_addresses ip n src dst =
      (if q ! 9 = 17 \<and> t \<ge> h + 8
       then do { c \<leftarrow> udp_checksum (patch q (h + 6) [0, 0]) h t;
                 Some (Some (patch (patch q (h + 6) [0, 0]) (h + 6) (net16 c))) }
       else Some (Some q))"
    using ht lp lq unfolding rewrite_ipv4_addresses_def
    by (simp add: checked_access write_bytes_Some h_def [symmetric] t_def [symmetric] p_def [symmetric]
        Let_def window_def twice q_def [symmetric] q9 p9)
  show ?thesis
  proof (cases "has_udp ip")
    case False
    then have "rewrite_ipv4_addresses ip n src dst = Some (Some q)"
      using eval q9 by (auto simp: has_udp_def h_def t_def)
    moreover have "translated_ok ip src dst q"
      using False hdr ht by (simp add: translated_ok_def Let_def h_def [symmetric] t_def [symmetric])
    ultimately show ?thesis by blast
  next
    case True
    then have udp: "q ! 9 = 17" "h + 8 \<le> t" using q9 by (simp_all add: has_udp_def h_def t_def)
    obtain c where c: "udp_checksum (patch q (h + 6) [0, 0]) h t = Some c"
      using udp_checksum_ones [of h t "patch q (h + 6) [0, 0]"] ht udp lq n by auto
    have v: "c \<noteq> 0" "udp_verifies (patch q (h + 6) (net16 c)) h t"
      using udp_checksum_field_verifies [of h t q c] ht udp lq n c by simp_all
    let ?r = "patch q (h + 6) (net16 c)"
    have "patch (patch q (h + 6) [0, 0]) (h + 6) (net16 c) = ?r"
      using lq ht udp by (intro patch_twice) simp_all
    then have "rewrite_ipv4_addresses ip n src dst = Some (Some ?r)" using eval udp c by simp
    moreover have "take h ?r = take h q" using lq ht udp by (intro take_patch_out) simp_all
    moreover have "be16 (?r ! (h + 6)) (?r ! (h + 7)) = c"
      using lq ht udp by (simp add: nth_patch net16_def)
    moreover have "?r ! k = ip ! k" if "k < length ip" "\<not> (10 \<le> k \<and> k < 20)" "k \<noteq> h + 6" "k \<noteq> h + 7" for k
      using that hdr(5) [of k] ht udp lq by (auto simp: nth_patch)
    ultimately show ?thesis
      using True hdr ht udp lq v
      by (auto simp: translated_ok_def Let_def h_def [symmetric] t_def [symmetric] ip_at_patch_disjoint)
  qed
qed

lemma rewrite_invalid:
  assumes "\<not> ipv4_valid ip n" "n \<le> length ip"
  shows "rewrite_ipv4_addresses ip n src dst = Some None"
proof (cases "n < 20")
  case False
  moreover from this have "ip \<noteq> []" "20 \<le> length ip" using assms by auto
  ultimately show ?thesis using assms
    by (auto simp: rewrite_ipv4_addresses_def ipv4_valid_def Let_def checked_access)
qed (simp add: rewrite_ipv4_addresses_def)

section \<open>Safety of forwarding\<close>

lemma progress_fields:
  assumes "relay_ok lp"
  shows "progress lp (lp\<lparr>warned_broadcast_mismatch := b\<rparr>)"
    "progress lp (lp\<lparr>warned_direct_switch_delivery := b\<rparr>)" "progress lp (lp\<lparr>ingress_zerotier := b\<rparr>)"
    "progress lp (lp\<lparr>switch_mac_conflicts := c\<rparr>)" "progress lp (lp\<lparr>counters := k\<rparr>)"
    "progress lp (lp\<lparr>wifi_delivery_probe_replied := b\<rparr>)" "progress lp (lp\<lparr>zerotier_neighbors := nb\<rparr>)"
    "progress lp (lp\<lparr>wifi_delivery_probe_payload := pl, wifi_delivery_probe_ip := pi,
       wifi_delivery_probe_mac := pm, wifi_delivery_probe_sent := True\<rparr>)"
    "progress lp (lp\<lparr>switch_dhcp := b\<rparr>)" "progress lp (lp\<lparr>switch_nintendo_oui := b\<rparr>)"
    "progress lp (lp\<lparr>switch_discovery_host := h\<rparr>)"
    "progress lp (lp\<lparr>switch_discovery_pause_ticks := pt\<rparr>)"
    "progress lp (lp\<lparr>switch_discovery_active := b\<rparr>)" "progress lp (lp\<lparr>switch_discovery_wifi_phase := b\<rparr>)"
  using assms by (simp_all add: advance_def relay_ok_def io_ok_def all_sides link_of_def hw_addr_def still_defs)

text \<open>Forwarding from the console changes the port guard, learning the console's entry.\<close>

definition but_guard :: "lan_play \<Rightarrow> _" where
  "but_guard lp = (config lp, console lp, dhcp_state lp)"

definition but_console :: "lan_play \<Rightarrow> _" where
  "but_console lp = (config lp, dhcp_state lp, udp_guard lp)"

lemma advance_but:
  "progress lp lp' \<Longrightarrow> advance but_guard lp lp'" "progress lp lp' \<Longrightarrow> advance but_console lp lp'"
  by (auto elim!: advance_weaken simp: still_def but_guard_def but_console_def)

lemma advance_udp_guard: "relay_ok lp \<Longrightarrow> advance but_guard lp (lp\<lparr>udp_guard := g\<rparr>)"
  by (simp add: advance_def relay_ok_def io_ok_def all_sides link_of_def hw_addr_def config_def console_def but_guard_def)

lemma advance_switch:
  "relay_ok lp \<Longrightarrow>
     advance but_console lp (lp\<lparr>switch_ip := i, switch_mac := m, switch_seen := b, switch_mac_confirmed := cf\<rparr>)"
  by (simp add: advance_def relay_ok_def io_ok_def all_sides link_of_def hw_addr_def config_def but_console_def)

lemma progress_log: "relay_ok lp \<Longrightarrow> progress lp (log_frame e d f lp)"
  using io_ok_bookkeeping(2) [of lp e d f]
  by (simp add: advance_def relay_ok_def) (simp add: log_frame_def all_sides hw_addr_def still_defs)

text \<open>The checked reads of the three tests succeed on a captured header; these are their values.\<close>

definition port_unreachable :: "byte list \<Rightarrow> nat \<Rightarrow> bool" where
  "port_unreachable ip n \<longleftrightarrow>
     (let h = header_len (ip ! 0)
      in ip ! 9 = IPV4_PROTOCOL_ICMP \<and> \<not> is_fragment (be16 (ip ! 6) (ip ! 7)) \<and> 20 \<le> h \<and> h + 8 \<le> n \<and>
         ip ! h = 3 \<and> ip ! (h + 1) = 3)"

definition first_udp_fragment :: "byte list \<Rightarrow> nat \<Rightarrow> bool" where
  "first_udp_fragment ip n \<longleftrightarrow> ip ! 9 = IPV4_PROTOCOL_UDP \<and> be16 (ip ! 6) (ip ! 7) AND 0x1fff = 0 \<and>
     header_len (ip ! 0) + 8 \<le> n"

definition udp_source :: "byte list \<Rightarrow> u16" where
  "udp_source ip = be16 (ip ! header_len (ip ! 0)) (ip ! (header_len (ip ! 0) + 1))"

definition reserve_result :: "env \<Rightarrow> byte list \<Rightarrow> nat \<Rightarrow> lan_play \<Rightarrow> uv_status \<times> native_udp_guard option" where
  "reserve_result e ip n lp =
     (if first_udp_fragment ip n then native_udp_guard_reserve (udp_socks e) (udp_guard lp) (udp_source ip)
      else (None, udp_guard lp))"

definition game_mismatch :: "byte list \<Rightarrow> nat \<Rightarrow> ip4 \<Rightarrow> ip4 \<Rightarrow> bool" where
  "game_mismatch ip n od d \<longleftrightarrow>
     (let h = header_len (ip ! 0)
      in ip ! 9 = IPV4_PROTOCOL_UDP \<and> h + 8 \<le> n \<and> \<not> is_fragment (be16 (ip ! 6) (ip ! 7)) \<and>
         be16 (ip ! (h + 2)) (ip ! (h + 2 + 1)) = 35000 \<and> is_nintendo_lan_broadcast od \<and> od \<noteq> d)"

lemma header_reads:
  assumes "n \<le> length ip" "20 \<le> length ip"
  shows "is_port_unreachable ip n = Some (port_unreachable ip n)"
    "warn_mismatch ip n od d lp =
       Some (lp\<lparr>warned_broadcast_mismatch := warned_broadcast_mismatch lp \<or> game_mismatch ip n od d\<rparr>)"
    "reserve_port e ip n lp =
       Some (fst (reserve_result e ip n lp) = None, lp\<lparr>udp_guard := snd (reserve_result e ip n lp)\<rparr>)"
proof -
  have ne: "ip \<noteq> []" using assms by auto
  show "is_port_unreachable ip n = Some (port_unreachable ip n)"
    using assms ne by (auto simp: is_port_unreachable_def port_unreachable_def Let_def checked_access)
  show "warn_mismatch ip n od d lp =
       Some (lp\<lparr>warned_broadcast_mismatch := warned_broadcast_mismatch lp \<or> game_mismatch ip n od d\<rparr>)"
    using assms ne by (auto simp: warn_mismatch_def game_mismatch_def Let_def checked_access)
  show "reserve_port e ip n lp =
       Some (fst (reserve_result e ip n lp) = None, lp\<lparr>udp_guard := snd (reserve_result e ip n lp)\<rparr>)"
    using assms ne
    by (auto simp: reserve_port_def reserve_result_def first_udp_fragment_def udp_source_def Let_def checked_access
        split: prod.split)
qed

text \<open>The frames \<^verbatim>\<open>lan_play_relay_wifi_ipv4\<close> takes on, and the translation they get.\<close>

definition wifi_relayable :: "byte list \<Rightarrow> lan_play \<Rightarrow> bool" where
  "wifi_relayable frame lp \<longleftrightarrow>
     (let ip = drop 14 frame; t = unat (be16 (ip ! 2) (ip ! 3)); d = ip_at ip 16
      in switch_seen lp \<and> 34 \<le> length frame \<and> ip_at ip 12 = switch_ip lp \<and> t \<le> 1500 \<and>
         14 + t \<le> length frame \<and> overlay_target lp d)"

lemma relay_wifi_not_relayable:
  assumes "length frame < 65536" "\<not> wifi_relayable frame lp"
  shows "lan_play_relay_wifi_ipv4 e frame lp = Some (False, lp)"
proof (cases "34 \<le> length frame")
  case True
  then show ?thesis using assms
    by (auto simp: lan_play_relay_wifi_ipv4_def wifi_relayable_def Let_def checked_access)
qed (use assms in \<open>simp add: lan_play_relay_wifi_ipv4_def\<close>)

lemma relay_wifi_eval:
  fixes e :: env
  assumes len: "length frame < 65536" and rel: "wifi_relayable frame lp"
  defines "ip \<equiv> drop 14 frame"
  defines "t \<equiv> unat (be16 (ip ! 2) (ip ! 3))"
  defines "d \<equiv> overlay_dst lp (ip_at ip 16)"
  defines "lp1 \<equiv> lp\<lparr>warned_broadcast_mismatch := warned_broadcast_mismatch lp \<or> game_mismatch ip t (ip_at ip 16) d\<rparr>"
  defines "lp2 \<equiv> lp1\<lparr>udp_guard := snd (reserve_result e ip t lp1)\<rparr>"
  shows "lan_play_relay_wifi_ipv4 e frame lp =
      (if port_unreachable ip t then Some (True, lp)
       else if \<not> ipv4_valid (take t ip) t then Some (False, lp)
       else if fst (reserve_result e ip t lp1) \<noteq> None then Some (True, lp2)
       else do {
         q \<leftarrow> rewrite_ipv4_addresses (take t ip) t (zerotier_ip lp) d;
         (_, lp) \<leftarrow> (if d = zerotier_broadcast_ip lp
                   then lan_play_send_zerotier_ipv4_broadcast e (the q) t lp2
                   else lan_play_send_zerotier_ipv4 e d (the q) t lp2);
         Some (True, lp) })"
proof -
  have t: "t \<le> length ip" "20 \<le> length ip" "t \<le> 1500" "ip \<noteq> []" "34 \<le> length frame"
    using rel by (auto simp: wifi_relayable_def Let_def ip_def t_def)
  have take: "read_bytes ip 0 t = Some (take t ip)" using t by (simp add: read_bytes_Some window_def)
  have len_take: "t \<le> length (take t ip)" using t by simp
  note facts = checked_access header_reads t_def [symmetric]
  have pre: "switch_seen lp" "ip_at ip 12 = switch_ip lp" "14 + t \<le> length frame" "overlay_target lp (ip_at ip 16)"
    using rel unfolding wifi_relayable_def Let_def ip_def t_def by blast+
  show ?thesis
  proof (cases "ipv4_valid (take t ip) t")
    case True
    then obtain q where "rewrite_ipv4_addresses (take t ip) t (zerotier_ip lp) d = Some (Some q)"
      using rewrite_ok [OF True, of "zerotier_ip lp" d] t by auto
    then show ?thesis using pre True len t take
      unfolding lan_play_relay_wifi_ipv4_def Let_def ip_def [symmetric] lp2_def lp1_def d_def
      by (simp add: facts)
  next
    case False
    then show ?thesis using pre len t take rewrite_invalid [OF False len_take, of "zerotier_ip lp" d]
      unfolding lan_play_relay_wifi_ipv4_def Let_def ip_def [symmetric] d_def by (simp add: facts)
  qed
qed

text \<open>The state in which a relayed Wi-Fi packet is sent.\<close>

definition wifi_relay_state :: "env \<Rightarrow> byte list \<Rightarrow> lan_play \<Rightarrow> lan_play" where
  "wifi_relay_state e frame lp =
     (let ip = drop 14 frame; t = unat (be16 (ip ! 2) (ip ! 3));
          lp1 = lp\<lparr>warned_broadcast_mismatch := warned_broadcast_mismatch lp \<or>
                   game_mismatch ip t (ip_at ip 16) (overlay_dst lp (ip_at ip 16))\<rparr>
      in lp1\<lparr>udp_guard := snd (reserve_result e ip t lp1)\<rparr>)"

definition wifi_port_ok :: "env \<Rightarrow> byte list \<Rightarrow> lan_play \<Rightarrow> bool" where
  "wifi_port_ok e frame lp \<longleftrightarrow>
     (let ip = drop 14 frame in fst (reserve_result e ip (unat (be16 (ip ! 2) (ip ! 3))) lp) = None)"

lemma reserve_result_cong [simp]:
  "reserve_result e ip t (lp\<lparr>warned_broadcast_mismatch := w\<rparr>) = reserve_result e ip t lp"
  by (simp add: reserve_result_def)

lemma wifi_relay_state_advance: "relay_ok lp \<Longrightarrow> advance but_guard lp (wifi_relay_state e frame lp)"
  unfolding wifi_relay_state_def Let_def
  by (rule progress_trans [OF advance_but(1) [OF progress_fields(1)] advance_udp_guard])
    (auto intro: progress_ok progress_fields(1))

lemma wifi_relay_state_guard:
  "guard_opt_ok (udp_guard lp) \<Longrightarrow> guard_opt_ok (udp_guard (wifi_relay_state e frame lp))"
  by (simp add: wifi_relay_state_def Let_def reserve_result_def udp_guard.wf_reserve)

lemma wifi_relay_state_fields [simp]:
  "zerotier_mac (wifi_relay_state e f lp) = zerotier_mac lp"
  "zerotier_ip (wifi_relay_state e f lp) = zerotier_ip lp"
  "zerotier_neighbors (wifi_relay_state e f lp) = zerotier_neighbors lp"
  "out (wifi_relay_state e f lp) = out lp"
  by (simp_all add: wifi_relay_state_def Let_def)

lemma relay_wifi_eval':
  assumes len: "length frame < 65536" and rel: "wifi_relayable frame lp"
    and valid: "ipv4_valid (take t ip) t" "\<not> port_unreachable ip t" "wifi_port_ok e frame lp"
    and ip: "ip = drop 14 frame" and t: "t = unat (be16 (ip ! 2) (ip ! 3))"
    and d: "d = overlay_dst lp (ip_at ip 16)"
  shows "\<exists>q. translated_ok (take t ip) (zerotier_ip lp) d q \<and> length q = t \<and> 20 \<le> t \<and> t \<le> 1500 \<and>
    lan_play_relay_wifi_ipv4 e frame lp = do {
      (_, lp) \<leftarrow> (if d = zerotier_broadcast_ip lp
                then lan_play_send_zerotier_ipv4_broadcast e q t (wifi_relay_state e frame lp)
                else lan_play_send_zerotier_ipv4 e d q t (wifi_relay_state e frame lp));
      Some (True, lp) }"
proof -
  have t': "20 \<le> t" "t \<le> 1500" "t \<le> length ip"
    using valid(1) rel unfolding ip t by (auto simp: ipv4_valid_def wifi_relayable_def Let_def)
  obtain q where q: "rewrite_ipv4_addresses (take t ip) t (zerotier_ip lp) d = Some (Some q)"
    "translated_ok (take t ip) (zerotier_ip lp) d q"
    using rewrite_ok [OF valid(1), of "zerotier_ip lp" d] t' by auto
  have "length q = t" using q(2) t' by (simp add: translated_ok_def Let_def)
  moreover have "lan_play_relay_wifi_ipv4 e frame lp = do {
      (_, lp) \<leftarrow> (if d = zerotier_broadcast_ip lp
                then lan_play_send_zerotier_ipv4_broadcast e q t (wifi_relay_state e frame lp)
                else lan_play_send_zerotier_ipv4 e d q t (wifi_relay_state e frame lp));
      Some (True, lp) }"
    using relay_wifi_eval [OF len rel, of e, folded ip, folded t d] valid q(1)
    by (simp add: wifi_relay_state_def wifi_port_ok_def Let_def ip [symmetric] t [symmetric] d [symmetric])
  ultimately show ?thesis using q(2) t' by blast
qed

lemma relay_wifi_advance:
  assumes ok: "relay_ok lp" and len: "length frame < 65536"
  shows "\<exists>b lp'. lan_play_relay_wifi_ipv4 e frame lp = Some (b, lp') \<and> advance but_guard lp lp' \<and>
    (guard_opt_ok (udp_guard lp) \<longrightarrow> guard_opt_ok (udp_guard lp'))"
proof (cases "wifi_relayable frame lp")
  case False
  then show ?thesis using relay_wifi_not_relayable [OF len False] progress_refl [OF ok] by blast
next
  case rel: True
  define ip where "ip = drop 14 frame"
  define t where "t = unat (be16 (ip ! 2) (ip ! 3))"
  define d where "d = overlay_dst lp (ip_at ip 16)"
  note ev = relay_wifi_eval [OF len rel, of e, folded ip_def, folded t_def d_def]
  have p: "advance but_guard lp (wifi_relay_state e frame lp)" by (rule wifi_relay_state_advance [OF ok])
  show ?thesis
  proof (cases "ipv4_valid (take t ip) t \<and> \<not> port_unreachable ip t \<and> wifi_port_ok e frame lp")
    case True
    then obtain q where q: "length q = t" "lan_play_relay_wifi_ipv4 e frame lp = do {
      (_, lp) \<leftarrow> (if d = zerotier_broadcast_ip lp
                then lan_play_send_zerotier_ipv4_broadcast e q t (wifi_relay_state e frame lp)
                else lan_play_send_zerotier_ipv4 e d q t (wifi_relay_state e frame lp));
      Some (True, lp) }"
      using relay_wifi_eval' [OF len rel, of t ip e d] by (auto simp: ip_def t_def d_def)
    have "safe (lan_play_send_zerotier_ipv4_broadcast e q t) (wifi_relay_state e frame lp)"
      "safe (lan_play_send_zerotier_ipv4 e d q t) (wifi_relay_state e frame lp)"
      using q(1) progress_ok [OF p] by (auto intro: safe_zerotier_broadcast safe_zerotier_ipv4)
    then obtain r lp' where "lan_play_relay_wifi_ipv4 e frame lp = Some (True, lp')"
      "progress (wifi_relay_state e frame lp) lp'" using q(2) by (auto simp: safe_def split: if_splits)
    then show ?thesis using progress_trans [OF p advance_but(1)] wifi_relay_state_guard [of lp e frame]
      by (auto dest: advance_same simp: still_def)
  next
    case False
    then have "lan_play_relay_wifi_ipv4 e frame lp \<in>
        {Some (True, lp), Some (False, lp), Some (True, wifi_relay_state e frame lp)}"
      using ev by (simp add: wifi_port_ok_def wifi_relay_state_def Let_def ip_def [symmetric] t_def [symmetric]
          d_def [symmetric]) auto
    then show ?thesis using p progress_refl [OF ok] wifi_relay_state_guard [of lp e frame] by blast
  qed
qed

section \<open>Properties\<close>

text \<open>
  C7.  The address translation is correct and total.  On a valid IPv4 packet \<^verbatim>\<open>rewrite_ipv4_addresses\<close> puts the new
  source and destination in, leaves every other byte but the checksums unchanged, and the header checksum, and the
  UDP checksum of a datagram, are valid again; an invalid packet (too short, a header length below 20 or beyond the
  total length, a total length beyond the bytes given) is refused unchanged.
\<close>

theorem rewrite_translates:
  assumes "n \<le> length ip" "n \<le> 65535"
  shows "if ipv4_valid ip n
    then \<exists>q. rewrite_ipv4_addresses ip n src dst = Some (Some q) \<and> translated_ok ip src dst q
    else rewrite_ipv4_addresses ip n src dst = Some None"
  using rewrite_ok [of ip n src dst] rewrite_invalid [of ip n src dst] assms by simp

theorem rewrite_translates_witness:
  "\<exists>q. rewrite_ipv4_addresses [0x45, 0, 0, 28, 0, 1, 0, 0, 64, 17, 0, 0, 10, 0, 0, 1, 10, 0, 0, 2, 0x88, 0xb8, 0x88, 0xb8, 0, 8, 0, 0] 28
      (IP4 10 147 17 5) (IP4 10 147 17 9) = Some (Some q) \<and> ip_at q 12 = IP4 10 147 17 5 \<and> ip_at q 16 = IP4 10 147 17 9"
proof -
  let ?p = "[0x45, 0, 0, 28, 0, 1, 0, 0, 64, 17, 0, 0, 10, 0, 0, 1, 10, 0, 0, 2, 0x88, 0xb8, 0x88, 0xb8, 0, 8, 0, 0] :: byte list"
  have "ipv4_valid ?p 28" by (simp add: ipv4_valid_def header_len_def be16_def)
  then have "\<exists>q. rewrite_ipv4_addresses ?p 28 (IP4 10 147 17 5) (IP4 10 147 17 9) = Some (Some q) \<and>
      translated_ok ?p (IP4 10 147 17 5) (IP4 10 147 17 9) q" using rewrite_translates [of 28 ?p] by simp
  then show ?thesis unfolding translated_ok_def Let_def by blast
qed

text \<open>
  Later fragments are damaged.  The translation rewrites the UDP checksum whenever the protocol is UDP, also in a
  fragment that does not start with a UDP header: its two payload bytes at that place, when they are 0, are never 0
  afterwards.
\<close>

theorem rewrite_damages_fragments:
  assumes valid: "ipv4_valid ip n" "n \<le> 65535" and udp: "has_udp ip" and later: "be16 (ip ! 6) (ip ! 7) AND 0x1fff \<noteq> 0"
    and zero: "be16 (ip ! (header_len (ip ! 0) + 6)) (ip ! (header_len (ip ! 0) + 7)) = 0"
  shows "\<exists>q. rewrite_ipv4_addresses ip n src dst = Some (Some q) \<and> be16 (q ! 6) (q ! 7) = be16 (ip ! 6) (ip ! 7) \<and>
    be16 (q ! (header_len (ip ! 0) + 6)) (q ! (header_len (ip ! 0) + 7)) \<noteq> 0"
proof -
  obtain q where q: "rewrite_ipv4_addresses ip n src dst = Some (Some q)" "translated_ok ip src dst q"
    using rewrite_ok [OF valid] by blast
  have h: "20 \<le> header_len (ip ! 0)" "20 \<le> length ip" using valid(1) by (auto simp: ipv4_valid_def Let_def)
  have "q ! k = ip ! k" if "k < 10" for k using q(2) h that unfolding translated_ok_def Let_def by auto
  then show ?thesis using q udp unfolding translated_ok_def Let_def by auto
qed

theorem rewrite_damages_fragments_witness:
  "\<exists>q. rewrite_ipv4_addresses [0x45, 0, 0, 28, 0, 1, 0, 1, 64, 17, 0, 0, 10, 0, 0, 1, 10, 0, 0, 2, 0, 0, 0, 0, 0, 0, 0, 0] 28
      (IP4 10 147 17 5) (IP4 10 147 17 9) = Some (Some q) \<and> be16 (q ! 26) (q ! 27) \<noteq> 0"
proof -
  let ?p = "[0x45, 0, 0, 28, 0, 1, 0, 1, 64, 17, 0, 0, 10, 0, 0, 1, 10, 0, 0, 2, 0, 0, 0, 0, 0, 0, 0, 0] :: byte list"
  have h: "header_len (?p ! 0) = 20" by (simp add: header_len_def)
  have v: "ipv4_valid ?p 28" "has_udp ?p" "be16 (?p ! 6) (?p ! 7) AND 0x1fff \<noteq> 0"
    "be16 (?p ! (header_len (?p ! 0) + 6)) (?p ! (header_len (?p ! 0) + 7)) = 0" "(28 :: nat) \<le> 65535"
    by (simp_all add: ipv4_valid_def has_udp_def header_len_def be16_def)
  obtain q where "rewrite_ipv4_addresses ?p 28 (IP4 10 147 17 5) (IP4 10 147 17 9) = Some (Some q)"
    "be16 (q ! (20 + 6)) (q ! (20 + 7)) \<noteq> 0"
    using rewrite_damages_fragments [OF v(1,5,2,3,4), of "IP4 10 147 17 5" "IP4 10 147 17 9"] unfolding h by blast
  then show ?thesis by (intro exI [of _ q]) simp
qed

end
