(* ===== verification/Relay_Safety.thy ===== *)
theory Relay_Safety
  imports Relay
begin

text \<open>
  What the relay's handlers do to the state: the delivery probe, forwarding from ZeroTier to Wi-Fi,
  learning the console, the discovery sweep and the two capture handlers.  Each runs without an access
  outside a buffer and only appends frames that carry the address of their own adapter.
\<close>

section \<open>The delivery probe\<close>

definition probe_request :: "env \<Rightarrow> lan_play \<Rightarrow> byte list" where
  "probe_request e lp = probe_packet (probe_tag @ le64 (hrtime (clk e)))"

definition mark_probe :: "env \<Rightarrow> lan_play \<Rightarrow> lan_play" where
  "mark_probe e lp = lp\<lparr>wifi_delivery_probe_payload := probe_tag @ le64 (hrtime (clk e)),
     wifi_delivery_probe_ip := switch_ip lp, wifi_delivery_probe_mac := switch_mac lp,
     wifi_delivery_probe_sent := True\<rparr>"

lemma length_le64 [simp]: "length (le64 w) = 8"
  by (simp add: le64_def)

lemma length_probe_tag [simp]: "length probe_tag = 8"
  by (simp add: probe_tag_def)

lemma length_probe_request [simp]: "length (probe_request e lp) = 44"
  by (simp add: probe_request_def probe_packet_def probe_icmp_def)

lemma probe_request_nth:
  "probe_request e lp ! 0 = 0x45" "probe_request e lp ! 2 = 0" "probe_request e lp ! 3 = 44"
  "probe_request e lp ! 9 = 1"
  by (simp_all add: probe_request_def probe_packet_def net16_def hi8_def lo8_def)

lemma probe_request_valid: "ipv4_valid (probe_request e lp) 44" "\<not> has_udp (probe_request e lp)"
  by (simp_all add: ipv4_valid_def has_udp_def probe_request_nth header_len_def be16_def)

lemma probe_sent:
  assumes ok: "io_ok lp" and first: "\<not> wifi_delivery_probe_sent lp"
  shows "\<exists>q r lp'. translated_ok (probe_request e lp) (probe_source lp) (switch_ip lp) q \<and>
    probe_wifi_delivery e lp = Some lp' \<and>
    sent WiFi (ether_bytes (switch_mac lp) (wifi_mac lp) ETHER_TYPE_IPV4 q) r (mark_probe e lp) lp'"
proof -
  obtain q where q: "rewrite_ipv4_addresses (probe_request e lp) 44 (probe_source lp) (switch_ip lp) = Some (Some q)"
    "translated_ok (probe_request e lp) (probe_source lp) (switch_ip lp) q"
    using rewrite_ok [OF probe_request_valid(1)] by fastforce
  have len: "length q = 44" using q(2) by (simp add: translated_ok_def Let_def)
  have "io_ok (mark_probe e lp)" using ok by (simp add: mark_probe_def io_ok_def all_sides link_of_def hw_addr_def)
  then obtain r lp' where s: "lan_play_send_wifi_ipv4 e (switch_mac lp) q 44 (mark_probe e lp) = Some (r, lp')"
    "sent WiFi (ether_bytes (switch_mac lp) (wifi_mac lp) ETHER_TYPE_IPV4 q) r (mark_probe e lp) lp'"
    using send_wifi_ipv4_sent [of "mark_probe e lp" 44 q e "switch_mac lp"] len by (auto simp: mark_probe_def)
  have "probe_wifi_delivery e lp = Some lp'"
    using first q(1) s(1) by (simp add: probe_wifi_delivery_def probe_request_def mark_probe_def Let_def)
  then show ?thesis using q(2) s(2) by blast
qed

lemma probe_progress:
  assumes ok: "relay_ok lp"
  shows "\<exists>lp'. probe_wifi_delivery e lp = Some lp' \<and> progress lp lp'"
proof (cases "wifi_delivery_probe_sent lp")
  case True
  then show ?thesis using progress_refl [OF ok] by (simp add: probe_wifi_delivery_def)
next
  case False
  have m: "progress lp (mark_probe e lp)" unfolding mark_probe_def by (rule progress_fields [OF ok])
  obtain q r lp' where s: "probe_wifi_delivery e lp = Some lp'"
    "sent WiFi (ether_bytes (switch_mac lp) (wifi_mac lp) ETHER_TYPE_IPV4 q) r (mark_probe e lp) lp'"
    using probe_sent [of lp e] ok False by (auto simp: relay_ok_def)
  have "hw_addr WiFi (mark_probe e lp) = wifi_mac lp" by (simp add: mark_probe_def hw_addr_def)
  then have "progress (mark_probe e lp) lp'"
    using sent_progress [OF _ progress_ok [OF m], of WiFi] s(2) by simp
  then show ?thesis using s(1) progress_trans [OF m] by blast
qed

section \<open>ZeroTier to Wi-Fi\<close>

definition zerotier_relayable :: "byte list \<Rightarrow> lan_play \<Rightarrow> bool" where
  "zerotier_relayable frame lp \<longleftrightarrow>
     (let ip = drop 14 frame; t = unat (be16 (ip ! 2) (ip ! 3)); d = ip_at ip 16
      in switch_seen lp \<and> 34 \<le> length frame \<and> t \<le> 1500 \<and> 14 + t \<le> length frame \<and>
         d \<in> {zerotier_broadcast_ip lp, zerotier_ip lp, switch_ip lp})"

text \<open>An unfragmented UDP packet for the game's port 35000.\<close>

definition game_packet :: "byte list \<Rightarrow> nat \<Rightarrow> bool" where
  "game_packet ip n \<longleftrightarrow> (let h = header_len (ip ! 0)
     in ip ! 9 = IPV4_PROTOCOL_UDP \<and> \<not> is_fragment (be16 (ip ! 6) (ip ! 7)) \<and> h + 8 \<le> n \<and>
        be16 (ip ! (h + 2)) (ip ! (h + 2 + 1)) = 35000)"

definition zerotier_relay_state :: "byte list \<Rightarrow> lan_play \<Rightarrow> lan_play" where
  "zerotier_relay_state frame lp =
     (let d = ip_at (drop 14 frame) 16
      in lp\<lparr>warned_direct_switch_delivery := warned_direct_switch_delivery lp \<or>
            (d \<noteq> zerotier_broadcast_ip lp \<and> d = switch_ip lp)\<rparr>)"

lemma relay_zerotier_not_relayable:
  assumes "length frame < 65536" "\<not> zerotier_relayable frame lp"
  shows "lan_play_relay_zerotier_ipv4 e frame lp = Some (False, lp)"
proof (cases "34 \<le> length frame")
  case True
  then show ?thesis using assms
    by (auto simp: lan_play_relay_zerotier_ipv4_def zerotier_relayable_def Let_def checked_access)
qed (use assms in \<open>simp add: lan_play_relay_zerotier_ipv4_def\<close>)

lemma relay_zerotier_eval:
  assumes len: "length frame < 65536" and rel: "zerotier_relayable frame lp"
    and ip: "ip = drop 14 frame" and t: "t = unat (be16 (ip ! 2) (ip ! 3))"
    and bc: "bcast \<longleftrightarrow> ip_at ip 16 = zerotier_broadcast_ip lp"
    and d: "d = (if bcast then zerotier_broadcast_ip lp else switch_ip lp)"
    and lp1: "lp1 = zerotier_relay_state frame lp"
  shows "if ipv4_valid (take t ip) t
    then \<exists>q. translated_ok (take t ip) (ip_at ip 12) d q \<and> length q = t \<and> 20 \<le> t \<and> t \<le> 1500 \<and>
      lan_play_relay_zerotier_ipv4 e frame lp = do {
        (ret, lp2) \<leftarrow> lan_play_send_wifi_ipv4 e (if bcast then BROADCAST_MAC else switch_mac lp) q t lp1;
        lp3 \<leftarrow> (if ret = 0 \<and> \<not> bcast \<and> game_packet ip t then probe_wifi_delivery e lp2 else Some lp2);
        Some (True, lp3) }
    else lan_play_relay_zerotier_ipv4 e frame lp = Some (False, lp1)"
proof -
  have t': "t \<le> length ip" "20 \<le> length ip" "t \<le> 1500" "ip \<noteq> []" "34 \<le> length frame"
    using rel by (auto simp: zerotier_relayable_def Let_def ip t)
  have pre: "switch_seen lp" "14 + t \<le> length frame" "ip_at ip 16 \<in> {zerotier_broadcast_ip lp, zerotier_ip lp, switch_ip lp}"
    using rel unfolding zerotier_relayable_def Let_def ip t by blast+
  have take: "read_bytes ip 0 t = Some (take t ip)" using t' by (simp add: read_bytes_Some window_def)
  have lp1': "(if (\<not> bcast \<and> ip_at ip 16 = switch_ip lp) \<and> \<not> warned_direct_switch_delivery lp
      then lp\<lparr>warned_direct_switch_delivery := True\<rparr> else lp) = lp1"
    unfolding lp1 zerotier_relay_state_def Let_def ip [symmetric] bc by auto
  have lp1f: "zerotier_broadcast_ip lp1 = zerotier_broadcast_ip lp" "switch_ip lp1 = switch_ip lp" "switch_mac lp1 = switch_mac lp"
    by (simp_all add: lp1 zerotier_relay_state_def Let_def)
  define body where "body lp1 = do {
      r \<leftarrow> rewrite_ipv4_addresses (take t ip) t (ip_at ip 12) (if bcast then zerotier_broadcast_ip lp1 else switch_ip lp1);
      case r of None \<Rightarrow> Some (False, lp1)
      | Some translated \<Rightarrow> do {
          (ret, lp) \<leftarrow> lan_play_send_wifi_ipv4 e (if bcast then BROADCAST_MAC else switch_mac lp1) translated t lp1;
          lp3 \<leftarrow> (if ret = 0 \<and> \<not> bcast \<and> game_packet ip t then probe_wifi_delivery e lp else Some lp);
          Some (True, lp3) } }" for lp1
  have game: "(if ret = 0 \<and> ip ! 9 = 17 \<and> \<not> is_fragment (be16 (ip ! 6) (ip ! 7)) \<and> header_len (ip ! 0) + 8 \<le> t
      then do { port \<leftarrow> read16 ip (header_len (ip ! 0) + 2);
                lp \<leftarrow> (if port = 35000 then probe_wifi_delivery e lp else Some lp); Some (True, lp) }
      else Some (True, lp)) =
      do { lp3 \<leftarrow> (if ret = 0 \<and> game_packet ip t then probe_wifi_delivery e lp else Some lp); Some (True, lp3) }"
    for ret :: int and lp using t' by (auto simp: game_packet_def Let_def read16_Some)
  have ev: "lan_play_relay_zerotier_ipv4 e frame lp = body lp1"
  proof (cases bcast)
    case True
    then have "lp1 = lp" "ip_at ip 16 = zerotier_broadcast_ip lp" using lp1' bc by auto
    then show ?thesis using True pre len t' take
      unfolding lan_play_relay_zerotier_ipv4_def Let_def ip [symmetric] body_def
      by (simp add: checked_access t [symmetric])
  next
    case False
    then have d': "ip_at ip 16 \<noteq> zerotier_broadcast_ip lp" "ip_at ip 16 = zerotier_ip lp \<or> ip_at ip 16 = switch_ip lp"
      using bc pre by auto
    show ?thesis using False pre len t' take lp1' d'
      unfolding lan_play_relay_zerotier_ipv4_def Let_def ip [symmetric] body_def
      by (simp add: checked_access t [symmetric] game) (use d' in blast)
  qed
  show ?thesis
  proof (cases "ipv4_valid (take t ip) t")
    case True
    then obtain q where q: "rewrite_ipv4_addresses (take t ip) t (ip_at ip 12) d = Some (Some q)"
      "translated_ok (take t ip) (ip_at ip 12) d q" using rewrite_ok [OF True, of "ip_at ip 12" d] t' by auto
    moreover have "length q = t" "20 \<le> t" using q(2) t' True by (simp_all add: translated_ok_def ipv4_valid_def Let_def)
    ultimately show ?thesis using True ev t' by (auto simp: body_def lp1f d)
  next
    case False
    then show ?thesis using ev rewrite_invalid [OF False, of "ip_at ip 12" d] t' by (cases bcast) (simp_all add: body_def lp1f d)
  qed
qed

lemma relay_zerotier_progress:
  assumes ok: "relay_ok lp" and len: "length frame < 65536"
  shows "\<exists>b lp'. lan_play_relay_zerotier_ipv4 e frame lp = Some (b, lp') \<and> progress lp lp'"
proof (cases "zerotier_relayable frame lp")
  case False
  then show ?thesis using relay_zerotier_not_relayable [OF len False] progress_refl [OF ok] by blast
next
  case rel: True
  define ip where "ip = drop 14 frame"
  define t where "t = unat (be16 (ip ! 2) (ip ! 3))"
  define bcast where "bcast \<longleftrightarrow> ip_at ip 16 = zerotier_broadcast_ip lp"
  define m where "m = (if bcast then BROADCAST_MAC else switch_mac lp)"
  define lp1 where "lp1 = zerotier_relay_state frame lp"
  note ev = relay_zerotier_eval [OF len rel ip_def t_def bcast_def refl lp1_def, of e, folded m_def]
  have p: "progress lp lp1" unfolding lp1_def zerotier_relay_state_def Let_def by (rule progress_fields [OF ok])
  show ?thesis
  proof (cases "ipv4_valid (take t ip) t")
    case False
    then have "lan_play_relay_zerotier_ipv4 e frame lp = Some (False, lp1)" using ev by simp
    then show ?thesis using p by blast
  next
    case True
    then obtain q where q: "length q = t" "20 \<le> t" "t \<le> 1500" "lan_play_relay_zerotier_ipv4 e frame lp = do {
        (ret, lp2) \<leftarrow> lan_play_send_wifi_ipv4 e m q t lp1;
        lp3 \<leftarrow> (if ret = 0 \<and> \<not> bcast \<and> game_packet ip t then probe_wifi_delivery e lp2 else Some lp2);
        Some (True, lp3) }" using ev by auto
    obtain r lp2 where s: "lan_play_send_wifi_ipv4 e m q t lp1 = Some (r, lp2)"
      "sent WiFi (ether_bytes m (wifi_mac lp1) ETHER_TYPE_IPV4 q) r lp1 lp2"
      using send_wifi_ipv4_sent [of lp1 t q e m] q progress_ok [OF p] by (auto simp: relay_ok_def)
    have p2: "progress lp lp2"
      using progress_trans [OF p] sent_progress [of WiFi _ lp1] s(2) progress_ok [OF p] by (metis hw_simps(1))
    obtain lp3 where "probe_wifi_delivery e lp2 = Some lp3" "progress lp lp3"
      using probe_progress [OF progress_ok [OF p2]] progress_trans [OF p2] by blast
    then show ?thesis using q s p2 by auto
  qed
qed

section \<open>Learning\<close>

lemma consume_reply_progress:
  assumes ok: "relay_ok lp"
  shows "\<exists>b lp'. consume_wifi_delivery_reply frame lp = Some (b, lp') \<and> progress lp lp'"
proof (cases "\<not> wifi_delivery_probe_sent lp \<or> length frame < 58")
  case True
  then show ?thesis using progress_refl [OF ok] by (auto simp: consume_wifi_delivery_reply_def)
next
  case False
  then have "drop 14 frame \<noteq> []" by simp
  then show ?thesis using False progress_refl [OF ok] progress_fields(6) [OF ok, of True]
    by (auto simp: consume_wifi_delivery_reply_def checked_access Let_def)
qed

lemma switch_claim_total: "\<exists>c. switch_claim frame lp = Some c"
proof -
  have "drop 14 frame \<noteq> []" if "34 \<le> length frame" using that by simp
  then show ?thesis by (auto simp: switch_claim_def checked_access Let_def)
qed

lemma switch_claim_length: "switch_claim frame lp = Some (Some c) \<Longrightarrow> 34 \<le> length frame"
  by (auto simp: switch_claim_def Let_def bind_eq_Some_conv split: if_splits)

text \<open>A frame that makes a claim is complete: it is a full ARP packet or its IPv4 length is covered.\<close>

lemma switch_claim_complete:
  assumes "switch_claim frame lp = Some (Some c)"
  shows "be16 (frame ! 12) (frame ! 13) = ETHER_TYPE_ARP \<Longrightarrow> 42 \<le> length frame"
    "be16 (frame ! 12) (frame ! 13) = ETHER_TYPE_IPV4 \<Longrightarrow> ipv4_fits frame"
proof -
  have len: "34 \<le> length frame" by (rule switch_claim_length [OF assms])
  then have ne: "drop 14 frame \<noteq> []" by simp
  show "be16 (frame ! 12) (frame ! 13) = ETHER_TYPE_ARP \<Longrightarrow> 42 \<le> length frame"
    using assms len by (auto simp: switch_claim_def checked_access Let_def split: if_splits)
  show "be16 (frame ! 12) (frame ! 13) = ETHER_TYPE_IPV4 \<Longrightarrow> ipv4_fits frame"
    using assms len ne by (auto simp: switch_claim_def checked_access Let_def ipv4_fits_def split: if_splits)
qed

text \<open>
  The rule for the console's entry: an address, once seen, stays; a hardware address, once confirmed by
  direct evidence, stays; confirmation is never lost.
\<close>

definition console_kept :: "lan_play \<Rightarrow> lan_play \<Rightarrow> bool" where
  "console_kept lp lp' \<longleftrightarrow>
     (switch_seen lp \<longrightarrow> switch_seen lp' \<and> switch_ip lp' = switch_ip lp) \<and>
     (switch_seen lp \<and> switch_mac_confirmed lp \<longrightarrow> switch_mac lp' = switch_mac lp) \<and>
     (switch_mac_confirmed lp \<longrightarrow> switch_mac_confirmed lp')"

definition console_ok :: "lan_play \<Rightarrow> bool" where
  "console_ok lp \<longleftrightarrow> (switch_seen lp \<longrightarrow> console_address lp (switch_ip lp) (switch_mac lp))"

lemma console_kept_refl [simp]: "console lp' = console lp \<Longrightarrow> console_kept lp lp'"
  by (simp add: console_kept_def console_def)

lemma console_kept_trans: "console_kept a b \<Longrightarrow> console_kept b c \<Longrightarrow> console_kept a c"
  unfolding console_kept_def by auto

lemma console_address_config: "config a = config b \<Longrightarrow> console_address a = console_address b"
  by (intro ext) (simp add: config_def console_address_def wifi_dest_def dhcp_candidate_def is_zerotier_destination_def)

lemma console_ok_same: "config a = config b \<Longrightarrow> console a = console b \<Longrightarrow> console_ok b \<Longrightarrow> console_ok a"
  using console_address_config [of a b] by (simp add: console_ok_def console_def)

lemma learn_none:
  assumes "switch_claim frame lp = Some c"
    and "c = None \<or> (\<exists>ip d. c = Some (ip, d) \<and>
      (\<not> console_address lp ip (mac_at frame 6) \<or> switch_seen lp \<and> ip \<noteq> switch_ip lp))"
  shows "learn_local_switch e frame lp = Some (False, lp)"
proof (cases c)
  case None
  then show ?thesis using assms by (simp add: learn_local_switch_def)
next
  case (Some p)
  have "34 \<le> length frame" using switch_claim_length assms(1) Some by blast
  then show ?thesis using assms Some by (auto simp: learn_local_switch_def CPY_MAC_Some)
qed

lemma learn_some:
  assumes ok: "relay_ok lp" and c: "switch_claim frame lp = Some (Some (ip, direct))"
    and a: "console_address lp ip (mac_at frame 6)" "\<not> (switch_seen lp \<and> ip \<noteq> switch_ip lp)"
  shows "\<exists>lp'. learn_local_switch e frame lp = Some (True, lp') \<and> advance but_console lp lp' \<and>
    (if switch_seen lp \<and> mac_at frame 6 \<noteq> switch_mac lp \<and> (switch_mac_confirmed lp \<or> \<not> direct)
     then console lp' = console lp
     else console lp' = (True, ip, mac_at frame 6, switch_mac_confirmed lp \<or> direct))"
proof -
  let ?src = "mac_at frame 6"
  let ?lp1 = "lp\<lparr>switch_ip := ip, switch_mac := ?src, switch_seen := True,
     switch_mac_confirmed := switch_mac_confirmed lp \<or> direct\<rparr>"
  let ?lp2 = "(ctx_arp_set e ?src ip ?lp1)\<lparr>switch_dhcp := dhcp_candidate (ctx_arp_set e ?src ip ?lp1) ip\<rparr>"
  let ?lp3 = "if is_nintendo_mac ?src then ?lp2\<lparr>switch_nintendo_oui := True\<rparr> else ?lp2"
  have len: "34 \<le> length frame" by (rule switch_claim_length [OF c])
  have p1: "advance but_console lp ?lp1" by (rule advance_switch [OF ok])
  note arp = progress_arp_set [OF progress_ok [OF p1], of e ?src ip]
  note sd = progress_fields(9) [OF progress_ok [OF arp]]
  have "progress ?lp1 ?lp3"
    using progress_trans [OF arp sd] progress_trans [OF progress_trans [OF arp sd] progress_fields(10)] progress_ok [OF sd]
    by auto
  moreover obtain lp4 where 4: "probe_wifi_delivery e ?lp3 = Some lp4" "progress ?lp3 lp4"
    using probe_progress [OF progress_ok [OF \<open>progress ?lp1 ?lp3\<close>]] by blast
  ultimately have p4: "progress ?lp1 lp4" by (blast intro: progress_trans)
  have k4: "console lp4 = (True, ip, ?src, switch_mac_confirmed lp \<or> direct)"
    using advance_same [OF p4] by (simp add: still_def console_def)
  have adv: "advance but_console lp lp4" by (rule progress_trans [OF p1 advance_but(2) [OF p4]])
  have conf: "advance but_console lp (lp\<lparr>switch_mac_conflicts := n\<rparr>)" for n
    by (rule advance_but(2) [OF progress_fields(4) [OF ok]])
  show ?thesis
    using c a len p1 adv k4 4(1) conf
    by (auto simp: learn_local_switch_def CPY_MAC_Some Let_def console_def)
qed

lemma learn_advance:
  assumes ok: "relay_ok lp" and cok: "console_ok lp"
  shows "\<exists>b lp'. learn_local_switch e frame lp = Some (b, lp') \<and> advance but_console lp lp' \<and>
    console_kept lp lp' \<and> console_ok lp' \<and> (b \<longrightarrow> switch_seen lp' \<and> (\<exists>c. switch_claim frame lp = Some (Some c)))"
proof -
  obtain c where c: "switch_claim frame lp = Some c" using switch_claim_total by blast
  show ?thesis
  proof (cases "\<exists>ip d. c = Some (ip, d) \<and> console_address lp ip (mac_at frame 6) \<and> \<not> (switch_seen lp \<and> ip \<noteq> switch_ip lp)")
    case True
    then obtain ip d where cs: "c = Some (ip, d)"
      and a: "console_address lp ip (mac_at frame 6)" "\<not> (switch_seen lp \<and> ip \<noteq> switch_ip lp)" by blast
    obtain lp' where l: "learn_local_switch e frame lp = Some (True, lp')" "advance but_console lp lp'"
      and k: "if switch_seen lp \<and> mac_at frame 6 \<noteq> switch_mac lp \<and> (switch_mac_confirmed lp \<or> \<not> d)
       then console lp' = console lp
       else console lp' = (True, ip, mac_at frame 6, switch_mac_confirmed lp \<or> d)"
      using learn_some [OF ok c [unfolded cs] a, of e] by blast
    have cfg: "config lp' = config lp" using advance_same [OF l(2)] by (simp add: but_console_def)
    have "console_kept lp lp'" "switch_seen lp'"
      using k a(2) by (auto simp: console_kept_def console_def split: if_splits)
    moreover have "console_ok lp'"
      using k a cok console_address_config [OF cfg] by (auto simp: console_ok_def console_def split: if_splits)
    ultimately show ?thesis using l c cs by blast
  next
    case False
    then have "learn_local_switch e frame lp = Some (False, lp)" using c by (cases c) (auto intro!: learn_none)
    then show ?thesis using progress_refl [OF ok] cok by (intro exI) auto
  qed
qed

section \<open>The discovery sweep\<close>

lemma sweep_next_progress: "relay_ok lp \<Longrightarrow> progress lp (sweep_next b lp)"
  by (simp add: sweep_next_def Let_def advance_def relay_ok_def io_ok_def all_sides link_of_def hw_addr_def still_defs)

definition sweeping :: "lan_play \<Rightarrow> bool" where
  "sweeping lp \<longleftrightarrow> \<not> switch_seen lp \<and> switch_discovery_pause_ticks lp = 0"

definition sweep_self :: "lan_play \<Rightarrow> bool" where
  "sweep_self lp \<longleftrightarrow> sweep_wifi lp \<and> host_of (sweep_target lp) = host_of (wifi_ip lp)"

text \<open>A tick of an active sweep sends one ARP request for the next address, except for its own.\<close>

lemma timer_probe:
  assumes ok: "io_ok lp" and s: "sweeping lp" "\<not> sweep_self lp"
  shows "\<exists>r lp1. switch_discovery_timer_cb e lp = Some (sweep_next (sweep_wifi lp) lp1) \<and>
    sent WiFi (ether_bytes BROADCAST_MAC (wifi_mac lp) ETHER_TYPE_ARP
      (arp_body ARP_OPCODE_REQUEST (wifi_mac lp) (sweep_sender lp) NONE_MAC (sweep_target lp))) r lp lp1"
  using send_wifi_arp_probe_sent [OF ok, of e "sweep_target lp" "sweep_sender lp"] s
  by (auto simp: switch_discovery_timer_cb_def sweeping_def sweep_self_def) blast+

lemma timer_progress:
  assumes ok: "relay_ok lp"
  shows "\<exists>lp'. switch_discovery_timer_cb e lp = Some lp' \<and> progress lp lp'"
proof (cases "sweeping lp \<and> \<not> sweep_self lp")
  case True
  have "io_ok lp" using ok by (simp add: relay_ok_def)
  then obtain r lp1 where p: "switch_discovery_timer_cb e lp = Some (sweep_next (sweep_wifi lp) lp1)"
    "sent WiFi (ether_bytes BROADCAST_MAC (hw_addr WiFi lp) ETHER_TYPE_ARP
      (arp_body ARP_OPCODE_REQUEST (wifi_mac lp) (sweep_sender lp) NONE_MAC (sweep_target lp))) r lp lp1"
    using timer_probe [of lp e] True by (auto simp: hw_simps)
  have p1: "progress lp lp1" by (rule sent_progress [OF p(2) ok])
  show ?thesis using p(1) progress_trans [OF p1 sweep_next_progress [OF progress_ok [OF p1]]] by blast
next
  case False
  then show ?thesis
    using progress_fields(12,13) [OF ok] sweep_next_progress [OF ok]
    by (auto simp: switch_discovery_timer_cb_def sweeping_def sweep_self_def)
qed

section \<open>The handlers\<close>

text \<open>The invariant of a run, and what one event may do.\<close>

definition run_ok :: "lan_play \<Rightarrow> bool" where
  "run_ok lp \<longleftrightarrow> relay_ok lp \<and> leases_ok (leases (dhcp_state lp)) \<and> guard_opt_ok (udp_guard lp) \<and> console_ok lp"

definition run_step :: "lan_play \<Rightarrow> lan_play \<Rightarrow> bool" where
  "run_step lp lp' \<longleftrightarrow> advance config lp lp' \<and> run_ok lp' \<and> console_kept lp lp'"

lemma run_step_trans: "run_step a b \<Longrightarrow> run_step b c \<Longrightarrow> run_step a c"
  by (auto simp: run_step_def intro: progress_trans console_kept_trans)

lemma run_step_ok: "run_step a b \<Longrightarrow> run_ok b \<and> relay_ok b"
  by (simp add: run_step_def run_ok_def)

lemma run_step_progress: "run_ok lp \<Longrightarrow> progress lp lp' \<Longrightarrow> run_step lp lp'"
  using console_ok_same [of lp' lp] advance_same [of still lp lp']
  by (auto simp: run_step_def run_ok_def still_def dest: progress_ok elim!: advance_weaken)

lemma run_step_dhcp: "run_ok lp \<Longrightarrow> dhcp_step lp lp' \<Longrightarrow> run_step lp lp'"
  using console_ok_same [of lp' lp] advance_same [of but_dhcp lp lp']
  by (auto simp: run_step_def run_ok_def dhcp_step_def but_dhcp_def dest: progress_ok elim!: advance_weaken)

lemma run_step_guard:
  "run_ok lp \<Longrightarrow> advance but_guard lp lp' \<Longrightarrow> guard_opt_ok (udp_guard lp') \<Longrightarrow> run_step lp lp'"
  using console_ok_same [of lp' lp] advance_same [of but_guard lp lp']
  by (auto simp: run_step_def run_ok_def but_guard_def dest: progress_ok elim!: advance_weaken)

lemma run_step_console:
  "run_ok lp \<Longrightarrow> advance but_console lp lp' \<Longrightarrow> console_kept lp lp' \<Longrightarrow> console_ok lp' \<Longrightarrow> run_step lp lp'"
  using advance_same [of but_console lp lp']
  by (auto simp: run_step_def run_ok_def but_console_def dest: progress_ok elim!: advance_weaken)

lemma progress_set_mac: "relay_ok lp \<Longrightarrow> progress lp (packet_set_mac m lp)"
  unfolding packet_set_mac_def by (rule progress_ctx) (simp_all add: relay_ok_def)

lemma count_rx_progress:
  assumes "relay_ok lp" "14 \<le> length p"
  shows "\<exists>lp'. diagnostic_count_rx z p lp = Some lp' \<and> progress lp lp'"
  using progress_fields(5) [OF assms(1)] assms(2) by (simp add: diagnostic_count_rx_def checked_access Let_def)

text \<open>The operations of the handlers, each as a step of the run.\<close>

lemma run_ok_relay: "run_ok lp \<Longrightarrow> relay_ok lp"
  by (simp add: run_ok_def)

lemma run_count:
  assumes "run_ok lp" "14 \<le> length p"
  shows "\<exists>lp'. diagnostic_count_rx z p lp = Some lp' \<and> run_step lp lp'"
  using count_rx_progress [OF run_ok_relay [OF assms(1)] assms(2)] run_step_progress [OF assms(1)] by blast

lemma run_log: "run_ok lp \<Longrightarrow> run_step lp (log_frame e d f lp)"
  by (intro run_step_progress progress_log run_ok_relay)

lemma run_ingress: "run_ok lp \<Longrightarrow> run_step lp (lp\<lparr>ingress_zerotier := b\<rparr>)"
  by (intro run_step_progress progress_fields run_ok_relay)

lemma run_set_mac: "run_ok lp \<Longrightarrow> run_step lp (packet_set_mac m lp)"
  by (intro run_step_progress progress_set_mac run_ok_relay)

lemma run_consume:
  assumes "run_ok lp"
  shows "\<exists>b lp'. consume_wifi_delivery_reply frame lp = Some (b, lp') \<and> run_step lp lp'"
  using consume_reply_progress [OF run_ok_relay [OF assms]] run_step_progress [OF assms] by blast

lemma run_dhcp:
  assumes ok: "run_ok lp"
  shows "(\<exists>b lp'. dhcp_server_consume e frame lp = Some (b, lp') \<and> run_step lp lp') \<or>
    dhcp_server_consume e frame lp = None \<and> dhcp_server (options e) \<and> dhcp_parse frame = None"
proof (cases "\<not> dhcp_server (options e) \<or> (\<exists>r. dhcp_parse frame = Some r)")
  case True
  have "leases_ok (leases (dhcp_state lp))" using ok by (simp add: run_ok_def)
  from dhcp_consume_step [OF run_ok_relay [OF ok] this, of e frame] True show ?thesis using run_step_dhcp [OF ok] by blast
next
  case False
  have "run_step lp lp" by (intro run_step_progress progress_refl run_ok_relay ok)
  then show ?thesis using False by (auto simp: dhcp_server_consume_def)
qed

lemma run_learn:
  assumes ok: "run_ok lp"
  shows "\<exists>b lp'. learn_local_switch e frame lp = Some (b, lp') \<and> run_step lp lp' \<and>
    (b \<longrightarrow> switch_seen lp' \<and> (\<exists>c. switch_claim frame lp = Some (Some c)))"
proof -
  have "console_ok lp" using ok by (simp add: run_ok_def)
  from learn_advance [OF run_ok_relay [OF ok] this] show ?thesis using run_step_console [OF ok] by blast
qed

lemma run_relay_wifi:
  assumes ok: "run_ok lp" and len: "length frame < 65536"
  shows "\<exists>b lp'. lan_play_relay_wifi_ipv4 e frame lp = Some (b, lp') \<and> run_step lp lp'"
proof -
  have "guard_opt_ok (udp_guard lp)" using ok by (simp add: run_ok_def)
  with relay_wifi_advance [OF run_ok_relay [OF ok] len] show ?thesis using run_step_guard [OF ok] by blast
qed

lemma run_relay_zerotier:
  assumes ok: "run_ok lp" and len: "length frame < 65536"
  shows "\<exists>b lp'. lan_play_relay_zerotier_ipv4 e frame lp = Some (b, lp') \<and> run_step lp lp'"
  using relay_zerotier_progress [OF run_ok_relay [OF ok] len] run_step_progress [OF ok] by blast

lemma run_get:
  assumes ok: "run_ok lp" and len: "14 \<le> length p" "length p \<le> 1514"
    and arp: "be16 (p ! 12) (p ! 13) = ETHER_TYPE_ARP \<Longrightarrow> 42 \<le> length p"
    and ip: "be16 (p ! 12) (p ! 13) = ETHER_TYPE_IPV4 \<Longrightarrow> ipv4_fits p"
  shows "\<exists>lp'. get_packet e p (length p) lp = Some lp' \<and> run_step lp lp'"
  using get_packet_progress [OF run_ok_relay [OF ok] len refl arp ip, of e] run_step_progress [OF ok] by blast

lemma run_step_D: "run_step a b \<Longrightarrow> run_ok b"
  by (simp add: run_step_def)

text \<open>The handler behind the DHCP server.\<close>

lemma wifi_handler_rest:
  assumes ok: "run_ok lp" and len: "14 \<le> length frame" "length frame \<le> 1514"
  shows "\<exists>lp'. do {
      (learnt, lp) \<leftarrow> learn_local_switch e frame lp;
      if \<not> learnt then Some lp
      else do {
        let lp = packet_set_mac m lp;
        type \<leftarrow> read16 frame ETHER_OFF_TYPE;
        (relayed, lp) \<leftarrow>
          (if length frame \<ge> ETHER_HEADER_LEN + IPV4_HEADER_LEN \<and> type = ETHER_TYPE_IPV4
           then lan_play_relay_wifi_ipv4 e frame lp else Some (False, lp));
        if relayed then Some lp else get_packet e frame (length frame) lp } } = Some lp' \<and> run_step lp lp'"
proof -
  obtain b5 lp5 where 5: "learn_local_switch e frame lp = Some (b5, lp5)" "run_step lp lp5"
    and c5: "b5 \<longrightarrow> (\<exists>c. switch_claim frame lp = Some (Some c))"
    using run_learn [OF ok] by blast
  let ?lp6 = "packet_set_mac m lp5"
  have s6: "run_step lp ?lp6" by (rule run_step_trans [OF 5(2) run_set_mac [OF run_step_D [OF 5(2)]]])
  obtain b7 lp7 where 7: "lan_play_relay_wifi_ipv4 e frame ?lp6 = Some (b7, lp7)" "run_step ?lp6 lp7"
    using run_relay_wifi [OF run_step_D [OF s6], of frame e] len(2) by auto
  note s7 = run_step_trans [OF s6 7(2)]
  have get: "\<exists>lp9. get_packet e frame (length frame) lp8 = Some lp9 \<and> run_step lp lp9"
    if s8: "run_step lp lp8" and b5 for lp8
  proof -
    obtain c where c: "switch_claim frame lp = Some (Some c)" using c5 \<open>b5\<close> by blast
    obtain lp9 where "get_packet e frame (length frame) lp8 = Some lp9" "run_step lp8 lp9"
      using run_get [OF run_step_D [OF s8] len switch_claim_complete [OF c]] by blast
    then show ?thesis using run_step_trans [OF s8] by blast
  qed
  show ?thesis using 5 7(1) s7 get [OF s7] get [OF s6] len by (cases b5) (auto simp: checked_access Let_def)
qed

text \<open>The only fault of the handler is in the parser of the DHCP server.\<close>

lemma wifi_handler_step:
  assumes ok: "run_ok lp" and len: "length frame \<le> 1514"
  shows "(\<exists>lp'. lan_play_pcap_handler e frame (length frame) m lp = Some lp' \<and> run_step lp lp') \<or>
    lan_play_pcap_handler e frame (length frame) m lp = None \<and> dhcp_server (options e) \<and> dhcp_parse frame = None"
proof (cases "length frame < 14 \<or> mac_at frame 6 = m")
  case True
  have "run_step lp lp" by (intro run_step_progress progress_refl run_ok_relay ok)
  then show ?thesis using True run_log [OF ok, of e HOST frame] by (auto simp: lan_play_pcap_handler_def CPY_MAC_Some)
next
  case False
  then have l14: "14 \<le> length frame" by simp
  let ?lp0 = "lp\<lparr>ingress_zerotier := False\<rparr>"
  have s0: "run_step lp ?lp0" by (rule run_ingress [OF ok])
  obtain lp1 where 1: "diagnostic_count_rx False frame ?lp0 = Some lp1" "run_step ?lp0 lp1"
    using run_count [OF run_step_D [OF s0] l14] by blast
  let ?lp2 = "log_frame e RX_WiFi frame lp1"
  have s2: "run_step lp ?lp2"
    by (rule run_step_trans [OF run_step_trans [OF s0 1(2)] run_log [OF run_step_D [OF 1(2)]]])
  obtain b3 lp3 where 3: "consume_wifi_delivery_reply frame ?lp2 = Some (b3, lp3)" "run_step ?lp2 lp3"
    using run_consume [OF run_step_D [OF s2]] by blast
  note s3 = run_step_trans [OF s2 3(2)]
  note h = False 1(1) 3(1) l14
  from run_dhcp [OF run_step_D [OF 3(2)], of e frame] show ?thesis
  proof (elim disjE exE conjE)
    fix b4 lp4
    assume 4: "dhcp_server_consume e frame lp3 = Some (b4, lp4)" "run_step lp3 lp4"
    note s4 = run_step_trans [OF s3 4(2)]
    show ?thesis using h s3 s4 4(1) wifi_handler_rest [OF run_step_D [OF s4] l14 len, of e m] run_step_trans [OF s4]
      by (cases b3; cases b4) (auto simp: lan_play_pcap_handler_def CPY_MAC_Some Let_def)
  next
    assume "dhcp_server_consume e frame lp3 = None" "dhcp_server (options e)" "dhcp_parse frame = None"
    then show ?thesis using h s3 by (cases b3) (auto simp: lan_play_pcap_handler_def CPY_MAC_Some Let_def)
  qed
qed

text \<open>The overlay handler hands frames it does not relay on unchecked: it needs complete ones.\<close>

definition frame_complete :: "byte list \<Rightarrow> bool" where
  "frame_complete p \<longleftrightarrow> (be16 (p ! 12) (p ! 13) = ETHER_TYPE_ARP \<longrightarrow> 42 \<le> length p) \<and>
     (be16 (p ! 12) (p ! 13) = ETHER_TYPE_IPV4 \<longrightarrow> ipv4_fits p)"

lemma peer_claim_total: "14 \<le> length p \<Longrightarrow> \<exists>c. peer_claim p = Some c"
proof -
  assume "14 \<le> length p"
  moreover have "drop 14 p \<noteq> []" if "34 \<le> length p" using that by simp
  ultimately show ?thesis by (auto simp: peer_claim_def checked_access Let_def)
qed

lemma run_learn_peer:
  assumes ok: "run_ok lp" and len: "14 \<le> length p"
  shows "\<exists>lp'. learn_peer e p lp = Some lp' \<and> run_step lp lp'"
proof -
  obtain c where c: "peer_claim p = Some c" using peer_claim_total [OF len] by blast
  have "run_step lp lp" "run_step lp (lp\<lparr>zerotier_neighbors := nb\<rparr>)" for nb
    using run_step_progress [OF ok] progress_refl progress_fields(7) run_ok_relay [OF ok] by blast+
  then show ?thesis using c len by (cases c) (simp_all add: learn_peer_def checked_access)
qed

lemma zerotier_handler_step:
  assumes ok: "run_ok lp" and len: "length frame \<le> 1514" and complete: "frame_complete frame"
  shows "\<exists>lp'. lan_play_zerotier_pcap_handler e frame (length frame) m lp = Some lp' \<and> run_step lp lp'"
proof (cases "length frame < 14 \<or> mac_at frame 6 = m")
  case True
  have "run_step lp lp" by (intro run_step_progress progress_refl run_ok_relay ok)
  then show ?thesis using True run_log [OF ok, of e HOST frame]
    by (auto simp: lan_play_zerotier_pcap_handler_def CPY_MAC_Some)
next
  case False
  then have l14: "14 \<le> length frame" by simp
  have l16: "length frame < 65536" using len by simp
  obtain lp0 where 0: "learn_peer e frame lp = Some lp0" "run_step lp lp0" using run_learn_peer [OF ok l14] by blast
  let ?lp1 = "lp0\<lparr>ingress_zerotier := True\<rparr>"
  note s1 = run_step_trans [OF 0(2) run_ingress [OF run_step_D [OF 0(2)], of True]]
  obtain lp2 where 2: "diagnostic_count_rx True frame ?lp1 = Some lp2" "run_step ?lp1 lp2"
    using run_count [OF run_step_D [OF s1] l14] by blast
  let ?lp3 = "log_frame e RX_ZeroTier frame lp2" let ?lp4 = "packet_set_mac m ?lp3"
  note s2 = run_step_trans [OF s1 2(2)]
  note s3 = run_step_trans [OF s2 run_log [OF run_step_D [OF s2], of e RX_ZeroTier frame]]
  note s4 = run_step_trans [OF s3 run_set_mac [OF run_step_D [OF s3], of m]]
  obtain b5 lp5 where 5: "lan_play_relay_zerotier_ipv4 e frame ?lp4 = Some (b5, lp5)" "run_step ?lp4 lp5"
    using run_relay_zerotier [OF run_step_D [OF s4] l16] by blast
  note s5 = run_step_trans [OF s4 5(2)]
  have get: "\<exists>lp7. do { lp \<leftarrow> get_packet e frame (length frame) lp6; Some (lp\<lparr>ingress_zerotier := False\<rparr>) } = Some lp7 \<and>
      run_step lp lp7" if s6: "run_step lp lp6" for lp6
  proof -
    obtain lp7 where 7: "get_packet e frame (length frame) lp6 = Some lp7" "run_step lp6 lp7"
      using run_get [OF run_step_D [OF s6] l14 len] complete by (auto simp: frame_complete_def)
    then show ?thesis using run_step_trans [OF run_step_trans [OF s6 7(2)] run_ingress [OF run_step_D [OF 7(2)]]] by auto
  qed
  have s5': "run_step lp (lp5\<lparr>ingress_zerotier := False\<rparr>)"
    by (rule run_step_trans [OF s5 run_ingress [OF run_step_D [OF s5]]])
  have "lan_play_zerotier_pcap_handler e frame (length frame) m lp =
      (if 34 \<le> length frame \<and> be16 (frame ! 12) (frame ! 13) = ETHER_TYPE_IPV4 then
         if b5 then Some (lp5\<lparr>ingress_zerotier := False\<rparr>)
         else do { lp \<leftarrow> get_packet e frame (length frame) lp5; Some (lp\<lparr>ingress_zerotier := False\<rparr>) }
       else do { lp \<leftarrow> get_packet e frame (length frame) ?lp4; Some (lp\<lparr>ingress_zerotier := False\<rparr>) })"
    using False 0(1) 2(1) 5(1) l14 by (simp add: lan_play_zerotier_pcap_handler_def checked_access Let_def)
  then show ?thesis using s5' get [OF s5] get [OF s4] by simp
qed

section \<open>Runs\<close>

text \<open>
  The inputs of a running relay: captured frames with the address of the capturing adapter, and the
  discovery timer.  A run is a sequence of inputs, each in its own environment.
\<close>

datatype input =
    WifiFrame "byte list"
  | ZeroTierFrame "byte list"
  | DiscoveryTick

fun relay_step :: "env \<Rightarrow> input \<Rightarrow> lan_play \<Rightarrow> lan_play option" where
  "relay_step e (WifiFrame f) lp = lan_play_pcap_handler e f (length f) (wifi_mac lp) lp"
| "relay_step e (ZeroTierFrame f) lp = lan_play_zerotier_pcap_handler e f (length f) (zerotier_mac lp) lp"
| "relay_step e DiscoveryTick lp = switch_discovery_timer_cb e lp"

fun relay_run :: "(env \<times> input) list \<Rightarrow> lan_play \<Rightarrow> lan_play option" where
  "relay_run [] lp = Some lp"
| "relay_run ((e, i) # rest) lp = do { lp \<leftarrow> relay_step e i lp; relay_run rest lp }"

text \<open>Standard Ethernet frames; those of the overlay adapter hold the header and the packet they announce.\<close>

fun frame_ok :: "input \<Rightarrow> bool" where
  "frame_ok (WifiFrame f) \<longleftrightarrow> length f \<le> 1514"
| "frame_ok (ZeroTierFrame f) \<longleftrightarrow> length f \<le> 1514 \<and> frame_complete f"
| "frame_ok DiscoveryTick \<longleftrightarrow> True"

text \<open>A frame to the port of a DHCP server, long enough for a DHCP message.\<close>

definition bootp_frame :: "byte list \<Rightarrow> bool" where
  "bootp_frame f \<longleftrightarrow> 282 \<le> length f \<and> be16 (f ! 12) (f ! 13) = ETHER_TYPE_IPV4 \<and> f ! 23 = IPV4_PROTOCOL_UDP \<and>
     be16 (f ! (16 + header_len (f ! 14))) (f ! (17 + header_len (f ! 14))) = 67"

text \<open>
  The inputs the relay takes without a fault: with the DHCP server on, a DHCP message on the Wi-Fi must close its options
  with the end marker inside the frame, since \<^verbatim>\<open>dhcp_parse\<close> takes the length of the UDP datagram plus that of the IPv4
  header for the end of the options.
\<close>

definition input_ok :: "env \<Rightarrow> input \<Rightarrow> bool" where
  "input_ok e i \<longleftrightarrow> frame_ok i \<and>
     (\<forall>f. i = WifiFrame f \<longrightarrow> dhcp_server (options e) \<longrightarrow> bootp_frame f \<longrightarrow> dhcp_closed f)"

lemma dhcp_parse_other:
  assumes "\<not> bootp_frame f"
  shows "dhcp_parse f = Some None"
proof (cases "length f < 282 \<or> be16 (f ! 12) (f ! 13) \<noteq> ETHER_TYPE_IPV4 \<or> f ! 23 \<noteq> IPV4_PROTOCOL_UDP")
  case True
  then show ?thesis by (auto simp: dhcp_parse_def checked_access Let_def)
next
  case False
  let ?h = "header_len (f ! 14)"
  have "16 + ?h + 4 < length f" using False header_len_le [of "f ! 14"] by linarith
  moreover have "be16 (f ! (16 + ?h)) (f ! (17 + ?h)) \<noteq> 67" using False assms by (simp add: bootp_frame_def)
  ultimately show ?thesis using False by (simp add: dhcp_parse_def checked_access Let_def)
qed

lemma relay_step_run:
  assumes "run_ok lp" "frame_ok i"
  shows "(\<exists>lp'. relay_step e i lp = Some lp' \<and> run_step lp lp') \<or>
    (\<exists>f. i = WifiFrame f \<and> relay_step e i lp = None \<and> dhcp_server (options e) \<and> dhcp_parse f = None)"
proof (cases i)
  case DiscoveryTick
  then show ?thesis using timer_progress [OF run_ok_relay [OF assms(1)]] run_step_progress [OF assms(1)] by auto
qed (use assms wifi_handler_step [OF assms(1)] zerotier_handler_step [OF assms(1)] in auto)

lemma relay_step_ok:
  assumes "run_ok lp" "input_ok e i"
  shows "\<exists>lp'. relay_step e i lp = Some lp' \<and> run_step lp lp'"
  using relay_step_run [OF assms(1), of i e] assms(2) dhcp_parse_other dhcp_parse_total
  unfolding input_ok_def by (metis option.distinct(1))

lemma relay_run_ok:
  assumes "run_ok lp" "\<forall>(e, i) \<in> set ins. input_ok e i"
  shows "\<exists>lp'. relay_run ins lp = Some lp' \<and> run_step lp lp'"
  using assms
proof (induction ins arbitrary: lp)
  case Nil
  then show ?case by (simp add: run_step_progress progress_refl run_ok_relay)
next
  case (Cons x ins)
  obtain e i where x: "x = (e, i)" by (cases x)
  obtain lp1 where 1: "relay_step e i lp = Some lp1" "run_step lp lp1"
    using relay_step_ok [of lp e i] Cons.prems x by auto
  then show ?case using Cons.IH [OF run_step_D [OF 1(2)]] Cons.prems x run_step_trans [OF 1(2)] by auto
qed

text \<open>The states a relay can reach, as the closure of its steps on standard frames that do not fault.\<close>

inductive reaches :: "lan_play \<Rightarrow> lan_play \<Rightarrow> bool" for start where
  here: "reaches start start"
| step: "reaches start lp \<Longrightarrow> frame_ok i \<Longrightarrow> relay_step e i lp = Some lp' \<Longrightarrow> reaches start lp'"

lemma reaches_run_step:
  assumes "reaches start lp" "run_ok start"
  shows "run_step start lp"
  using assms
proof (induction rule: reaches.induct)
  case here
  then show ?case by (intro run_step_progress progress_refl run_ok_relay)
next
  case (step lp i e lp')
  then have s: "run_step start lp" by simp
  then show ?case using relay_step_run [OF run_step_D [OF s] step.hyps(2), of e] step.hyps(3) run_step_trans by auto
qed

lemma relay_run_reaches:
  assumes "relay_run ins lp = Some lp'" "\<forall>(e, i) \<in> set ins. frame_ok i" "reaches start lp"
  shows "reaches start lp'"
  using assms
proof (induction ins arbitrary: lp)
  case (Cons x ins)
  obtain e i where x: "x = (e, i)" by (cases x)
  with Cons.prems obtain lp1 where "relay_step e i lp = Some lp1" "relay_run ins lp1 = Some lp'" by (auto simp: bind_eq_Some_conv)
  then show ?case using Cons.IH Cons.prems(2,3) x reaches.step [of start lp i e lp1] by auto
qed simp

end
