(* ===== verification/Address.thy ===== *)
theory Address
  imports Pcap_Loop
begin

text \<open>
  Addresses as text: \<^verbatim>\<open>parse_ipv4\<close> and \<^verbatim>\<open>parse_subnet\<close> of \<^verbatim>\<open>src/lan-play.c\<close>, \<^verbatim>\<open>str2ip\<close>, \<^verbatim>\<open>parse_ip_port\<close> and
  \<^verbatim>\<open>parse_addr\<close> of \<^verbatim>\<open>src/helper.c\<close>.  The result \<^term>\<open>None\<close> is the return value \<^verbatim>\<open>-1\<close>.  The name service is
  an argument of \<open>parse_addr\<close>.  A number that does not fit a \<^verbatim>\<open>long\<close> is out of range in every use below,
  so the saturation of \<^verbatim>\<open>strtol\<close> makes no difference.
\<close>

section \<open>The code\<close>

text \<open>\<^verbatim>\<open>inet_pton(AF_INET, ...)\<close> of the C library: four decimal octets without leading zeros.\<close>

fun pton_loop :: "string \<Rightarrow> nat list \<Rightarrow> nat option \<Rightarrow> nat list option" where
  "pton_loop [] octets cur =
     (case cur of None \<Rightarrow> None | Some v \<Rightarrow> if length octets = 3 then Some (octets @ [v]) else None)"
| "pton_loop (c # cs) octets cur =
     (if is_digit c then
        (let d = nat (digit_val c)
         in case cur of
              None \<Rightarrow> if length octets \<ge> 4 then None else pton_loop cs octets (Some d)
            | Some v \<Rightarrow> if v = 0 \<or> 10 * v + d > 255 then None else pton_loop cs octets (Some (10 * v + d)))
      else if c = CHR ''.'' then
        (case cur of
           None \<Rightarrow> None
         | Some v \<Rightarrow> if length octets \<ge> 3 then None else pton_loop cs (octets @ [v]) None)
      else None)"

fun octets_ip :: "nat list \<Rightarrow> ip4 option" where
  "octets_ip [a, b, c, d] = Some (IP4 (word_of_nat a) (word_of_nat b) (word_of_nat c) (word_of_nat d))"
| "octets_ip _ = None"

definition inet_pton :: "string \<Rightarrow> ip4 option" where
  "inet_pton s = do { os \<leftarrow> pton_loop s [] None; octets_ip os }"

definition parse_ipv4_text :: "string \<Rightarrow> ip4 option" where
  "parse_ipv4_text s = inet_pton s"

definition mask_octet :: "int \<Rightarrow> int \<Rightarrow> byte" where
  "mask_octet prefix i =
     (let remaining = prefix - i * 8
      in if remaining \<ge> 8 then 0xff else if remaining \<le> 0 then 0 else push_bit (nat (8 - remaining)) 0xff)"

definition prefix_mask :: "int \<Rightarrow> ip4" where
  "prefix_mask prefix = IP4 (mask_octet prefix 0) (mask_octet prefix 1) (mask_octet prefix 2) (mask_octet prefix 3)"

abbreviation (input) IP_STR_LEN :: nat where "IP_STR_LEN \<equiv> 16"

definition parse_subnet :: "string \<Rightarrow> (ip4 \<times> ip4) option" where
  "parse_subnet text =
     (if length text \<ge> IP_STR_LEN then None
      else case dropWhile (\<lambda>c. c \<noteq> CHR ''/'') text of
          [] \<Rightarrow> None
        | _ # slash \<Rightarrow>
            (let (prefix, rest) = strtol10 slash
             in if rest \<noteq> [] \<or> prefix < 0 \<or> prefix > 32 then None
                else do {
                  net \<leftarrow> parse_ipv4_text (takeWhile (\<lambda>c. c \<noteq> CHR ''/'') text);
                  Some (ip_and net (prefix_mask prefix), prefix_mask prefix) }))"

text \<open>\<^verbatim>\<open>sscanf(ip, "%d.%d.%d.%d")\<close>; with fewer than four numbers the result is indeterminate.\<close>

fun scan_ints :: "nat \<Rightarrow> string \<Rightarrow> int list option" where
  "scan_ints 0 s = Some []"
| "scan_ints (Suc n) s =
     (let (v, rest) = strtol10 s
      in if rest = s then None
         else if n = 0 then Some [v]
         else case rest of
             [] \<Rightarrow> None
           | c # r \<Rightarrow> if c = CHR ''.'' then map_option (\<lambda>vs. v # vs) (scan_ints n r) else None)"

definition str2ip :: "string \<Rightarrow> ip4 option" where
  "str2ip s = do {
     vs \<leftarrow> scan_ints 4 s;
     Some (IP4 (word_of_int (vs ! 0)) (word_of_int (vs ! 1)) (word_of_int (vs ! 2)) (word_of_int (vs ! 3))) }"

text \<open>The address text, the port and whether the address is in brackets.\<close>

definition parse_port :: "string \<Rightarrow> u16 option" where
  "parse_port port_str =
     (if length port_str \<ge> 6 then None
      else let (conv_res, err) = strtol10 port_str
           in if port_str = [] \<or> err \<noteq> [] then None
              else if conv_res < 0 \<or> conv_res > 65535 then None
              else Some (word_of_int conv_res))"

definition split_bracket :: "string \<Rightarrow> (string \<times> string) option" where
  "split_bracket s =
     (case dropWhile (\<lambda>c. c \<noteq> CHR '']'') s of
        _ # c # port \<Rightarrow> if c = CHR '':'' then Some (takeWhile (\<lambda>c. c \<noteq> CHR '']'') s, port) else None
      | _ \<Rightarrow> None)"

definition split_plain :: "string \<Rightarrow> (string \<times> string) option" where
  "split_plain s =
     (case dropWhile (\<lambda>c. c \<noteq> CHR '':'') s of
        [] \<Rightarrow> None
      | _ # port \<Rightarrow> Some (takeWhile (\<lambda>c. c \<noteq> CHR '':'') s, port))"

definition parse_ip_port :: "string \<Rightarrow> nat \<Rightarrow> (string \<times> u16 \<times> bool) option" where
  "parse_ip_port s out_addr_len =
     (if length s < 1 \<or> length s > 1000 then None
      else do {
        let is_ipv6 = (hd s = CHR ''['');
        (addr, port) \<leftarrow> (if is_ipv6 then split_bracket (tl s) else split_plain s);
        if length addr \<ge> out_addr_len then None
        else do { p \<leftarrow> parse_port port; Some (addr, p, is_ipv6) } })"

text \<open>\<open>resolve is_ipv6 name\<close> is the first result of \<^verbatim>\<open>getaddrinfo\<close>: an address of one of the two
  families, of another family, or a failure.\<close>

datatype resolved = R4 ip4 | R6 "byte list" | ROther

datatype slp_addr_in = Addr4 ip4 u16 | Addr6 "byte list" u16

definition parse_addr :: "(bool \<Rightarrow> string \<Rightarrow> resolved option) \<Rightarrow> string \<Rightarrow> slp_addr_in option" where
  "parse_addr resolve s = do {
     (name, port, is_ipv6) \<leftarrow> parse_ip_port s 128;
     r \<leftarrow> resolve is_ipv6 name;
     case r of R4 a \<Rightarrow> Some (Addr4 a port) | R6 a \<Rightarrow> Some (Addr6 a port) | ROther \<Rightarrow> None }"

section \<open>Printing and parsing numbers\<close>

lemma show_digit: "n < 10 \<Longrightarrow> is_digit (char_of (48 + n)) \<and> digit_val (char_of (48 + n)) = int n"
  by (simp add: is_digit_def digit_val_def)

lemma show_nat_digits: "\<forall>c \<in> set (show_nat n). is_digit c"
proof (induction n rule: show_nat.induct)
  case (1 n)
  then show ?case using show_digit [of n] show_digit [of "n mod 10"] by (subst show_nat.simps) auto
qed

lemma dec_val_snoc: "dec_val (ds @ [c]) = 10 * dec_val ds + digit_val c"
  by (simp add: dec_val_def)

lemma dec_val_show_nat: "dec_val (show_nat n) = int n"
proof (induction n rule: show_nat.induct)
  case (1 n)
  show ?case
  proof (cases "n < 10")
    case True
    then show ?thesis using show_digit [OF True] by (subst show_nat.simps) (simp add: dec_val_def)
  next
    case False
    have "n = 10 * (n div 10) + n mod 10" by simp
    then have "int n = 10 * int (n div 10) + int (n mod 10)" by linarith
    then show ?thesis using False 1 [OF False] show_digit [of "n mod 10"]
      by (subst show_nat.simps) (simp add: dec_val_snoc)
  qed
qed

lemma show_nat_nonempty [simp]: "show_nat n \<noteq> []"
  by (subst show_nat.simps) simp

lemma length_show_nat: "n < 10 ^ Suc k \<Longrightarrow> length (show_nat n) \<le> Suc k"
proof (induction k arbitrary: n)
  case (Suc k)
  then show ?case using Suc.IH [of "n div 10"] by (subst show_nat.simps) auto
qed (simp add: show_nat.simps)

lemma digit_not_special: "is_digit c \<Longrightarrow> \<not> is_space c \<and> c \<noteq> CHR ''-'' \<and> c \<noteq> CHR ''+'' \<and> c \<noteq> CHR ''.'' \<and> c \<noteq> CHR ''/'' \<and> c \<noteq> CHR '':''"
  by (auto simp: is_digit_def is_space_def)

lemma strtol10_digits:
  assumes "ds \<noteq> []" "\<forall>c \<in> set ds. is_digit c" "r = [] \<or> \<not> is_digit (hd r)"
  shows "strtol10 (ds @ r) = (dec_val ds, r)"
proof -
  obtain c cs where ds: "ds = c # cs" using assms(1) by (cases ds) auto
  have "takeWhile is_digit (ds @ r) = ds" "dropWhile is_digit (ds @ r) = r"
    using assms by (auto simp: takeWhile_append dropWhile_append split: list.splits) (cases r; simp)+
  then show ?thesis using ds assms(2) digit_not_special [of c] by (simp add: strtol10_def Let_def)
qed

lemma strtol10_show_nat: "strtol10 (show_nat n) = (int n, [])"
  using strtol10_digits [of "show_nat n" "[]"] show_nat_digits [of n] by (simp add: dec_val_show_nat)

section \<open>Round trips\<close>

lemma pton_show_nat:
  "n \<le> 255 \<Longrightarrow> length os < 4 \<Longrightarrow> pton_loop (show_nat n @ rest) os None = pton_loop rest os (Some n)"
proof (induction n arbitrary: rest rule: show_nat.induct)
  case (1 n)
  show ?case
  proof (cases "n < 10")
    case True
    then show ?thesis using 1(3) show_digit [OF True] by (subst show_nat.simps) simp
  next
    case False
    then have "show_nat n @ rest = show_nat (n div 10) @ char_of (48 + n mod 10) # rest"
      by (subst show_nat.simps) simp
    moreover have "n div 10 \<noteq> 0" "10 * (n div 10) + n mod 10 = n" using False by auto
    ultimately show ?thesis
      using 1(1) [OF False] 1(2,3) show_digit [of "n mod 10"] by (simp add: Let_def)
  qed
qed

lemma inet_pton_show_ip: "inet_pton (show_ip ip) = Some ip"
proof (cases ip)
  case (IP4 a b c d)
  have dot: "\<not> is_digit (CHR ''.'')" by (simp add: is_digit_def)
  have "unat x \<le> 255" for x :: byte using unat_byte_less [of x] by linarith
  then show ?thesis
    using pton_show_nat [where rest = "[]" and n = "unat d" and os = "[unat a, unat b, unat c]"]
    by (simp add: IP4 inet_pton_def pton_show_nat dot)
qed

lemma show_ip_no_slash: "\<forall>x \<in> set (show_ip ip). x \<noteq> CHR ''/'' \<and> x \<noteq> CHR '':''"
  using show_nat_digits digit_not_special by (cases ip) fastforce

text \<open>A network printed in the usual notation is read back, with the host bits cleared.\<close>

lemma parse_subnet_show:
  assumes "p \<le> 32" "length (show_ip ip @ ''/'' @ show_nat p) < 16"
  shows "parse_subnet (show_ip ip @ ''/'' @ show_nat p) =
    Some (ip_and ip (prefix_mask (int p)), prefix_mask (int p))"
proof -
  have "takeWhile (\<lambda>c. c \<noteq> CHR ''/'') (show_ip ip @ ''/'' @ show_nat p) = show_ip ip"
    "dropWhile (\<lambda>c. c \<noteq> CHR ''/'') (show_ip ip @ ''/'' @ show_nat p) = ''/'' @ show_nat p"
    using show_ip_no_slash [of ip] by (auto simp: takeWhile_append dropWhile_append)
  then show ?thesis using assms by (simp add: parse_subnet_def strtol10_show_nat parse_ipv4_text_def inet_pton_show_ip)
qed

lemma mask_to_prefix_mask: "p \<le> 32 \<Longrightarrow> mask_to_prefix (prefix_mask (int p)) = p"
proof -
  have "\<forall>p \<in> set [0..<33]. mask_to_prefix (prefix_mask (int p)) = p" by code_simp
  then show "p \<le> 32 \<Longrightarrow> mask_to_prefix (prefix_mask (int p)) = p" by simp
qed

lemma parse_port_show:
  assumes "p \<le> 65535"
  shows "parse_port (show_nat p) = Some (word_of_nat p)"
proof -
  have "length (show_nat p) \<le> 5" using length_show_nat [of p 4] assms by simp
  then show ?thesis using assms by (simp add: parse_port_def strtol10_show_nat)
qed

lemma parse_ip_port_plain:
  assumes "p \<le> 65535" "\<forall>c \<in> set a. c \<noteq> CHR '':''" "a = [] \<or> hd a \<noteq> CHR ''[''" "length a < n" "length a \<le> 994"
  shows "parse_ip_port (a @ '':'' @ show_nat p) n = Some (a, word_of_nat p, False)"
proof -
  have "length (show_nat p) \<le> 5" using length_show_nat [of p 4] assms(1) by simp
  moreover have "hd (a @ '':'' @ show_nat p) \<noteq> CHR ''[''" using assms(3) by (cases a) auto
  moreover have "takeWhile (\<lambda>c. c \<noteq> CHR '':'') (a @ '':'' @ show_nat p) = a"
    "dropWhile (\<lambda>c. c \<noteq> CHR '':'') (a @ '':'' @ show_nat p) = '':'' @ show_nat p"
    using assms(2) by (auto simp: takeWhile_append dropWhile_append)
  ultimately show ?thesis using assms parse_port_show [OF assms(1)] by (simp add: parse_ip_port_def split_plain_def)
qed

lemma parse_ip_port_bracket:
  assumes "p \<le> 65535" "\<forall>c \<in> set a. c \<noteq> CHR '']''" "length a < n" "length a \<le> 992"
  shows "parse_ip_port (''['' @ a @ '']:'' @ show_nat p) n = Some (a, word_of_nat p, True)"
proof -
  have "length (show_nat p) \<le> 5" using length_show_nat [of p 4] assms(1) by simp
  moreover have "takeWhile (\<lambda>c. c \<noteq> CHR '']'') (a @ '']:'' @ show_nat p) = a"
    "dropWhile (\<lambda>c. c \<noteq> CHR '']'') (a @ '']:'' @ show_nat p) = '']:'' @ show_nat p"
    using assms(2) by (auto simp: takeWhile_append dropWhile_append)
  ultimately show ?thesis using assms parse_port_show [OF assms(1)] by (simp add: parse_ip_port_def split_bracket_def)
qed

lemma parse_subnet_network:
  assumes "parse_subnet s = Some (net, m)"
  shows "ip_and net m = net \<and> (\<exists>p \<le> 32. m = prefix_mask (int p))"
proof -
  obtain c slash where slash: "dropWhile (\<lambda>c. c \<noteq> CHR ''/'') s = c # slash"
    using assms by (auto simp: parse_subnet_def split: if_splits list.splits)
  obtain p rest where sl: "strtol10 slash = (p, rest)" by (cases "strtol10 slash")
  have p: "0 \<le> p" "p \<le> 32" "m = prefix_mask p" "\<exists>ip. net = ip_and ip m"
    using assms slash sl by (auto simp: parse_subnet_def bind_eq_Some_conv split: if_splits)
  have "ip_and (ip_and ip m) m = ip_and ip m" for ip by (cases ip; cases m) (simp add: and.assoc)
  moreover have "p = int (nat p)" "nat p \<le> 32" using p by simp_all
  ultimately show ?thesis using p by metis
qed

section \<open>Properties\<close>

text \<open>
  Subnets survive printing and parsing, up to 15 characters.  A network in CIDR notation is read back as the
  network with its host bits cleared and the mask of its prefix, and the prefix is recovered from the mask; but
  a text of 16 or more characters, such as \<^verbatim>\<open>192.168.191.0/24\<close>, is refused.
\<close>

theorem subnet_round_trip:
  assumes "p \<le> 32"
  shows "parse_subnet (show_ip ip @ ''/'' @ show_nat p) =
      (if length (show_ip ip @ ''/'' @ show_nat p) < 16 then Some (ip_and ip (prefix_mask (int p)), prefix_mask (int p)) else None) \<and>
    mask_to_prefix (prefix_mask (int p)) = p"
proof (cases "length (show_ip ip @ ''/'' @ show_nat p) < 16")
  case True
  then show ?thesis using parse_subnet_show [OF assms] mask_to_prefix_mask [OF assms] by simp
next
  case False
  then show ?thesis using mask_to_prefix_mask [OF assms] by (simp add: parse_subnet_def)
qed

theorem subnet_round_trip_witness:
  "parse_subnet ''10.147.17.9/24'' = Some (IP4 10 147 17 0, IP4 255 255 255 0) \<and> parse_subnet ''192.168.191.0/24'' = None"
proof -
  have t: "show_ip (IP4 10 147 17 9) @ ''/'' @ show_nat 24 = ''10.147.17.9/24''"
    "show_ip (IP4 192 168 191 0) @ ''/'' @ show_nat 24 = ''192.168.191.0/24''"
    by (simp_all add: show_nat.simps char_of_def bit_Suc_0_iff)
  have "prefix_mask (int 24) = IP4 255 255 255 0" by code_simp
  then show ?thesis
    using subnet_round_trip [of 24 "IP4 10 147 17 9"] subnet_round_trip [of 24 "IP4 192 168 191 0"] unfolding t by simp
qed

text \<open>
  Server addresses survive printing and parsing: \<^verbatim>\<open>host:port\<close> and \<^verbatim>\<open>[host]:port\<close> are split into the host, the
  port, and whether it was bracketed.
\<close>

theorem ip_port_round_trip:
  assumes "p \<le> 65535" "\<forall>c \<in> set a. c \<noteq> CHR '':'' \<and> c \<noteq> CHR ''['' \<and> c \<noteq> CHR '']''" "length a < n" "length a \<le> 992"
  shows "parse_ip_port (a @ '':'' @ show_nat p) n = Some (a, word_of_nat p, False) \<and>
    parse_ip_port (''['' @ a @ '']:'' @ show_nat p) n = Some (a, word_of_nat p, True)"
proof -
  have "a = [] \<or> hd a \<noteq> CHR ''[''" using assms(2) by (cases a) simp_all
  then show ?thesis using parse_ip_port_plain [of p a n] parse_ip_port_bracket [of p a n] assms by simp
qed

theorem ip_port_round_trip_witness:
  "parse_ip_port ''relay.example:11451'' 64 = Some (''relay.example'', 11451, False)"
proof -
  have "''relay.example'' @ '':'' @ show_nat 11451 = ''relay.example:11451''"
    by (simp add: show_nat.simps char_of_def bit_Suc_0_iff)
  then show ?thesis using ip_port_round_trip [of 11451 "''relay.example''" 64] by simp
qed

end
