(* ===== verification/Sha1.thy ===== *)
theory Sha1
  imports Relay_Prelude
begin

unbundle bit_operations_syntax

text \<open>
  SHA-1 as \<^verbatim>\<open>src/sha1.c\<close> computes it, for a little-endian host: a ring of sixteen schedule words that is
  expanded in place, the unrolled rounds with rotating roles of the working variables, and the streaming
  context.  Below it stands the algorithm of the standard, and the two are proved equal for chunks whose length is
  not within 63 of the range of a \<^verbatim>\<open>uint32_t\<close>, in which the C code counts.
\<close>

section \<open>The code\<close>

type_synonym sha_vars = "u32 \<times> u32 \<times> u32 \<times> u32 \<times> u32"

definition rol :: "u32 \<Rightarrow> nat \<Rightarrow> u32" where
  "rol value bits = push_bit bits value OR drop_bit (32 - bits) value"

text \<open>The word \<^verbatim>\<open>block->l[i]\<close> as it lies in memory, and its byte swap.\<close>

definition le32 :: "byte list \<Rightarrow> nat \<Rightarrow> u32" where
  "le32 bs i = ucast (bs ! (4 * i)) OR push_bit 8 (ucast (bs ! (4 * i + 1))) OR
     push_bit 16 (ucast (bs ! (4 * i + 2))) OR push_bit 24 (ucast (bs ! (4 * i + 3)))"

definition blk0 :: "nat \<Rightarrow> u32 list \<Rightarrow> u32" where
  "blk0 i l = (rol (l ! i) 24 AND 0xFF00FF00) OR (rol (l ! i) 8 AND 0x00FF00FF)"

definition blk :: "nat \<Rightarrow> u32 list \<Rightarrow> u32" where
  "blk i l = rol (l ! ((i + 13) mod 16) XOR l ! ((i + 8) mod 16) XOR l ! ((i + 2) mod 16) XOR l ! (i mod 16)) 1"

text \<open>One operation: the value of the round's function, the schedule word and the constant.  The
  result lists the variables in the roles of the next operation.\<close>

definition R_op :: "u32 \<Rightarrow> u32 \<Rightarrow> u32 \<Rightarrow> sha_vars \<Rightarrow> sha_vars" where
  "R_op fval bval k vars = (case vars of (v, w, x, y, z) \<Rightarrow>
     (z + (fval + bval + k + rol v 5), v, rol w 30, x, y))"

definition R_round :: "nat \<Rightarrow> u32 list \<times> sha_vars \<Rightarrow> u32 list \<times> sha_vars" where
  "R_round i s = (case s of (l, v, w, x, y, z) \<Rightarrow>
     let b = (if i < 16 then blk0 i l else blk i l);
         l' = l[i mod 16 := b];
         vars = (v, w, x, y, z)
     in (l', if i < 20 then R_op ((w AND (x XOR y)) XOR y) b 0x5A827999 vars
             else if i < 40 then R_op (w XOR x XOR y) b 0x6ED9EBA1 vars
             else if i < 60 then R_op (((w OR x) AND y) OR (w AND x)) b 0x8F1BBCDC vars
             else R_op (w XOR x XOR y) b 0xCA62C1D6 vars))"

fun add_vars :: "sha_vars \<Rightarrow> sha_vars \<Rightarrow> sha_vars" where
  "add_vars (a, b, c, d, e) (a', b', c', d', e') = (a + a', b + b', c + c', d + d', e + e')"

definition SHA1Transform :: "sha_vars \<Rightarrow> byte list \<Rightarrow> sha_vars" where
  "SHA1Transform state buffer =
     add_vars state (snd (fold R_round [0..<80] (map (le32 buffer) [0..<16], state)))"

record SHA1_CTX =
  sha_state :: sha_vars
  count0 :: u32
  count1 :: u32
  sha_buffer :: "byte list"

definition SHA1Init :: "byte list \<Rightarrow> SHA1_CTX" where
  "SHA1Init garbage = \<lparr>sha_state = (0x67452301, 0xEFCDAB89, 0x98BADCFE, 0x10325476, 0xC3D2E1F0),
     count0 = 0, count1 = 0, sha_buffer = garbage\<rparr>"

text \<open>
  \<^verbatim>\<open>for ( ; i + 63 < len; i += 64) SHA1Transform(context->state, &data[i])\<close>, with \<open>i\<close> in 32 bits.  A block behind the data
  is an access out of range.
\<close>

function transform_loop :: "sha_vars \<Rightarrow> byte list \<Rightarrow> u32 \<Rightarrow> (sha_vars \<times> u32) option" where
  "transform_loop st data i =
     (if i + 63 < word_of_nat (length data)
      then if unat i + 64 \<le> length data \<and> length data < 2 ^ 32
           then transform_loop (SHA1Transform st (take 64 (drop (unat i) data))) data (i + 64) else None
      else Some (st, i))"
  by pat_completeness auto
termination
  by (relation "measure (\<lambda>(st, data, i). length data - unat i)") (auto simp: unat_word_ariths)

declare transform_loop.simps [simp del]

text \<open>The length is converted to 32 bits, and the sums \<^verbatim>\<open>j + len\<close> and \<^verbatim>\<open>i + 63\<close> are of 32 bits; both copies must fit
  into the buffer of 64 bytes.\<close>

definition SHA1Update :: "byte list \<Rightarrow> SHA1_CTX \<Rightarrow> SHA1_CTX option" where
  "SHA1Update data c =
     (let len = (word_of_nat (length data) :: u32);
          data = take (unat len) data;
          j0 = count0 c;
          c0 = count0 c + push_bit 3 len;
          c1 = (if c0 < j0 then count1 c + 1 else count1 c) + drop_bit 29 len;
          j = drop_bit 3 j0 AND 63;
          c = c\<lparr>count0 := c0, count1 := c1\<rparr>
      in if j + len > 63
         then do {
           let buffer = patch (sha_buffer c) (unat j) (take (64 - unat j) data);
           (st, i) \<leftarrow> transform_loop (SHA1Transform (sha_state c) buffer) data (64 - j);
           let n = unat (len - i);
           if n \<le> 64 \<and> unat i + n \<le> length data
           then Some (c\<lparr>sha_state := st, sha_buffer := patch buffer 0 (take n (drop (unat i) data))\<rparr>) else None }
         else if unat j + length data \<le> 64 then Some (c\<lparr>sha_buffer := patch (sha_buffer c) (unat j) data\<rparr>) else None)"

definition finalcount :: "SHA1_CTX \<Rightarrow> byte list" where
  "finalcount c = map (\<lambda>i. ucast (drop_bit ((3 - i mod 4) * 8) (if i \<ge> 4 then count0 c else count1 c) AND 255)) [0..<8]"

lemma count0_update: "SHA1Update data c = Some c' \<Longrightarrow> count0 c' = count0 c + push_bit 3 (word_of_nat (length data))"
  by (auto simp: SHA1Update_def Let_def bind_eq_Some_conv split: if_splits)

lemma unat_numeral_448: "unat (448 :: u32) = 448"
  by simp

lemma position_mod: "n mod 4294967296 div 8 mod 64 = n div 8 mod (64 :: nat)"
proof -
  have eq: "m div 8 mod 64 = m mod 512 div 8" for m :: nat using mod_mult2_eq [of m 8 64] by simp
  have "n mod 4294967296 mod 512 = n mod 512" by (rule mod_mod_cancel) simp
  then show ?thesis by (simp only: eq)
qed

lemma count_position:
  fixes w :: u32
  shows "w AND 504 = 448 \<longleftrightarrow> unat w div 8 mod 64 = 56"
proof -
  have mask: "(504 :: u32) = push_bit 3 (mask 6)" by (simp add: mask_eq_exp_minus_1 push_bit_eq_mult)
  have "w AND 504 = push_bit 3 (take_bit 6 (drop_bit 3 w))"
    unfolding mask by (rule bit_word_eqI) (auto simp: bit_simps)
  also have "unat \<dots> = 8 * (unat w div 8 mod 64)"
    unfolding unsigned_push_bit_eq unsigned_take_bit_eq unsigned_drop_bit_eq
    using mod_less_divisor [of 64 "unat w div 8"]
    by (simp add: push_bit_eq_mult take_bit_eq_mod drop_bit_eq_div position_mod del: mod_less_divisor)
  finally have "unat (w AND 504) = 8 * (unat w div 8 mod 64)" .
  moreover have "w AND 504 = 448 \<longleftrightarrow> unat (w AND 504) = 448" by (metis unat_numeral_448 word_unat_eq_iff)
  ultimately show ?thesis by linarith
qed

lemma position_add: "unat (w + word_of_nat (8 * k) :: u32) div 8 mod 64 = (unat w div 8 mod 64 + k) mod 64"
proof -
  have "unat (w + word_of_nat (8 * k) :: u32) = (unat w + 8 * k) mod 4294967296"
    by (simp add: unat_word_ariths unat_of_nat mod_simps)
  then show ?thesis by (simp add: position_mod mod_simps add.commute)
qed

lemma pad_loop_measure:
  assumes "count0 c AND 504 \<noteq> 448" "SHA1Update [0] c = Some c'"
  shows "(120 - unat (count0 c') div 8 mod 64) mod 64 < (120 - unat (count0 c) div 8 mod 64) mod 64"
proof -
  let ?k = "unat (count0 c) div 8 mod 64"
  have "count0 c' = count0 c + 8" using count0_update [OF assms(2)] by (simp add: push_bit_eq_mult)
  then have e: "unat (count0 c') div 8 mod 64 = (?k + 1) mod 64" using position_add [of "count0 c" 1] by simp
  have "\<forall>k \<in> set [0..<64]. k \<noteq> 56 \<longrightarrow> (120 - (k + 1) mod 64) mod 64 < (120 - k) mod (64 :: nat)" by code_simp
  moreover have "?k \<noteq> 56" "?k \<in> set [0..<64]" using assms(1) count_position by auto
  ultimately show ?thesis unfolding e by blast
qed

text \<open>The padding loop of \<^verbatim>\<open>SHA1Final\<close>: zero bytes up to the last eight of a block.\<close>

function pad_loop :: "SHA1_CTX \<Rightarrow> SHA1_CTX option" where
  "pad_loop c = (if count0 c AND 504 \<noteq> 448 then Option.bind (SHA1Update [0] c) pad_loop else Some c)"
  by pat_completeness auto
termination
  by (relation "measure (\<lambda>c. (120 - unat (count0 c) div 8 mod 64) mod 64)") (simp_all add: pad_loop_measure)

declare pad_loop.simps [simp del]

definition SHA1Final :: "SHA1_CTX \<Rightarrow> byte list option" where
  "SHA1Final c = do {
     let fc = finalcount c;
     c \<leftarrow> SHA1Update [0x80] c;
     c \<leftarrow> pad_loop c;
     c \<leftarrow> SHA1Update fc c;
     let (s0, s1, s2, s3, s4) = sha_state c;
     Some (map (\<lambda>i. ucast (drop_bit ((3 - i mod 4) * 8) ([s0, s1, s2, s3, s4] ! (i div 4)) AND 255)) [0..<20]) }"

text \<open>\<^verbatim>\<open>SHA1Init\<close>, one \<^verbatim>\<open>SHA1Update\<close> and \<^verbatim>\<open>SHA1Final\<close>, as \<^verbatim>\<open>lan_play_init\<close> and the login use them; the
  buffer of a fresh context is arbitrary.\<close>

definition sha1 :: "byte list \<Rightarrow> byte list \<Rightarrow> byte list option" where
  "sha1 garbage data = Option.bind (SHA1Update data (SHA1Init garbage)) SHA1Final"

section \<open>The standard\<close>

text \<open>The compression function over the eighty words of the message schedule.\<close>

definition be32 :: "byte list \<Rightarrow> nat \<Rightarrow> u32" where
  "be32 bs i = push_bit 24 (ucast (bs ! (4 * i))) OR push_bit 16 (ucast (bs ! (4 * i + 1))) OR
     push_bit 8 (ucast (bs ! (4 * i + 2))) OR ucast (bs ! (4 * i + 3))"

fun schedule :: "byte list \<Rightarrow> nat \<Rightarrow> u32" where
  "schedule b t = (if t < 16 then be32 b t
     else rol (schedule b (t - 3) XOR schedule b (t - 8) XOR schedule b (t - 14) XOR schedule b (t - 16)) 1)"

declare schedule.simps [simp del]

definition logical :: "nat \<Rightarrow> u32 \<Rightarrow> u32 \<Rightarrow> u32 \<Rightarrow> u32" where
  "logical t x y z =
     (if t < 20 then (x AND y) XOR (NOT x AND z)
      else if t < 40 then x XOR y XOR z
      else if t < 60 then (x AND y) XOR (x AND z) XOR (y AND z)
      else x XOR y XOR z)"

definition sha_const :: "nat \<Rightarrow> u32" where
  "sha_const t = (if t < 20 then 0x5A827999 else if t < 40 then 0x6ED9EBA1 else if t < 60 then 0x8F1BBCDC else 0xCA62C1D6)"

definition std_step :: "byte list \<Rightarrow> nat \<Rightarrow> sha_vars \<Rightarrow> sha_vars" where
  "std_step bs t vars = (case vars of (a, b, c, d, e) \<Rightarrow>
     (rol a 5 + logical t b c d + e + sha_const t + schedule bs t, a, rol b 30, c, d))"

definition std_compress :: "sha_vars \<Rightarrow> byte list \<Rightarrow> sha_vars" where
  "std_compress st bs = add_vars st (fold (std_step bs) [0..<80] st)"

fun std_blocks :: "nat \<Rightarrow> sha_vars \<Rightarrow> byte list \<Rightarrow> sha_vars" where
  "std_blocks 0 st m = st"
| "std_blocks (Suc n) st m = std_blocks n (std_compress st (take 64 m)) (drop 64 m)"

definition std_init :: sha_vars where
  "std_init = (0x67452301, 0xEFCDAB89, 0x98BADCFE, 0x10325476, 0xC3D2E1F0)"

text \<open>The length in bits as 64 bits, and the padded message: a multiple of 64 bytes.\<close>

definition be64_len :: "nat \<Rightarrow> byte list" where
  "be64_len n = map (\<lambda>i. word_of_nat (n div 256 ^ (7 - i))) [0..<8]"

definition std_pad :: "byte list \<Rightarrow> byte list" where
  "std_pad m = m @ [0x80] @ replicate ((119 - length m mod 64) mod 64) 0 @ be64_len (8 * length m)"

definition word_bytes :: "u32 \<Rightarrow> byte list" where
  "word_bytes w = map (\<lambda>i. ucast (drop_bit ((3 - i) * 8) w)) [0..<4]"

definition std_sha1 :: "byte list \<Rightarrow> byte list" where
  "std_sha1 m = (case std_blocks (length (std_pad m) div 64) std_init (std_pad m) of
     (a, b, c, d, e) \<Rightarrow> word_bytes a @ word_bytes b @ word_bytes c @ word_bytes d @ word_bytes e)"

section \<open>The compression functions agree\<close>

lemma choose_eq: "(w AND (x XOR y)) XOR y = (w AND x) XOR (NOT w AND y)" for w x y :: u32
  by (rule bit_word_eqI) (auto simp: bit_simps)

lemma majority_eq: "((w OR x) AND y) OR (w AND x) = (w AND x) XOR (w AND y) XOR (x AND y)" for w x y :: u32
  by (rule bit_word_eqI) (auto simp: bit_simps)

lemma swap_masks:
  "(0xFF00FF00 :: u32) = push_bit 24 (mask 8) OR push_bit 8 (mask 8)" "(0x00FF00FF :: u32) = push_bit 16 (mask 8) OR mask 8"
  by (simp_all add: mask_eq_exp_minus_1 push_bit_eq_mult)

lemma blk0_swaps:
  fixes a b c d :: byte
  defines "w \<equiv> ucast a OR push_bit 8 (ucast b) OR push_bit 16 (ucast c) OR push_bit 24 (ucast d) :: u32"
  shows "(rol w 24 AND 0xFF00FF00) OR (rol w 8 AND 0x00FF00FF) =
    push_bit 24 (ucast a) OR push_bit 16 (ucast b) OR push_bit 8 (ucast c) OR ucast d"
proof (rule bit_word_eqI)
  fix n assume "n < LENGTH(32)"
  then have "n \<in> set [0..<32]" by simp
  moreover have z: "\<not> bit x k" if "8 \<le> k" for x :: byte and k using that bit_imp_le_length [of x k] by auto
  ultimately show "bit ((rol w 24 AND 0xFF00FF00) OR (rol w 8 AND 0x00FF00FF)) n \<longleftrightarrow>
      bit (push_bit 24 (ucast a) OR push_bit 16 (ucast b) OR push_bit 8 (ucast c) OR ucast d :: u32) n"
    unfolding swap_masks w_def rol_def
    by (simp add: upt_rec) (elim disjE; simp add: bit_simps z; simp add: z eval_nat_numeral)
qed

text \<open>After \<open>n\<close> rounds the ring holds the latest sixteen words of the schedule, and the words of the
  block that were not yet read.\<close>

definition ring_ok :: "byte list \<Rightarrow> nat \<Rightarrow> u32 list \<Rightarrow> bool" where
  "ring_ok bs n l \<longleftrightarrow> length l = 16 \<and> (\<forall>j < 16. n \<le> j \<longrightarrow> l ! j = le32 bs j) \<and>
     (\<forall>t < n. n \<le> t + 16 \<longrightarrow> l ! (t mod 16) = schedule bs t)"

lemma blk0_be32: "blk0 i l = be32 bs i" if "l ! i = le32 bs i"
  using that blk0_swaps [of "bs ! (4 * i)"] by (simp add: blk0_def be32_def le32_def)

lemma ring_blk:
  assumes "ring_ok bs n l"
  shows "(if n < 16 then blk0 n l else blk n l) = schedule bs n"
proof (cases "n < 16")
  case True
  then show ?thesis using assms blk0_be32 by (simp add: ring_ok_def schedule.simps)
next
  case False
  have at: "l ! ((n + k) mod 16) = schedule bs (n - (16 - k))" if "k < 16" for k
  proof -
    obtain m where m: "n = m + 16" using False by (metis add.commute le_Suc_ex not_less)
    then have "n - (16 - k) = m + k" "n + k = (m + k) + 16" using that by simp_all
    moreover from this have "(n + k) mod 16 = (m + k) mod 16" by (simp only: mod_add_self2)
    ultimately have "(n + k) mod 16 = (n - (16 - k)) mod 16" by simp
    then show ?thesis using assms False that by (simp add: ring_ok_def)
  qed
  show ?thesis using at [of 13] at [of 8] at [of 2] at [of 0] False
    by (subst schedule.simps) (simp add: blk_def)
qed

lemma ring_step:
  assumes "ring_ok bs n l"
  shows "ring_ok bs (Suc n) (l[n mod 16 := schedule bs n])"
  unfolding ring_ok_def
proof (intro conjI allI impI)
  show "length (l[n mod 16 := schedule bs n]) = 16" using assms by (simp add: ring_ok_def)
  show "l[n mod 16 := schedule bs n] ! j = le32 bs j" if "j < 16" "Suc n \<le> j" for j
    using assms that by (simp add: ring_ok_def)
  show "l[n mod 16 := schedule bs n] ! (t mod 16) = schedule bs t" if "t < Suc n" "Suc n \<le> t + 16" for t
  proof (cases "t = n")
    case False
    have "n mod 16 \<noteq> t mod 16"
    proof
      assume "n mod 16 = t mod 16"
      then have "16 dvd n - t" using mod_eq_dvd_iff_nat [of t n 16] that by simp
      then show False using that False by (auto dest: dvd_imp_le)
    qed
    then show ?thesis using assms that False by (simp add: ring_ok_def)
  qed (use assms in \<open>simp add: ring_ok_def\<close>)
qed

lemma R_round_std:
  assumes "ring_ok bs n l" "n < 80"
  shows "R_round n (l, vars) = (l[n mod 16 := schedule bs n], std_step bs n vars)"
proof -
  obtain v w x y z where vars: "vars = (v, w, x, y, z)" by (cases vars)
  show ?thesis
    unfolding vars R_round_def prod.case ring_blk [OF assms(1)] Let_def choose_eq majority_eq R_op_def std_step_def
      logical_def sha_const_def
    by (simp add: algebra_simps)
qed

lemma R_rounds_std:
  assumes "n \<le> 80"
  shows "\<exists>l. ring_ok bs n l \<and> fold R_round [0..<n] (map (le32 bs) [0..<16], st) = (l, fold (std_step bs) [0..<n] st)"
  using assms
proof (induction n)
  case 0
  show ?case by (simp add: ring_ok_def)
next
  case (Suc n)
  then obtain l where l: "ring_ok bs n l"
    "fold R_round [0..<n] (map (le32 bs) [0..<16], st) = (l, fold (std_step bs) [0..<n] st)" by auto
  then have "fold R_round [0..<Suc n] (map (le32 bs) [0..<16], st) =
      (l[n mod 16 := schedule bs n], fold (std_step bs) [0..<Suc n] st)"
    using R_round_std [OF l(1)] Suc.prems by simp
  then show ?case using ring_step [OF l(1)] by blast
qed

lemma SHA1Transform_std: "SHA1Transform st bs = std_compress st bs"
  using R_rounds_std [of 80 bs st] by (auto simp: SHA1Transform_def std_compress_def)

section \<open>The streaming context\<close>

text \<open>The context holds the message so far: the whole blocks compressed, the rest buffered, the length
  in bits in two words.\<close>

definition ctx_holds :: "SHA1_CTX \<Rightarrow> byte list \<Rightarrow> bool" where
  "ctx_holds c m \<longleftrightarrow>
     length (sha_buffer c) = 64 \<and> sha_state c = std_blocks (length m div 64) std_init m \<and>
     take (length m mod 64) (sha_buffer c) = drop (64 * (length m div 64)) m \<and>
     count0 c = word_of_nat (8 * length m) \<and> count1 c = word_of_nat (8 * length m div 2 ^ 32)"

lemma ctx_holds_init: "length garbage = 64 \<Longrightarrow> ctx_holds (SHA1Init garbage) []"
  by (simp add: ctx_holds_def SHA1Init_def std_init_def)

lemma std_blocks_add: "std_blocks (i + j) st m = std_blocks j (std_blocks i st m) (drop (64 * i) m)"
  by (induction i arbitrary: st m) (simp_all add: drop_drop add.commute)

lemma std_blocks_prefix: "64 * n \<le> length m \<Longrightarrow> std_blocks n st (m @ r) = std_blocks n st m"
  by (induction n arbitrary: st m) simp_all

text \<open>An update that counts without wrapping: the form in which the streaming argument is made.\<close>

fun transform_rest :: "sha_vars \<Rightarrow> byte list \<Rightarrow> sha_vars \<times> byte list" where
  "transform_rest st data =
     (if 63 < length data then transform_rest (SHA1Transform st (take 64 data)) (drop 64 data) else (st, data))"

declare transform_rest.simps [simp del]

definition chunk_added :: "byte list \<Rightarrow> SHA1_CTX \<Rightarrow> SHA1_CTX" where
  "chunk_added data c =
     (let len = (word_of_nat (length data) :: u32);
          c0 = count0 c + push_bit 3 len;
          c1 = (if c0 < count0 c then count1 c + 1 else count1 c) + drop_bit 29 len;
          j = unat (drop_bit 3 (count0 c) AND 63);
          c = c\<lparr>count0 := c0, count1 := c1\<rparr>
      in if 63 < j + length data
         then let buffer = patch (sha_buffer c) j (take (64 - j) data);
                  (st, rest) = transform_rest (SHA1Transform (sha_state c) buffer) (drop (64 - j) data)
              in c\<lparr>sha_state := st, sha_buffer := patch buffer 0 rest\<rparr>
         else c\<lparr>sha_buffer := patch (sha_buffer c) j data\<rparr>)"

lemma transform_rest_std:
  "transform_rest st data = (std_blocks (length data div 64) st data, drop (64 * (length data div 64)) data)"
proof (induction st data rule: transform_rest.induct)
  case (1 st data)
  show ?case
  proof (cases "63 < length data")
    case True
    then have "length data div 64 = Suc ((length data - 64) div 64)" by (simp add: le_div_geq)
    then show ?thesis using True 1 [OF True]
      by (subst transform_rest.simps) (simp add: SHA1Transform_std drop_drop add.commute)
  qed (subst transform_rest.simps, simp)
qed

lemma div_carry:
  fixes a b c :: nat
  assumes "0 < c"
  shows "(a + b) div c = a div c + b div c + (if (a + b) mod c < a mod c then 1 else 0)"
proof -
  have lt: "a mod c < c" "b mod c < c" using assms by simp_all
  have d: "(a + b) div c = a div c + b div c + (a mod c + b mod c) div c" by (rule div_add1_eq)
  have m: "(a + b) mod c = (a mod c + b mod c) mod c" by (simp add: mod_add_eq)
  show ?thesis
  proof (cases "a mod c + b mod c < c")
    case True
    then show ?thesis using d m by simp
  next
    case False
    moreover have "a mod c + b mod c - c < c" using lt by linarith
    ultimately have "(a mod c + b mod c) mod c = a mod c + b mod c - c" "(a mod c + b mod c) div c = 1"
      using assms by (simp_all add: le_mod_geq le_div_geq)
    then show ?thesis using d m lt False by simp
  qed
qed

lemma update_counts:
  assumes "ctx_holds c m" "length data < 2 ^ 32"
  shows "count0 (chunk_added data c) = word_of_nat (8 * length (m @ data))"
    "count1 (chunk_added data c) = word_of_nat (8 * length (m @ data) div 2 ^ 32)"
proof -
  let ?a = "8 * length m" and ?b = "8 * length data"
  have c: "count0 c = word_of_nat ?a" "count1 c = word_of_nat (?a div 2 ^ 32)" using assms by (simp_all add: ctx_holds_def)
  have c0: "count0 c + push_bit 3 (word_of_nat (length data)) = (word_of_nat (?a + ?b) :: u32)"
    by (simp add: c push_bit_eq_mult)
  show "count0 (chunk_added data c) = word_of_nat (8 * length (m @ data))"
    using c0 by (simp add: chunk_added_def Let_def split: prod.split)
  have "drop_bit 29 (word_of_nat (length data) :: u32) = word_of_nat (?b div 2 ^ 32)"
  proof (rule word_unat_eq_iff [THEN iffD2])
    have "?b div 2 ^ 32 = length data div 2 ^ 29" by simp
    then show "unat (drop_bit 29 (word_of_nat (length data) :: u32)) = unat (word_of_nat (?b div 2 ^ 32) :: u32)"
      unfolding unsigned_drop_bit_eq using assms(2) by (simp add: unat_of_nat drop_bit_eq_div take_bit_eq_mod)
  qed
  moreover have "(word_of_nat (?a + ?b) :: u32) < word_of_nat ?a \<longleftrightarrow> (?a + ?b) mod 2 ^ 32 < ?a mod 2 ^ 32"
    unfolding word_less_nat_alt unat_of_nat by simp
  ultimately have "count1 (chunk_added data c) =
      word_of_nat (?a div 2 ^ 32 + ?b div 2 ^ 32 + (if (?a + ?b) mod 2 ^ 32 < ?a mod 2 ^ 32 then 1 else 0))"
    using c0 c by (simp add: chunk_added_def Let_def split: prod.split)
  then show "count1 (chunk_added data c) = word_of_nat (8 * length (m @ data) div 2 ^ 32)"
    using div_carry [of "2 ^ 32" ?a ?b] by simp
qed

lemma len32: "2 ^ LENGTH(32) = (4294967296 :: nat)"
  by simp

lemma update_position:
  assumes "ctx_holds c m"
  shows "unat (drop_bit 3 (count0 c) AND 63) = length m mod 64"
proof -
  have "drop_bit 3 (count0 c) AND 63 = take_bit 6 (drop_bit 3 (count0 c))"
    by (simp add: take_bit_eq_mask mask_eq_exp_minus_1)
  also have "unat \<dots> = unat (count0 c) div 8 mod 64"
    unfolding unsigned_take_bit_eq unsigned_drop_bit_eq by (simp add: take_bit_eq_mod drop_bit_eq_div position_mod)
  finally have "unat (drop_bit 3 (count0 c) AND 63) = unat (count0 c) div 8 mod 64" .
  also have "\<dots> = length m mod 64" using assms position_mod [of "8 * length m"]
    unfolding ctx_holds_def by (metis len32 nonzero_mult_div_cancel_left unat_of_nat zero_neq_numeral)
  finally show ?thesis .
qed

lemma update_blocks:
  assumes j: "j = length m mod 64" and k: "k = length m div 64" and len: "63 < j + length data"
    and buf: "length buf = 64" "take j buf = drop (64 * k) m"
  shows "std_blocks (length (m @ data) div 64) st (m @ data) =
      std_blocks (length (drop (64 - j) data) div 64)
        (std_compress (std_blocks k st m) (patch buf j (take (64 - j) data))) (drop (64 - j) data)"
    "drop (64 * (length (m @ data) div 64)) (m @ data) =
      drop (64 * (length (drop (64 - j) data) div 64)) (drop (64 - j) data)"
    "length (m @ data) mod 64 = length (drop (64 - j) data) mod 64"
proof -
  let ?d = "drop (64 - j) data"
  have m: "length m = 64 * k + j" "j < 64" by (simp_all add: j k)
  have l: "length (m @ data) = 64 * Suc k + length ?d" using m len by simp
  then have div: "length (m @ data) div 64 = Suc k + length ?d div 64" by (simp only: div_mult_self4)
  have blk: "take 64 (drop (64 * k) (m @ data)) = patch buf j (take (64 - j) data)"
    using m buf len by (simp add: patch_def)
  have rest: "drop (64 * Suc k) (m @ data) = ?d" using m by simp
  have "std_blocks (Suc k) st (m @ data) = std_compress (std_blocks k st m) (patch buf j (take (64 - j) data))"
    using std_blocks_add [of k 1 st "m @ data"] blk std_blocks_prefix [of k m st data] m by simp
  then show "std_blocks (length (m @ data) div 64) st (m @ data) =
      std_blocks (length ?d div 64) (std_compress (std_blocks k st m) (patch buf j (take (64 - j) data))) ?d"
    unfolding div std_blocks_add rest by (simp only:)
  show "drop (64 * (length (m @ data) div 64)) (m @ data) = drop (64 * (length ?d div 64)) ?d"
  proof -
    have "64 * (Suc k + length ?d div 64) = 64 * (length ?d div 64) + 64 * Suc k" by simp
    then show ?thesis unfolding div by (simp only: drop_drop [symmetric] rest)
  qed
  show "length (m @ data) mod 64 = length ?d mod 64" unfolding l by (simp only: mod_mult_self4)
qed

lemma chunk_added_holds:
  assumes c: "ctx_holds c m" and len: "length data < 2 ^ 32"
  shows "ctx_holds (chunk_added data c) (m @ data)"
proof -
  define j where "j = length m mod 64"
  define k where "k = length m div 64"
  have st: "length (sha_buffer c) = 64" "sha_state c = std_blocks k std_init m" "take j (sha_buffer c) = drop (64 * k) m"
    using c by (simp_all add: ctx_holds_def j_def k_def)
  have m: "length m = 64 * k + j" "j < 64" by (simp_all add: j_def k_def)
  note pos = update_position [OF c, folded j_def]
  show ?thesis
  proof (cases "63 < j + length data")
    case True
    define r where "r = drop (64 - j) data"
    define b where "b = patch (sha_buffer c) j (take (64 - j) data)"
    note blocks = update_blocks [OF j_def k_def True st(1,3), folded r_def b_def]
    define rest where "rest = drop (64 * (length r div 64)) r"
    have lb: "length b = 64" "length rest = length r mod 64" using st m True by (simp_all add: b_def rest_def minus_mult_div_eq_mod)
    have "sha_state (chunk_added data c) = std_blocks (length r div 64) (std_compress (std_blocks k std_init m) b) r"
      "sha_buffer (chunk_added data c) = patch b 0 rest"
      using True pos st by (simp_all add: chunk_added_def Let_def transform_rest_std SHA1Transform_std r_def b_def rest_def)
    moreover have "length rest \<le> 64" "take (length r mod 64) (patch b 0 rest) = rest" using lb by (simp_all add: patch_def)
    ultimately show ?thesis
      unfolding ctx_holds_def update_counts [OF c len] blocks using lb by (simp add: rest_def)
  next
    case False
    have s: "sha_state (chunk_added data c) = sha_state c" "sha_buffer (chunk_added data c) = patch (sha_buffer c) j data"
      using False pos by (simp_all add: chunk_added_def Let_def)
    have l: "length (m @ data) = 64 * k + (j + length data)" "j + length data < 64" using m False by simp_all
    then have d: "length (m @ data) div 64 = k" "length (m @ data) mod 64 = j + length data"
      by (simp_all only: div_mult_self4 mod_mult_self4 div_less mod_less)
    have "take (j + length data) (patch (sha_buffer c) j data) = drop (64 * k) (m @ data)"
      using st l m by (simp add: patch_def)
    then show ?thesis
      unfolding ctx_holds_def update_counts [OF c len] d s
      using st l m std_blocks_prefix [of k m std_init data] by simp
  qed
qed

text \<open>The 32-bit sums do not wrap for chunks of at most \<open>2 ^ 32 - 64\<close> bytes.\<close>

lemma transform_loop_rest:
  assumes "length data \<le> 2 ^ 32 - 64" "unat i \<le> length data"
  shows "\<exists>i'. transform_loop st data i = Some (fst (transform_rest st (drop (unat i) data)), i') \<and>
    snd (transform_rest st (drop (unat i) data)) = drop (unat i') data \<and> unat i' \<le> length data \<and> length data < unat i' + 64"
  using assms(2)
proof (induction "length data - unat i" arbitrary: st i rule: less_induct)
  case less
  have i63: "unat (i + 63) = unat i + 63" using less.prems assms(1) by (simp add: unat_word_ariths)
  have len: "unat (word_of_nat (length data) :: u32) = length data" using assms(1) by (simp add: unat_of_nat)
  have cond: "i + 63 < word_of_nat (length data) \<longleftrightarrow> unat i + 63 < length data"
    unfolding word_less_nat_alt i63 len ..
  show ?case
  proof (cases "unat i + 63 < length data")
    case True
    then have i64: "unat (i + 64) = unat i + 64" using assms(1) by (simp add: unat_word_ariths)
    have r: "transform_rest st (drop (unat i) data) =
        transform_rest (SHA1Transform st (take 64 (drop (unat i) data))) (drop (unat (i + 64)) data)"
    proof -
      have "63 < length (drop (unat i) data)" using True by simp
      then show ?thesis by (subst transform_rest.simps) (simp only: i64 if_True drop_drop add.commute)
    qed
    have l: "transform_loop st data i = transform_loop (SHA1Transform st (take 64 (drop (unat i) data))) data (i + 64)"
      using True cond assms(1) by (subst transform_loop.simps) simp
    show ?thesis unfolding r l by (rule less.hyps) (use True i64 in simp_all)
  next
    case False
    then have "\<not> 63 < length (drop (unat i) data)" by simp
    then have "transform_rest st (drop (unat i) data) = (st, drop (unat i) data)"
      by (subst transform_rest.simps) (simp only: if_False)
    then show ?thesis using False less.prems cond by (subst transform_loop.simps) auto
  qed
qed

lemma position_lt: "unat (drop_bit 3 (w :: u32) AND 63) < 64"
proof -
  have "drop_bit 3 w AND 63 \<le> 63" by (rule word_and_le1)
  then show ?thesis by (simp add: word_le_nat_alt)
qed

lemma SHA1Update_chunk:
  assumes "length data \<le> 2 ^ 32 - 64"
  shows "SHA1Update data c = Some (chunk_added data c)"
proof -
  define j where "j = drop_bit 3 (count0 c) AND 63"
  define len where "len = (word_of_nat (length data) :: u32)"
  have j: "unat j < 64" unfolding j_def by (rule position_lt)
  have len: "unat len = length data" using assms by (simp add: len_def unat_of_nat)
  have all: "take (unat len) data = data" by (simp add: len)
  have cond: "j + len > 63 \<longleftrightarrow> 63 < unat j + length data"
    using j assms by (simp add: word_less_nat_alt unat_word_ariths len)
  show ?thesis
  proof (cases "63 < unat j + length data")
    case True
    have sub: "unat (64 - j) = 64 - unat j" using j by (simp add: unat_sub word_le_nat_alt)
    then have "unat (64 - j) \<le> length data" using True by simp
    from transform_loop_rest [OF assms this]
    obtain i where i: "transform_loop (SHA1Transform (sha_state c) (patch (sha_buffer c) (unat j) (take (64 - unat j) data))) data (64 - j) =
        Some (fst (transform_rest (SHA1Transform (sha_state c) (patch (sha_buffer c) (unat j) (take (64 - unat j) data))) (drop (64 - unat j) data)), i)"
      "snd (transform_rest (SHA1Transform (sha_state c) (patch (sha_buffer c) (unat j) (take (64 - unat j) data))) (drop (64 - unat j) data)) =
        drop (unat i) data" "unat i \<le> length data" "length data < unat i + 64"
      unfolding sub by blast
    have n: "unat (len - i) = length data - unat i" using i(3) len by (simp add: unat_sub word_le_nat_alt)
    show ?thesis using True cond i n
      unfolding SHA1Update_def chunk_added_def Let_def j_def [symmetric] len_def [symmetric] all by (simp add: case_prod_beta)
  next
    case False
    then show ?thesis using cond
      unfolding SHA1Update_def chunk_added_def Let_def j_def [symmetric] len_def [symmetric] all by simp
  qed
qed

lemma update_holds:
  assumes "ctx_holds c m" "length data \<le> 2 ^ 32 - 64"
  obtains c' where "SHA1Update data c = Some c'" "ctx_holds c' (m @ data)"
  using SHA1Update_chunk [OF assms(2)] chunk_added_holds [OF assms(1)] assms(2) by simp

text \<open>Above that bound \<^verbatim>\<open>j + len\<close> can wrap, and the code copies the whole chunk behind the 64 bytes of the buffer.\<close>

lemma update_overruns:
  assumes "length data < 2 ^ 32" "2 ^ 32 \<le> unat (drop_bit 3 (count0 c) AND 63) + length data"
  shows "SHA1Update data c = None"
proof -
  define j where "j = drop_bit 3 (count0 c) AND 63"
  have j: "unat j < 64" unfolding j_def by (rule position_lt)
  have "unat (j + word_of_nat (length data)) = unat j + length data - 2 ^ 32"
    using assms j unfolding j_def [symmetric] by (simp add: unat_word_ariths unat_of_nat le_mod_geq)
  then have "\<not> j + word_of_nat (length data) > 63" using assms(1) j by (simp add: word_less_nat_alt)
  moreover have "take (unat (word_of_nat (length data) :: u32)) data = data" using assms(1) by (simp add: unat_of_nat)
  ultimately show ?thesis using assms unfolding SHA1Update_def Let_def j_def [symmetric] by simp
qed

text \<open>The padding loop stops at the position 56 of a block.\<close>

lemma pad_loop_holds:
  "ctx_holds c m \<Longrightarrow> \<exists>c'. pad_loop c = Some c' \<and> ctx_holds c' (m @ replicate ((120 - length m mod 64) mod 64) 0)"
proof (induction c arbitrary: m rule: pad_loop.induct)
  case (1 c)
  have "unat (count0 c) div 8 mod 64 = length m mod 64"
    using position_add [of 0 "length m"] 1(2) by (simp add: ctx_holds_def)
  then have cond: "count0 c AND 504 \<noteq> 448 \<longleftrightarrow> length m mod 64 \<noteq> 56" using count_position by simp
  show ?case
  proof (cases "length m mod 64 = 56")
    case True
    then show ?thesis using 1(2) cond by (subst pad_loop.simps) simp
  next
    case False
    have "\<forall>k \<in> set [0..<64]. k \<noteq> 56 \<longrightarrow> (120 - k) mod 64 = Suc ((120 - (k + 1) mod 64) mod 64)" by code_simp
    moreover have "length m mod 64 \<in> set [0..<64]" by simp
    ultimately have n: "(120 - length m mod 64) mod 64 = Suc ((120 - length (m @ [0]) mod 64) mod 64)"
      using False by (simp add: mod_simps)
    obtain d where d: "SHA1Update [0] c = Some d" "ctx_holds d (m @ [0])" using 1(2) by (rule update_holds [of c m "[0]"]) simp_all
    have "\<exists>c'. pad_loop d = Some c' \<and> ctx_holds c' ((m @ [0]) @ replicate ((120 - length (m @ [0]) mod 64) mod 64) 0)"
      using 1(1) [OF _ d(1)] cond False d(2) by blast
    then show ?thesis unfolding n using cond False d(1) by (subst pad_loop.simps) simp
  qed
qed

section \<open>The digest\<close>

lemma mask255: "(255 :: u32) = mask 8"
  by (simp add: mask_eq_exp_minus_1)

lemma byte_of_count:
  assumes "sh \<le> 24"
  shows "(ucast (drop_bit sh (word_of_nat n :: u32) AND 255) :: byte) = word_of_nat (n div 2 ^ sh)"
  using assms unfolding drop_bit_eq_div [symmetric] mask255 by (intro bit_word_eqI) (simp add: bit_simps)

lemma finalcount_holds:
  assumes "ctx_holds c m"
  shows "finalcount c = be64_len (8 * length m)"
proof (rule nth_equalityI)
  fix i assume "i < length (finalcount c)"
  then have i: "i < 8" by (simp add: finalcount_def)
  define n where "n = 8 * length m"
  have c: "count0 c = word_of_nat n" "count1 c = word_of_nat (n div 2 ^ 32)" using assms by (simp_all add: ctx_holds_def n_def)
  have pow: "(256 :: nat) ^ k = 2 ^ (8 * k)" for k by (simp add: power_mult)
  show "finalcount c ! i = be64_len (8 * length m) ! i"
  proof (cases "i \<ge> 4")
    case True
    then have "i mod 4 = i - 4" using i by (simp add: mod_if)
    then have "(3 - i mod 4) * 8 = 8 * (7 - i)" using True by simp
    then show ?thesis using i True c byte_of_count [of "8 * (7 - i)" n]
      unfolding n_def [symmetric] by (simp add: finalcount_def be64_len_def pow mult.commute)
  next
    case False
    then have "8 * (7 - i) = 32 + 8 * (3 - i)" by simp
    then have "2 ^ 32 * 2 ^ (8 * (3 - i)) = (2 :: nat) ^ (8 * (7 - i))" by (simp only: power_add)
    then have "n div 2 ^ (8 * (7 - i)) = n div 2 ^ 32 div 2 ^ (8 * (3 - i))" by (metis div_mult2_eq)
    then show ?thesis using i False c byte_of_count [of "8 * (3 - i)" "n div 2 ^ 32"]
      unfolding n_def [symmetric] by (simp add: finalcount_def be64_len_def pow mult.commute)
  qed
qed (simp add: finalcount_def be64_len_def)

lemma low_byte: "(ucast (w AND 255) :: byte) = ucast (w :: u32)"
  unfolding mask255 by (intro bit_word_eqI) (simp add: bit_simps)

lemma SHA1Final_std:
  assumes c: "ctx_holds c m"
  shows "SHA1Final c = Some (std_sha1 m)"
proof -
  obtain c1 where c1: "SHA1Update [0x80] c = Some c1" "ctx_holds c1 (m @ [0x80])" using c by (rule update_holds [of c m "[0x80]"]) simp_all
  obtain c2 where c2: "pad_loop c1 = Some c2" "ctx_holds c2 ((m @ [0x80]) @ replicate ((120 - length (m @ [0x80]) mod 64) mod 64) 0)"
    using pad_loop_holds [OF c1(2)] by blast
  have "\<forall>k \<in> set [0..<64]. (120 - (k + 1) mod 64) mod 64 = (119 - k) mod (64 :: nat)" by code_simp
  moreover have "length m mod 64 \<in> set [0..<64]" by simp
  ultimately have "(120 - (length m mod 64 + 1) mod 64) mod 64 = (119 - length m mod 64) mod 64" by blast
  then have "(120 - length (m @ [0x80]) mod 64) mod 64 = (119 - length m mod 64) mod 64" by (simp add: mod_Suc_eq)
  then have pad: "((m @ [0x80]) @ replicate ((120 - length (m @ [0x80]) mod 64) mod 64) 0) @ finalcount c = std_pad m"
    using finalcount_holds [OF c] by (simp add: std_pad_def)
  have "length (finalcount c) \<le> 2 ^ 32 - 64" by (simp add: finalcount_def)
  then obtain c3 where c3: "SHA1Update (finalcount c) c2 = Some c3" "ctx_holds c3 (std_pad m)"
    using update_holds [OF c2(2), of "finalcount c"] unfolding pad by blast
  then have st: "sha_state c3 = std_blocks (length (std_pad m) div 64) std_init (std_pad m)" by (simp add: ctx_holds_def)
  show ?thesis
    using c1(1) c2(1) c3(1) unfolding SHA1Final_def Let_def std_sha1_def
    by (cases "std_blocks (length (std_pad m) div 64) std_init (std_pad m)")
      (simp add: st low_byte word_bytes_def upt_rec)
qed

text \<open>The code computes the function of the standard, whatever was in the fresh buffer and however the
  message is cut into updates.\<close>

fun feed :: "byte list list \<Rightarrow> SHA1_CTX \<Rightarrow> SHA1_CTX option" where
  "feed [] c = Some c"
| "feed (d # ds) c = Option.bind (SHA1Update d c) (feed ds)"

lemma feed_holds:
  "ctx_holds c m \<Longrightarrow> \<forall>d \<in> set ds. length d \<le> 2 ^ 32 - 64 \<Longrightarrow> \<exists>c'. feed ds c = Some c' \<and> ctx_holds c' (m @ concat ds)"
proof (induction ds arbitrary: c m)
  case (Cons d ds)
  obtain c' where "SHA1Update d c = Some c'" "ctx_holds c' (m @ d)"
    using Cons.prems by (auto elim: update_holds [of c m d])
  then show ?case using Cons.IH [of c' "m @ d"] Cons.prems(2) by simp
qed simp

lemma feed_std:
  assumes "length garbage = 64" "\<forall>d \<in> set ds. length d \<le> 2 ^ 32 - 64"
  shows "Option.bind (feed ds (SHA1Init garbage)) SHA1Final = Some (std_sha1 (concat ds))"
  using feed_holds [OF ctx_holds_init [OF assms(1)] assms(2)] SHA1Final_std by auto

lemma sha1_std: "length garbage = 64 \<Longrightarrow> length data \<le> 2 ^ 32 - 64 \<Longrightarrow> sha1 garbage data = Some (std_sha1 data)"
  using feed_std [of garbage "[data]"] by (simp add: sha1_def)

section \<open>Properties\<close>

text \<open>
  C25.  The digest is SHA-1.  Whatever the context's buffer held before, and however a message is split over calls of
  \<^verbatim>\<open>SHA1Update\<close> with chunks of at most \<open>2 ^ 32 - 64\<close> bytes, no call runs out of its buffer and \<^verbatim>\<open>SHA1Final\<close> returns the
  digest of the whole message as FIPS 180 defines it, with the schedule of 80 words, the round functions, the padding
  and the big-endian words written out.  For longer chunks the 32-bit sums of the code can wrap (\<open>update_overruns\<close>).
\<close>

theorem digest_is_sha1:
  assumes "length garbage = 64" "\<forall>d \<in> set ds. length d \<le> 2 ^ 32 - 64"
  shows "Option.bind (feed ds (SHA1Init garbage)) SHA1Final = Some (std_sha1 (concat ds))"
  using assms by (rule feed_std)

theorem digest_is_sha1_witness:
  "Option.bind (feed [[97], [98, 99]] (SHA1Init (replicate 64 7))) SHA1Final = Some (std_sha1 [97, 98, 99])"
  using digest_is_sha1 [of "replicate 64 7" "[[97], [98, 99]]"] by simp

text \<open>
  C40.  The padding loop of \<^verbatim>\<open>SHA1Final\<close> stops: it appends zero bytes, at most 63, until exactly eight bytes are left
  in the block for the length.
\<close>

theorem padding_stops:
  assumes "ctx_holds c m"
  shows "\<exists>k \<le> 63. \<exists>c'. pad_loop c = Some c' \<and> ctx_holds c' (m @ replicate k 0) \<and> (length m + k) mod 64 = 56"
proof -
  let ?k = "(120 - length m mod 64) mod 64"
  obtain c' where c': "pad_loop c = Some c'" "ctx_holds c' (m @ replicate ?k 0)" using pad_loop_holds [OF assms] by blast
  have "?k < 64" by simp
  then have k: "?k \<le> 63" by linarith
  have "(length m + ?k) mod 64 = (length m mod 64 + (120 - length m mod 64)) mod 64" by presburger
  moreover have "length m mod 64 < 64" by simp
  ultimately have "(length m + ?k) mod 64 = 56" by simp
  then show ?thesis using c' k by blast
qed

theorem padding_stops_witness:
  "\<exists>k \<le> 63. \<exists>c'. pad_loop (SHA1Init (replicate 64 0)) = Some c' \<and> ctx_holds c' (replicate k 0) \<and> k mod 64 = 56"
  using padding_stops [OF ctx_holds_init [of "replicate 64 0"]] by simp

end
