(* ===== verification/Init.thy ===== *)
theory Init
  imports Relay_Safety Address Sha1
begin

text \<open>
  Starting and stopping the relay: \<^verbatim>\<open>lan_play_init\<close>, \<^verbatim>\<open>init_pcap\<close> and \<^verbatim>\<open>lan_play_close\<close> of
  \<^verbatim>\<open>src/lan-play.c\<close>.  Each early return with a message is an error value; \<open>PasswordOverrun\<close> is no return of the code
  but a password whose length wraps the sums of \<^verbatim>\<open>SHA1Update\<close>.  The adapter lists, the name
  service, the gateway's status and the libuv calls are the record \<open>init_calls\<close>.
\<close>

section \<open>The code\<close>

datatype init_error =
    BadRelayServer | BadSubnet | BadGateway | GatewayOutside | LocalCapture | ZeroTierCapture
  | NoWifiMac | NoZeroTierMac | NoZeroTierIpv4 | ZeroTierOutside | ZeroWifiMac | ZeroZeroTierMac
  | PasswordOverrun | BadSocks5 | GatewayFailed int | GuardFailed | PortBusy u16 | CapturesFailed | TimerInit int | TimerStart int

record init_calls =
  windows :: bool
  wifi_devs :: "pcap_dev list option"
  zerotier_devs :: "pcap_dev list option"
  resolve :: "bool \<Rightarrow> string \<Rightarrow> resolved option"
  stack_bytes :: "byte list"
  gateway_init_rc :: int
  guard_alloc :: bool
  init_socks :: "u16 \<Rightarrow> udp_calls"
  open_dead_ok :: bool
  file_ok :: "string \<Rightarrow> bool"
  timer_init_rc :: int
  timer_start_rc :: int

definition bindE :: "'e + 'a \<Rightarrow> ('a \<Rightarrow> 'e + 'b) \<Rightarrow> 'e + 'b" where
  "bindE m f = (case m of Inl err \<Rightarrow> Inl err | Inr x \<Rightarrow> f x)"

definition orE :: "'e \<Rightarrow> 'a option \<Rightarrow> 'e + 'a" where
  "orE err m = (case m of None \<Rightarrow> Inl err | Some x \<Rightarrow> Inr x)"

definition text_bytes :: "string \<Rightarrow> byte list" where
  "text_bytes s = map of_char s"

text \<open>The relay server's address and the login; only \<^verbatim>\<open>sha1(password)\<close> is kept.\<close>

definition init_login :: "init_calls \<Rightarrow> cli_options \<Rightarrow> lan_play \<Rightarrow> init_error + lan_play" where
  "init_login calls o1 lp =
     bindE (case relay_server_addr o1 of
              None \<Rightarrow> Inr ()
            | Some s \<Rightarrow> bindE (orE BadRelayServer (parse_addr (resolve calls) s)) (\<lambda>_. Inr ()))
       (\<lambda>_. bindE (case relay_password o1 of
                       None \<Rightarrow> Inr (key (client lp))
                     | Some p \<Rightarrow> orE PasswordOverrun (sha1 (stack_bytes calls) (text_bytes p)))
       (\<lambda>k. Inr (lp\<lparr>client := (client lp)\<lparr>broadcast := opt_broadcast o1, pmtu := opt_pmtu o1,
          username := map_option text_bytes (relay_username o1), key := k\<rparr>\<rparr>)))"

definition init_subnet :: "cli_options \<Rightarrow> init_error + (ip4 \<times> ip4 \<times> string)" where
  "init_subnet o1 =
     (case opt_subnet o1 of
        Some s \<Rightarrow> bindE (orE BadSubnet (parse_subnet s)) (\<lambda>(net, nm). Inr (net, nm, s))
      | None \<Rightarrow> Inr (the (str2ip ''10.147.17.0''), the (str2ip ''255.255.255.0''), ''10.147.17.0/24''))"

definition init_gateway_ip :: "cli_options \<Rightarrow> init_error + ip4" where
  "init_gateway_ip o1 =
     (case gateway_ip o1 of
        Some s \<Rightarrow> orE BadGateway (parse_ipv4_text s)
      | None \<Rightarrow> Inr (the (str2ip ''10.147.17.1'')))"

definition init_pcap :: "init_calls \<Rightarrow> string option \<Rightarrow> string \<Rightarrow> lan_play \<Rightarrow> init_error + lan_play" where
  "init_pcap calls name subnet lp =
     bindE (orE LocalCapture (uv_pcap_init (windows calls) (wifi_devs calls) name subnet))
       (\<lambda>p. Inr (lp\<lparr>pcap := p\<rparr>))"

definition init_zerotier_pcap :: "init_calls \<Rightarrow> string option \<Rightarrow> string \<Rightarrow> lan_play \<Rightarrow> init_error + lan_play" where
  "init_zerotier_pcap calls name subnet lp =
     bindE (orE ZeroTierCapture (uv_pcap_init (windows calls) (zerotier_devs calls) name subnet))
       (\<lambda>p. Inr (lp\<lparr>zerotier_pcap := p\<rparr>))"

text \<open>The Wi-Fi adapter's address is optional; without one the DHCP side of discovery stays off.\<close>

definition init_wifi :: "lan_play \<Rightarrow> init_error + lan_play" where
  "init_wifi lp =
     bindE (orE NoWifiMac (uv_pcap_get_mac (pcap lp))) (\<lambda>m.
       let lp = lp\<lparr>wifi_mac := m\<rparr>
       in Inr (case uv_pcap_get_ipv4 (pcap lp) of
            Some (ip, nm) \<Rightarrow>
              lp\<lparr>wifi_ip := ip, wifi_netmask := nm, wifi_subnet := ip_and ip nm,
                 wifi_broadcast := ip_or (ip_and ip nm) (ip_not nm), wifi_subnet_known := True\<rparr>
          | None \<Rightarrow> lp))"

definition init_zerotier :: "ip4 \<Rightarrow> ip4 \<Rightarrow> lan_play \<Rightarrow> init_error + lan_play" where
  "init_zerotier net nm lp =
     bindE (orE NoZeroTierMac (uv_pcap_get_mac (zerotier_pcap lp))) (\<lambda>m.
     bindE (orE NoZeroTierIpv4 (uv_pcap_get_ipv4 (zerotier_pcap lp))) (\<lambda>(ip, znm).
       if ip_and ip nm \<noteq> net then Inl ZeroTierOutside
       else Inr (lp\<lparr>zerotier_mac := m, zerotier_ip := ip, zerotier_netmask := znm,
              zerotier_broadcast_ip := ip_or ip (ip_not znm)\<rparr>)))"

abbreviation (input) game_ports :: "u16 list" where
  "game_ports \<equiv> [35000, 49152, 49153, 49154, 49155]"

fun reserve_ports :: "init_calls \<Rightarrow> u16 list \<Rightarrow> lan_play \<Rightarrow> init_error + lan_play" where
  "reserve_ports calls [] lp = Inr lp"
| "reserve_ports calls (p # ps) lp =
     (let (ret, g) = native_udp_guard_reserve (init_socks calls p) (udp_guard lp) p
      in if ret \<noteq> None then Inl (PortBusy p) else reserve_ports calls ps (lp\<lparr>udp_guard := g\<rparr>))"

definition init_endpoints :: "init_calls \<Rightarrow> lan_play \<Rightarrow> init_error + lan_play" where
  "init_endpoints calls lp =
     (let (ret, g) = native_udp_guard_create (guard_alloc calls) (zerotier_ip lp)
      in if ret \<noteq> None then Inl GuardFailed else reserve_ports calls game_ports (lp\<lparr>udp_guard := g\<rparr>))"

definition init_captures :: "env \<Rightarrow> init_calls \<Rightarrow> lan_play \<Rightarrow> init_error + lan_play" where
  "init_captures e calls lp =
     (let (ok, cs) = open_captures (clk e) (open_dead_ok calls) (file_ok calls) (capture_prefix (options e)) (capture_state lp)
      in if \<not> ok then Inl CapturesFailed else Inr (lp\<lparr>capture_state := cs\<rparr>))"

definition init_discovery :: "env \<Rightarrow> init_calls \<Rightarrow> lan_play \<Rightarrow> init_error + lan_play" where
  "init_discovery e calls lp =
     (if \<not> discover_switch (options e) then Inr lp
      else if timer_init_rc calls \<noteq> 0 then Inl (TimerInit (timer_init_rc calls))
      else if timer_start_rc calls \<noteq> 0 then Inl (TimerStart (timer_start_rc calls))
      else Inr (lp\<lparr>switch_discovery_host := 2, switch_discovery_pause_ticks := 0,
             switch_discovery_wifi_phase := wifi_subnet_known lp, switch_discovery_active := True\<rparr>))"

definition lan_play_init :: "env \<Rightarrow> init_calls \<Rightarrow> lan_play \<Rightarrow> init_error + lan_play" where
  "lan_play_init e calls lp =
     (let o1 = options e;
          lp = lp\<lparr>zerotier_neighbors := (zerotier_neighbors lp)\<lparr>arp_table := arp_list_init, arp_ttl := 30\<rparr>,
                 dhcp_state := dhcp_server_init\<rparr>
      in bindE (init_login calls o1 lp) (\<lambda>lp.
         bindE (init_subnet o1) (\<lambda>(net, nm, flt).
         bindE (init_gateway_ip o1) (\<lambda>ip.
         if ip_and ip nm \<noteq> net then Inl GatewayOutside
         else bindE (init_pcap calls (netif o1) flt lp) (\<lambda>lp.
         bindE (init_zerotier_pcap calls (zerotier_if o1) flt lp) (\<lambda>lp.
         bindE (init_wifi lp) (\<lambda>lp.
         bindE (init_zerotier net nm lp) (\<lambda>lp.
         if wifi_mac lp = NONE_MAC then Inl ZeroWifiMac
         else if zerotier_mac lp = NONE_MAC then Inl ZeroZeroTierMac
         else let lp = lp\<lparr>ctx := packet_init BUFFER_SIZE ip net nm 30\<rparr>
              in bindE (case socks5_server_addr o1 of
                          None \<Rightarrow> Inr ()
                        | Some s \<Rightarrow> bindE (orE BadSocks5 (parse_addr (resolve calls) s)) (\<lambda>_. Inr ())) (\<lambda>_.
                 if gateway_init_rc calls \<noteq> 0 then Inl (GatewayFailed (gateway_init_rc calls))
                 else bindE (init_endpoints calls lp) (\<lambda>lp.
                      bindE (init_captures e calls lp) (init_discovery e calls)))))))))))"

text \<open>
  \<^verbatim>\<open>lan_play_close\<close>: the sockets that are closed, the status and the state.  The status of
  \<^verbatim>\<open>lan_client_close\<close> and of \<^verbatim>\<open>gateway_close\<close> are arguments; the first is asked only with a relay server.
\<close>

definition uv_pcap_close :: "uv_pcap \<Rightarrow> uv_pcap" where
  "uv_pcap_close p = p\<lparr>if_map := (\<lambda>_. None)\<rparr>"

definition lan_play_close :: "env \<Rightarrow> int \<Rightarrow> int \<Rightarrow> lan_play \<Rightarrow> u16 list \<times> int \<times> lan_play" where
  "lan_play_close e client_rc gateway_rc lp =
     (let lp = (if discover_switch (options e) then lp\<lparr>switch_discovery_active := False\<rparr> else lp);
          socks = native_udp_guard_close (udp_guard lp);
          lp = lp\<lparr>udp_guard := None, capture_state := close_captures (flush_oks e) (capture_state lp),
                 pcap := uv_pcap_close (pcap lp), zerotier_pcap := uv_pcap_close (zerotier_pcap lp)\<rparr>;
          ret = (if relay_server_addr (options e) \<noteq> None then client_rc else 0)
      in (socks, if ret \<noteq> 0 then ret else gateway_rc, lp))"

section \<open>What a successful start establishes\<close>

lemma bindE_Inr: "bindE m f = Inr y \<longleftrightarrow> (\<exists>x. m = Inr x \<and> f x = Inr y)"
  by (cases m) (simp_all add: bindE_def)

lemma orE_Inr [simp]: "orE err m = Inr x \<longleftrightarrow> m = Some x"
  by (cases m) (simp_all add: orE_def)

lemmas start_simps = bindE_Inr Let_def

text \<open>The part of the state that opening the adapters leaves alone.\<close>

definition unopened :: "lan_play \<Rightarrow> _" where
  "unopened lp = (capture_state lp, console lp, dhcp_state lp, out lp)"

lemma single_interface: "uv_pcap_get_mac p = Some m \<Longrightarrow> map if_mac (interfaces p) = [m]"
  by (auto simp: uv_pcap_get_mac_def split: list.splits)

lemma init_login_keeps: "init_login calls o1 lp = Inr lp' \<Longrightarrow> unopened lp' = unopened lp"
  by (auto simp: init_login_def start_simps unopened_def console_def)

lemma init_pcap_opens:
  "init_pcap calls n flt lp = Inr lp' \<Longrightarrow> pcap_ok (pcap lp') \<and> unopened lp' = unopened lp"
  using pcap_ok_init by (auto simp: init_pcap_def start_simps unopened_def console_def)

lemma init_zerotier_pcap_opens:
  "init_zerotier_pcap calls n flt lp = Inr lp' \<Longrightarrow>
     pcap_ok (zerotier_pcap lp') \<and> pcap lp' = pcap lp \<and> unopened lp' = unopened lp"
  using pcap_ok_init by (auto simp: init_zerotier_pcap_def start_simps unopened_def console_def)

lemma init_wifi_reads:
  "init_wifi lp = Inr lp' \<Longrightarrow> map if_mac (interfaces (pcap lp)) = [wifi_mac lp'] \<and> pcap lp' = pcap lp \<and>
     zerotier_pcap lp' = zerotier_pcap lp \<and> unopened lp' = unopened lp"
  using single_interface [of "pcap lp"]
  by (auto simp: init_wifi_def start_simps unopened_def console_def split: option.splits)

lemma init_zerotier_reads:
  "init_zerotier net nm lp = Inr lp' \<Longrightarrow> map if_mac (interfaces (zerotier_pcap lp)) = [zerotier_mac lp'] \<and>
     ip_and (zerotier_ip lp') nm = net \<and> zerotier_broadcast_ip lp' = ip_or (zerotier_ip lp') (ip_not (zerotier_netmask lp')) \<and>
     pcap lp' = pcap lp \<and> zerotier_pcap lp' = zerotier_pcap lp \<and> wifi_mac lp' = wifi_mac lp \<and> unopened lp' = unopened lp"
  using single_interface [of "zerotier_pcap lp"]
  by (auto simp: init_zerotier_def start_simps unopened_def console_def split: if_splits)

text \<open>The endpoints: only the guard changes, and it holds every port of the list.\<close>

lemma reserve_ports_reserves:
  assumes "reserve_ports calls ps lp = Inr lp'" "guard_opt_ok (udp_guard lp)"
  shows "\<exists>g. lp' = lp\<lparr>udp_guard := g\<rparr> \<and> guard_opt_ok g \<and> guard_ports g = set ps \<union> guard_ports (udp_guard lp)"
  using assms
proof (induction ps arbitrary: lp)
  case Nil
  then show ?case by (intro exI [of _ "udp_guard lp"]) simp
next
  case (Cons p ps)
  obtain ret g where g: "native_udp_guard_reserve (init_socks calls p) (udp_guard lp) p = (ret, g)" by fastforce
  have ok: "ret = None" "reserve_ports calls ps (lp\<lparr>udp_guard := g\<rparr>) = Inr lp'"
    using Cons.prems(1) g by (auto split: if_splits)
  have "guard_opt_ok g" "guard_ports g = insert p (guard_ports (udp_guard lp))"
    using udp_guard.wf_reserve [OF Cons.prems(2)] udp_guard.held_reserve g ok(1) by (metis fst_conv snd_conv)+
  then show ?case using Cons.IH [OF ok(2)] by auto
qed

lemma init_endpoints_reserve:
  assumes "init_endpoints calls lp = Inr lp'"
  shows "\<exists>g. lp' = lp\<lparr>udp_guard := g\<rparr> \<and> guard_opt_ok g \<and> guard_ports g = set game_ports"
proof -
  obtain ret g where g: "native_udp_guard_create (guard_alloc calls) (zerotier_ip lp) = (ret, g)" by fastforce
  have "guard_ports g = {}" using g by (auto simp: native_udp_guard_create_def guard_ports_def split: if_splits)
  moreover have "guard_opt_ok g" using create_ok [of "guard_alloc calls" "zerotier_ip lp"] g by simp
  moreover have r: "reserve_ports calls game_ports (lp\<lparr>udp_guard := g\<rparr>) = Inr lp'"
    using assms unfolding init_endpoints_def g Let_def prod.case by (simp only: sum.distinct split: if_splits)
  ultimately show ?thesis using reserve_ports_reserves [OF r] by (simp del: reserve_ports.simps)
qed

lemma init_captures_opens:
  "init_captures e calls lp = Inr lp' \<Longrightarrow> captures_ok (capture_state lp) \<Longrightarrow>
     \<forall>c \<in> set (caps (capture_state lp)). \<not> opened c \<Longrightarrow>
     \<exists>cs. lp' = lp\<lparr>capture_state := cs\<rparr> \<and> captures_ok cs"
  using open_captures_ok [of "capture_state lp" "clk e" "open_dead_ok calls" "file_ok calls" "capture_prefix (options e)"]
  by (auto simp: init_captures_def split: prod.splits if_splits)

lemma init_discovery_starts:
  "init_discovery e calls lp = Inr lp' \<Longrightarrow>
     lp' = lp \<or> lp' = lp\<lparr>switch_discovery_host := 2, switch_discovery_pause_ticks := 0,
             switch_discovery_wifi_phase := wifi_subnet_known lp, switch_discovery_active := True\<rparr>"
  by (auto simp: init_discovery_def split: if_splits)

text \<open>The phases of a successful start, one after the other.\<close>

lemma init_phases:
  assumes "lan_play_init e calls lp0 = Inr lp'"
  obtains net nm flt ip lp1 lp2 lp3 lp4 lp5 lp6 lp7 where
    "init_login calls (options e) (lp0\<lparr>zerotier_neighbors := (zerotier_neighbors lp0)\<lparr>arp_table := arp_list_init, arp_ttl := 30\<rparr>,
       dhcp_state := dhcp_server_init\<rparr>) = Inr lp1"
    "init_subnet (options e) = Inr (net, nm, flt)" "init_gateway_ip (options e) = Inr ip" "ip_and ip nm = net"
    "init_pcap calls (netif (options e)) flt lp1 = Inr lp2"
    "init_zerotier_pcap calls (zerotier_if (options e)) flt lp2 = Inr lp3"
    "init_wifi lp3 = Inr lp4" "init_zerotier net nm lp4 = Inr lp5"
    "wifi_mac lp5 \<noteq> NONE_MAC" "zerotier_mac lp5 \<noteq> NONE_MAC"
    "init_endpoints calls (lp5\<lparr>ctx := packet_init BUFFER_SIZE ip net nm 30\<rparr>) = Inr lp6"
    "init_captures e calls lp6 = Inr lp7" "init_discovery e calls lp7 = Inr lp'"
  using assms unfolding lan_play_init_def Let_def by (clarsimp simp: bindE_Inr split: if_splits)

text \<open>A started relay satisfies the invariant of a run.\<close>

lemma init_run_ok:
  assumes init: "lan_play_init e calls lp0 = Inr lp'"
    and fresh: "captures_ok (capture_state lp0)" "\<forall>c \<in> set (caps (capture_state lp0)). \<not> opened c" "\<not> switch_seen lp0"
  shows "run_ok lp' \<and> guard_ports (udp_guard lp') = set game_ports \<and> out lp' = out lp0 \<and>
    (\<forall>s. hw_addr s lp' \<noteq> NONE_MAC) \<and>
    ip_and (ctx_ip (ctx lp')) (subnet_mask (ctx lp')) = subnet_net (ctx lp') \<and>
    ip_and (zerotier_ip lp') (subnet_mask (ctx lp')) = subnet_net (ctx lp')"
  using init
proof (rule init_phases)
  fix net nm flt ip lp1 lp2 lp3 lp4 lp5 lp6 lp7
  assume 1: "init_login calls (options e) (lp0\<lparr>zerotier_neighbors := (zerotier_neighbors lp0)\<lparr>arp_table := arp_list_init,
       arp_ttl := 30\<rparr>, dhcp_state := dhcp_server_init\<rparr>) = Inr lp1" and gw: "ip_and ip nm = net"
    and 2: "init_pcap calls (netif (options e)) flt lp1 = Inr lp2"
    and 3: "init_zerotier_pcap calls (zerotier_if (options e)) flt lp2 = Inr lp3"
    and 4: "init_wifi lp3 = Inr lp4" and 5: "init_zerotier net nm lp4 = Inr lp5"
    and mac: "wifi_mac lp5 \<noteq> NONE_MAC" "zerotier_mac lp5 \<noteq> NONE_MAC"
    and 6: "init_endpoints calls (lp5\<lparr>ctx := packet_init BUFFER_SIZE ip net nm 30\<rparr>) = Inr lp6"
    and 7: "init_captures e calls lp6 = Inr lp7" and 8: "init_discovery e calls lp7 = Inr lp'"
  note r = init_login_keeps [OF 1] init_pcap_opens [OF 2] init_zerotier_pcap_opens [OF 3] init_wifi_reads [OF 4]
    init_zerotier_reads [OF 5]
  have u5: "capture_state lp5 = capture_state lp0" "dhcp_state lp5 = dhcp_server_init" "out lp5 = out lp0" "\<not> switch_seen lp5"
    using r fresh(3) by (simp_all add: unopened_def console_def)
  have links: "link_up (pcap lp5) (wifi_mac lp5)" "link_up (zerotier_pcap lp5) (zerotier_mac lp5)"
    using r by (simp_all add: link_up_def)
  obtain g where g: "lp6 = lp5\<lparr>ctx := packet_init BUFFER_SIZE ip net nm 30, udp_guard := g\<rparr>"
    "guard_opt_ok g" "guard_ports g = set game_ports" using init_endpoints_reserve [OF 6] by auto
  obtain cs where cs: "lp7 = lp6\<lparr>capture_state := cs\<rparr>" "captures_ok cs"
    using init_captures_opens [OF 7] fresh(1,2) u5 g by auto
  have "run_ok lp7"
    using links g cs u5 leases_ok_init
    by (simp add: run_ok_def relay_ok_def io_ok_def all_sides link_of_def hw_addr_def packet_init_def console_ok_def)
  moreover have "run_ok lp'" if "lp' = lp7\<lparr>switch_discovery_host := 2, switch_discovery_pause_ticks := 0,
       switch_discovery_wifi_phase := wifi_subnet_known lp7, switch_discovery_active := True\<rparr>"
    using \<open>run_ok lp7\<close> unfolding that
    by (simp add: run_ok_def relay_ok_def io_ok_def all_sides link_of_def hw_addr_def console_ok_def cs g u5)
  ultimately have "run_ok lp'" using init_discovery_starts [OF 8] by blast
  moreover have "udp_guard lp' = g \<and> out lp' = out lp0 \<and> ctx lp' = packet_init BUFFER_SIZE ip net nm 30 \<and>
      wifi_mac lp' = wifi_mac lp5 \<and> zerotier_mac lp' = zerotier_mac lp5 \<and> zerotier_ip lp' = zerotier_ip lp5"
    using init_discovery_starts [OF 8] cs(1) g(1) u5(3) by auto
  moreover have "ip_and (zerotier_ip lp5) nm = net" using r by simp
  ultimately show ?thesis using g(3) mac gw by (simp add: all_sides hw_simps packet_init_def)
qed

text \<open>With discovery enabled the sweep starts at host 2 of the Wi-Fi subnet.\<close>

lemma init_sweep:
  assumes "lan_play_init e calls lp0 = Inr lp'" "discover_switch (options e)" "\<not> switch_seen lp0"
  shows "\<not> switch_seen lp' \<and> switch_discovery_pause_ticks lp' = 0 \<and> switch_discovery_host lp' = 2 \<and>
    switch_discovery_wifi_phase lp' = wifi_subnet_known lp'"
  using assms(1)
proof (rule init_phases)
  fix net nm flt ip lp1 lp2 lp3 lp4 lp5 lp6 lp7
  assume 1: "init_login calls (options e) (lp0\<lparr>zerotier_neighbors := (zerotier_neighbors lp0)\<lparr>arp_table := arp_list_init,
       arp_ttl := 30\<rparr>, dhcp_state := dhcp_server_init\<rparr>) = Inr lp1"
    and 2: "init_pcap calls (netif (options e)) flt lp1 = Inr lp2"
    and 3: "init_zerotier_pcap calls (zerotier_if (options e)) flt lp2 = Inr lp3"
    and 4: "init_wifi lp3 = Inr lp4" and 5: "init_zerotier net nm lp4 = Inr lp5"
    and 6: "init_endpoints calls (lp5\<lparr>ctx := packet_init BUFFER_SIZE ip net nm 30\<rparr>) = Inr lp6"
    and 7: "init_captures e calls lp6 = Inr lp7" and 8: "init_discovery e calls lp7 = Inr lp'"
  have "\<not> switch_seen lp5"
    using init_login_keeps [OF 1] init_pcap_opens [OF 2] init_zerotier_pcap_opens [OF 3] init_wifi_reads [OF 4]
      init_zerotier_reads [OF 5] assms(3) by (simp add: unopened_def console_def)
  then have "\<not> switch_seen lp7"
    using init_endpoints_reserve [OF 6] 7 by (auto simp: init_captures_def split: prod.splits if_splits)
  then show ?thesis using 8 assms(2) by (auto simp: init_discovery_def split: if_splits)
qed

end
