(* ===== verification/Lan_Client.thy ===== *)
theory Lan_Client
  imports Relay_Safety Sha1
begin

text \<open>
  The client of a central relay server, \<^verbatim>\<open>src/lan-client.c\<close>: datagrams to the server with fragmentation of
  packets above the path MTU, reassembly of received fragments, the login and the timers.  The receive
  buffer \<^verbatim>\<open>client_buf\<close> has 4096 bytes; what lies behind the \<^verbatim>\<open>nread\<close> received bytes is left from earlier.
  The shifts \<^verbatim>\<open>1 << part\<close> and \<^verbatim>\<open>~0 << total_part\<close> are taken as the usual machine shifts below 32 bits and
  as undefined from there on.
\<close>

section \<open>Sending\<close>

abbreviation (input) LC_FRAG_HEADER_LEN :: nat where "LC_FRAG_HEADER_LEN \<equiv> 16"
abbreviation (input) LAN_CLIENT_TYPE_KEEPALIVE :: byte where "LAN_CLIENT_TYPE_KEEPALIVE \<equiv> 0"
abbreviation (input) LAN_CLIENT_TYPE_IPV4 :: byte where "LAN_CLIENT_TYPE_IPV4 \<equiv> 1"
abbreviation (input) LAN_CLIENT_TYPE_IPV4_FRAG :: byte where "LAN_CLIENT_TYPE_IPV4_FRAG \<equiv> 3"
abbreviation (input) LAN_CLIENT_TYPE_AUTH_ME :: byte where "LAN_CLIENT_TYPE_AUTH_ME \<equiv> 4"
abbreviation (input) LC_FRAG_COUNT :: nat where "LC_FRAG_COUNT \<equiv> 100"

definition lan_client_send_raw :: "env \<Rightarrow> byte list list \<Rightarrow> lan_play \<Rightarrow> int \<times> lan_play" where
  "lan_client_send_raw e bufs lp =
     (let packet = concat bufs; c = client lp; ret = server_rc e (length (out lp)) packet
      in if packet = [] then (0, lp)
         else (ret, lp\<lparr>out := out lp @ [ServerUdp packet ret],
                 client := c\<lparr>lc_upload_packet := lc_upload_packet c + 1,
                   lc_upload_byte := lc_upload_byte c + word_of_nat (length packet)\<rparr>\<rparr>))"

definition frag_header :: "ip4 \<Rightarrow> ip4 \<Rightarrow> int \<Rightarrow> nat \<Rightarrow> nat \<Rightarrow> nat \<Rightarrow> nat \<Rightarrow> byte list" where
  "frag_header src dst ident pt total_part len mtu =
     ip_bytes src @ ip_bytes dst @ net16 (word_of_int ident) @ [word_of_nat pt, word_of_nat total_part] @
     net16 (word_of_nat len) @ net16 (word_of_nat mtu)"

text \<open>The loop over the parts; a failed send ends it.  \<open>header i part_len\<close> is the header of part \<open>i\<close>.\<close>

function send_parts ::
  "env \<Rightarrow> (nat \<Rightarrow> nat \<Rightarrow> byte list) \<Rightarrow> nat \<Rightarrow> byte list \<Rightarrow> nat \<Rightarrow> nat \<Rightarrow> nat \<Rightarrow> lan_play \<Rightarrow> (int \<times> lan_play) option" where
  "send_parts e header mtu packet len i pos lp =
     (if mtu = 0 \<or> \<not> pos < len then Some (0, lp)
      else do {
        let part_len = min mtu (len - pos);
        body \<leftarrow> read_bytes packet pos part_len;
        let (ret, lp') = lan_client_send_raw e [[LAN_CLIENT_TYPE_IPV4_FRAG], header i part_len, body] lp;
        if ret \<noteq> 0 then Some (ret, lp')
        else send_parts e header mtu packet len (i + 1) (pos + part_len) lp' })"
  by pat_completeness auto
termination
  by (relation "measure (\<lambda>(e, header, mtu, packet, len, i, pos, lp). len - pos)") auto

declare send_parts.simps [simp del]

definition lan_client_send :: "env \<Rightarrow> byte \<Rightarrow> byte list \<Rightarrow> nat \<Rightarrow> lan_play \<Rightarrow> (int \<times> lan_play) option" where
  "lan_client_send e type packet len lp =
     (let mtu = pmtu (client lp); n = nat mtu;
          total_part = (let t = len div n in if n * t < len then t + 1 else t)
      in if type = LAN_CLIENT_TYPE_IPV4 \<and> mtu > 0 \<and> total_part > 1
         then do {
           let ident = frag_id (client lp);
           let lp = lp\<lparr>client := (client lp)\<lparr>frag_id := ident + 1\<rparr>\<rparr>;
           src \<leftarrow> CPY_IPV4 packet IPV4_OFF_SRC;
           dst \<leftarrow> CPY_IPV4 packet IPV4_OFF_DST;
           send_parts e (\<lambda>i part_len. frag_header src dst ident i total_part part_len n) n packet len 0 0 lp }
         else do {
           body \<leftarrow> read_bytes packet 0 len;
           Some (lan_client_send_raw e [[type], body] lp) })"

definition lan_client_send_keepalive :: "env \<Rightarrow> lan_play \<Rightarrow> (int \<times> lan_play) option" where
  "lan_client_send_keepalive e lp = lan_client_send e LAN_CLIENT_TYPE_KEEPALIVE [] 0 lp"

definition lan_client_send_auth_me :: "env \<Rightarrow> byte list \<Rightarrow> nat \<Rightarrow> lan_play \<Rightarrow> (int \<times> lan_play) option" where
  "lan_client_send_auth_me e packet len lp = lan_client_send e LAN_CLIENT_TYPE_AUTH_ME packet len lp"

section \<open>Delivering to the local network\<close>

definition lan_client_arp_for_each_cb ::
  "env \<Rightarrow> byte list \<Rightarrow> u16 \<Rightarrow> lan_play option \<Rightarrow> arp_item \<Rightarrow> int \<times> lan_play option" where
  "lan_client_arp_for_each_cb e packet len st item =
     (0, do { lp \<leftarrow> st; (_, lp) \<leftarrow> send_ether e (item_mac item) ETHER_TYPE_IPV4 [(packet, len)] lp; Some lp })"

definition lan_client_on_broadcast :: "env \<Rightarrow> byte list \<Rightarrow> u16 \<Rightarrow> lan_play \<Rightarrow> (int \<times> lan_play) option" where
  "lan_client_on_broadcast e packet len lp =
     (if next_real_broadcast (client lp)
      then send_ether e BROADCAST_MAC ETHER_TYPE_IPV4 [(packet, len)]
             (lp\<lparr>client := (client lp)\<lparr>next_real_broadcast := False\<rparr>\<rparr>)
      else do {
        lp \<leftarrow> arp_for_each (arp_table (ctx lp)) (now (clk e)) (lan_client_arp_for_each_cb e packet len) (Some lp);
        Some (0, lp) })"

definition lan_client_process :: "env \<Rightarrow> byte list \<Rightarrow> u16 \<Rightarrow> lan_play \<Rightarrow> (int \<times> lan_play) option" where
  "lan_client_process e packet len lp =
     (if len = 0 then Some (0, lp)
      else do {
        dst \<leftarrow> CPY_IPV4 packet IPV4_OFF_DST;
        if IS_BROADCAST dst (subnet_net (ctx lp)) (subnet_mask (ctx lp))
        then lan_client_on_broadcast e packet len lp
        else do {
          (m, lp) \<leftarrow> arp_get_mac_by_ip e dst lp;
          case m of
            None \<Rightarrow> Some (0, lp)
          | Some dst_mac \<Rightarrow> send_ether e dst_mac ETHER_TYPE_IPV4 [(packet, len)] lp } })"

section \<open>Reassembly\<close>

record frag_info =
  fh_src :: ip4
  fh_dst :: ip4
  fh_id :: u16
  fh_part :: byte
  fh_total_part :: byte
  fh_len :: u16
  fh_pmtu :: u16

definition read_frag_header :: "byte list \<Rightarrow> frag_info option" where
  "read_frag_header packet = do {
     src \<leftarrow> CPY_IPV4 packet 0;
     dst \<leftarrow> CPY_IPV4 packet 4;
     ident \<leftarrow> read16 packet 8;
     pt \<leftarrow> read8 packet 10;
     total_part \<leftarrow> read8 packet 11;
     len \<leftarrow> read16 packet 12;
     mtu \<leftarrow> read16 packet 14;
     Some \<lparr>fh_src = src, fh_dst = dst, fh_id = ident, fh_part = pt, fh_total_part = total_part,
           fh_len = len, fh_pmtu = mtu\<rparr> }"

text \<open>The slot of a running reassembly, a free slot, or the oldest one if it is old enough.\<close>

definition frag_match :: "frag_info \<Rightarrow> lan_client_fragment \<Rightarrow> bool" where
  "frag_match h f \<longleftrightarrow> frag_used f \<and> frag_ident f = fh_id h \<and> frag_src f = fh_src h"

fun oldest :: "int \<Rightarrow> nat \<Rightarrow> lan_client_fragment list \<Rightarrow> int \<times> nat option \<Rightarrow> int \<times> nat option" where
  "oldest lid i [] acc = acc"
| "oldest lid i (f # fs) (max_dif, d) =
     (let dif = \<bar>int (unat (frag_local_id f)) - lid\<bar>
      in oldest lid (i + 1) fs (if frag_used f \<and> dif > max_dif then (dif, Some i) else (max_dif, d)))"

definition start_frag :: "frag_info \<Rightarrow> int \<Rightarrow> lan_client_fragment \<Rightarrow> lan_client_fragment" where
  "start_frag h lid f = f\<lparr>frag_used := True, frag_ident := fh_id h, frag_local_id := word_of_int lid,
     frag_src := fh_src h, frag_part := 0\<rparr>"

definition take_slot :: "frag_info \<Rightarrow> nat \<Rightarrow> lan_client \<Rightarrow> lan_client" where
  "take_slot h i c = c\<lparr>frags := (frags c)[i := start_frag h (local_id c) (frags c ! i)], local_id := local_id c + 1\<rparr>"

definition find_slot :: "frag_info \<Rightarrow> lan_client \<Rightarrow> (nat \<times> lan_client) option" where
  "find_slot h c =
     (case find_index (frag_match h) (frags c) of
        Some i \<Rightarrow> Some (i, c)
      | None \<Rightarrow>
          (case find_index (\<lambda>f. \<not> frag_used f) (frags c) of
             Some i \<Rightarrow> Some (i, take_slot h i c)
           | None \<Rightarrow>
               (case oldest (local_id c) 0 (frags c) (0, None) of
                  (max_dif, Some i) \<Rightarrow> if max_dif > int LC_FRAG_COUNT then Some (i, take_slot h i c) else None
                | _ \<Rightarrow> None)))"

definition store_part :: "frag_info \<Rightarrow> byte list \<Rightarrow> lan_client_fragment \<Rightarrow> lan_client_fragment option" where
  "store_part h packet f =
     (if unat (fh_part h) \<ge> 32 \<or> unat (fh_total_part h) \<ge> 32 then None
      else do {
        body \<leftarrow> read_bytes packet LC_FRAG_HEADER_LEN (unat (fh_len h));
        buffer \<leftarrow> write_bytes (frag_buffer f) (unat (fh_pmtu h) * unat (fh_part h)) body;
        let f = f\<lparr>frag_part := frag_part f OR push_bit (unat (fh_part h)) 1, frag_buffer := buffer\<rparr>;
        Some (if int (unat (fh_part h)) = int (unat (fh_total_part h)) - 1
              then f\<lparr>frag_total_len :=
                     word_of_int ((int (unat (fh_total_part h)) - 1) * int (unat (fh_pmtu h)) + int (unat (fh_len h)))\<rparr>
              else f) })"

definition frag_complete :: "frag_info \<Rightarrow> lan_client_fragment \<Rightarrow> bool" where
  "frag_complete h f \<longleftrightarrow> 2 ^ unat (fh_total_part h) - 1 = unat (frag_part f)"

definition lan_client_process_frag :: "env \<Rightarrow> byte list \<Rightarrow> lan_play \<Rightarrow> (int \<times> lan_play) option" where
  "lan_client_process_frag e packet lp = do {
     h \<leftarrow> read_frag_header packet;
     case find_slot h (client lp) of
       None \<Rightarrow> Some (0, lp)
     | Some (i, c) \<Rightarrow> do {
         f \<leftarrow> store_part h packet (frags c ! i);
         if frag_complete h f
         then lan_client_process e (frag_buffer f) (frag_total_len f)
                (lp\<lparr>client := c\<lparr>frags := (frags c)[i := f\<lparr>frag_used := False\<rparr>]\<rparr>\<rparr>)
         else Some (0, lp\<lparr>client := c\<lparr>frags := (frags c)[i := f]\<rparr>\<rparr>) } }"

section \<open>Login, reception and timers\<close>

definition auth_response :: "byte list \<Rightarrow> byte list \<Rightarrow> byte list \<Rightarrow> byte list \<Rightarrow> byte list option" where
  "auth_response garbage k challenge name =
     do { c \<leftarrow> SHA1Update (take 20 k) (SHA1Init garbage);
          c \<leftarrow> SHA1Update challenge c;
          digest \<leftarrow> SHA1Final c;
          Some (digest @ name) }"

definition lan_client_process_auth_me ::
  "env \<Rightarrow> byte list \<Rightarrow> byte list \<Rightarrow> u16 \<Rightarrow> lan_play \<Rightarrow> lan_play option" where
  "lan_client_process_auth_me e garbage packet len lp =
     (case username (client lp) of
        None \<Rightarrow> Some lp
      | Some name \<Rightarrow> do {
          auth_type \<leftarrow> read8 packet 0;
          if auth_type = 0
          then do {
            challenge \<leftarrow> read_bytes packet 1 (unat (len - 1));
            response \<leftarrow> auth_response garbage (key (client lp)) challenge name;
            (_, lp) \<leftarrow> lan_client_send_auth_me e response ((20 + length name) mod 65536) lp;
            Some lp }
          else Some lp })"

definition lan_client_on_recv :: "env \<Rightarrow> byte list \<Rightarrow> int \<Rightarrow> byte list \<Rightarrow> lan_play \<Rightarrow> lan_play option" where
  "lan_client_on_recv e garbage nread buf lp =
     (if nread \<le> 0 then Some lp
      else do {
        b0 \<leftarrow> read8 buf 0;
        let recv_len = (word_of_int nread :: u16);
        let c = client lp;
        let type = b0 AND 0x7f;
        let lp = lp\<lparr>client := c\<lparr>lc_download_packet := lc_download_packet c + 1,
                   lc_download_byte := lc_download_byte c + ucast recv_len\<rparr>\<rparr>;
        if type = LAN_CLIENT_TYPE_IPV4
        then do { (_, lp) \<leftarrow> lan_client_process e (drop 1 buf) (recv_len - 1) lp; Some lp }
        else if type = LAN_CLIENT_TYPE_IPV4_FRAG
        then do { (_, lp) \<leftarrow> lan_client_process_frag e (drop 1 buf) lp; Some lp }
        else if type = LAN_CLIENT_TYPE_AUTH_ME
        then lan_client_process_auth_me e garbage (drop 1 buf) (recv_len - 1) lp
        else Some lp })"

definition lan_client_real_broadcast_timer :: "lan_play \<Rightarrow> lan_play" where
  "lan_client_real_broadcast_timer lp = lp\<lparr>client := (client lp)\<lparr>next_real_broadcast := True\<rparr>\<rparr>"

definition lan_client_keepalive_timer :: "env \<Rightarrow> lan_play \<Rightarrow> lan_play option" where
  "lan_client_keepalive_timer e lp = do { (_, lp) \<leftarrow> lan_client_send_keepalive e lp; Some lp }"

text \<open>
  \<^verbatim>\<open>lan_client_init\<close> and \<^verbatim>\<open>lan_client_close\<close>; the status of each libuv call that decides the result is an
  argument.  A path MTU below 500 ends the process.
\<close>

datatype client_start = ProcessExit int | ClientStatus int lan_play

abbreviation (input) MIN_FRAG_PAYLOAD_LEN :: int where "MIN_FRAG_PAYLOAD_LEN \<equiv> 500"

definition no_fragment :: lan_client_fragment where
  "no_fragment = \<lparr>frag_local_id = 0, frag_src = NONE_IP, frag_ident = 0, frag_part = 0, frag_used = False,
     frag_total_len = 0, frag_buffer = replicate ETHER_MTU 0\<rparr>"

definition lan_client_init :: "int \<Rightarrow> int \<Rightarrow> int \<Rightarrow> lan_play \<Rightarrow> client_start" where
  "lan_client_init keepalive_rc broadcast_rc recv_rc lp =
     (let c = client lp;
          lp = lp\<lparr>client := c\<lparr>frag_id := 0, local_id := 0, next_real_broadcast := True,
                 frags := replicate LC_FRAG_COUNT no_fragment\<rparr>\<rparr>
      in if pmtu c \<noteq> 0 \<and> pmtu c < MIN_FRAG_PAYLOAD_LEN then ProcessExit 1
         else if keepalive_rc \<noteq> 0 then ClientStatus keepalive_rc lp
         else if broadcast_rc \<noteq> 0 then ClientStatus broadcast_rc lp
         else if recv_rc \<noteq> 0 then ClientStatus recv_rc lp
         else ClientStatus 0 (lp\<lparr>client := (client lp)\<lparr>lc_upload_byte := 0, lc_download_byte := 0,
                lc_upload_packet := 0, lc_download_packet := 0\<rparr>\<rparr>))"

definition lan_client_close :: "int \<Rightarrow> int \<Rightarrow> int \<Rightarrow> int" where
  "lan_client_close recv_stop_rc keepalive_stop_rc broadcast_stop_rc =
     (if recv_stop_rc \<noteq> 0 then recv_stop_rc
      else if keepalive_stop_rc \<noteq> 0 then keepalive_stop_rc
      else if broadcast_stop_rc \<noteq> 0 then broadcast_stop_rc
      else 0)"

section \<open>Fragmentation round trip\<close>

text \<open>The parts of a packet of \<open>len\<close> bytes at the path MTU \<open>n\<close>.\<close>

definition parts :: "nat \<Rightarrow> nat \<Rightarrow> nat" where
  "parts n len = (let t = len div n in if n * t < len then t + 1 else t)"

definition chunk_len :: "nat \<Rightarrow> nat \<Rightarrow> nat \<Rightarrow> nat" where
  "chunk_len n len k = min n (len - n * k)"

lemma parts_bounds:
  assumes "0 < n"
  shows "k < parts n len \<longleftrightarrow> n * k < len"
proof -
  define q where "q = len div n"
  have len: "n * q + len mod n = len" "len mod n < n" using assms by (simp_all add: q_def)
  show ?thesis
  proof (cases "n * q < len")
    case True
    have "n * k < len" if "k \<le> q" using le_less_trans [OF mult_le_mono2 [OF that] True] .
    moreover have "\<not> n * k < len" if "Suc q \<le> k" using mult_le_mono2 [OF that, of n] len unfolding mult_Suc_right by linarith
    moreover have "parts n len = Suc q" using True by (simp add: parts_def q_def)
    ultimately show ?thesis by (cases "k \<le> q") (simp_all add: not_le Suc_le_eq)
  next
    case False
    then have "n * q = len" using len by linarith
    then show ?thesis using assms by (auto simp: parts_def q_def [symmetric])
  qed
qed

lemma chunk_fits: "n * k + chunk_len n len k \<le> len" if "n * k < len"
  using that by (simp add: chunk_len_def)

lemma last_chunk:
  assumes "0 < n" "0 < len"
  shows "0 < parts n len" "(parts n len - 1) * n + chunk_len n len (parts n len - 1) = len"
proof -
  let ?t = "parts n len"
  show pos: "0 < ?t" using parts_bounds [of n 0 len] assms by simp
  have "n * (?t - 1) < len" "\<not> n * ?t < len"
    using parts_bounds [of n "?t - 1" len] parts_bounds [of n ?t len] assms pos by simp_all
  moreover have "n * ?t = n * (?t - 1) + n" using pos by (metis Suc_diff_1 mult_Suc_right add.commute)
  ultimately have "chunk_len n len (?t - 1) = len - n * (?t - 1)" "n * (?t - 1) \<le> len" by (simp_all add: chunk_len_def)
  then show "(?t - 1) * n + chunk_len n len (?t - 1) = len" by (simp add: mult.commute)
qed

lemma position_chunk:
  assumes "0 < n" "p < len"
  shows "p div n < parts n len" "p mod n < chunk_len n len (p div n)"
proof -
  have p: "n * (p div n) + p mod n = p" "p mod n < n" using assms by simp_all
  then have "p mod n < len - n * (p div n)" using assms(2) by linarith
  then show "p mod n < chunk_len n len (p div n)" using p(2) by (simp add: chunk_len_def)
  show "p div n < parts n len" using p assms parts_bounds [of n "p div n" len] by linarith
qed

definition datagram :: "int \<Rightarrow> nat \<Rightarrow> byte list \<Rightarrow> nat \<Rightarrow> nat \<Rightarrow> byte list" where
  "datagram ident n packet len k =
     [LAN_CLIENT_TYPE_IPV4_FRAG] @
     frag_header (ip_at packet 12) (ip_at packet 16) ident k (parts n len) (chunk_len n len k) n @
     window packet (n * k) (chunk_len n len k)"

text \<open>Sending a packet above the path MTU puts exactly its parts on the wire, in order.\<close>

lemma send_parts_sends:
  assumes n: "0 < n" and len: "len \<le> length packet" and rc: "\<forall>i d. server_rc e i d = 0"
    and pos: "pos = n * k" and k: "k \<le> parts n len"
  shows "\<exists>lp'. send_parts e (\<lambda>i pl. frag_header s d ident i t pl n) n packet len k pos lp = Some (0, lp') \<and>
    out lp' = out lp @ map (\<lambda>k. ServerUdp ([LAN_CLIENT_TYPE_IPV4_FRAG] @ frag_header s d ident k t (chunk_len n len k) n @
      window packet (n * k) (chunk_len n len k)) 0) [k..<parts n len]"
  using pos k
proof (induction "parts n len - k" arbitrary: k pos lp)
  case 0
  then show ?case using n parts_bounds [OF n, of k len] by (subst send_parts.simps) simp
next
  case (Suc m)
  have kt: "k < parts n len" "n * k < len" using Suc.hyps(2) parts_bounds [OF n, of k len] by auto
  let ?l = "chunk_len n len k"
  let ?pkt = "[LAN_CLIENT_TYPE_IPV4_FRAG] @ frag_header s d ident k t ?l n @ window packet (n * k) ?l"
  obtain lp1 where 1: "lan_client_send_raw e [[LAN_CLIENT_TYPE_IPV4_FRAG], frag_header s d ident k t ?l n, window packet (n * k) ?l] lp = (0, lp1)"
    "out lp1 = out lp @ [ServerUdp ?pkt 0]" using rc by (simp add: lan_client_send_raw_def Let_def)
  have "read_bytes packet (n * k) ?l = Some (window packet (n * k) ?l)"
    using chunk_fits [OF kt(2)] len by (intro read_bytes_Some) simp
  then have step: "send_parts e (\<lambda>i pl. frag_header s d ident i t pl n) n packet len k pos lp =
      send_parts e (\<lambda>i pl. frag_header s d ident i t pl n) n packet len (k + 1) (pos + ?l) lp1"
    using n kt 1(1) Suc.prems by (subst send_parts.simps) (simp add: chunk_len_def)
  show ?case
  proof (cases "k + 1 = parts n len")
    case True
    then have "\<not> pos + ?l < len"
      using last_chunk(2) [OF n, of len] kt Suc.prems by (metis add_diff_cancel_right' gr_zeroI mult.commute nat_neq_iff not_less_zero)
    then have "send_parts e (\<lambda>i pl. frag_header s d ident i t pl n) n packet len (k + 1) (pos + ?l) lp1 = Some (0, lp1)"
      by (subst send_parts.simps) simp
    then show ?thesis using step 1(2) True kt by (simp add: upt_conv_Cons)
  next
    case False
    then have "n * (k + 1) < len" using kt parts_bounds [OF n, of "k + 1" len] by simp
    then have "pos + ?l = n * (k + 1)" using Suc.prems by (simp add: chunk_len_def)
    then show ?thesis
      using Suc.hyps(1) [of "k + 1" "pos + ?l" lp1] Suc.hyps(2) kt step 1(2) by (auto simp: upt_conv_Cons [of k])
  qed
qed

text \<open>Path MTUs, lengths and part counts for which a packet can be reassembled: the mask of received
  parts has eight bits.\<close>

definition frag_sizes :: "nat \<Rightarrow> nat \<Rightarrow> byte list \<Rightarrow> bool" where
  "frag_sizes n len packet \<longleftrightarrow> 0 < n \<and> n < 65536 \<and> 20 \<le> len \<and> len \<le> 1500 \<and> len \<le> length packet \<and> parts n len \<le> 8"

definition part_info :: "int \<Rightarrow> nat \<Rightarrow> byte list \<Rightarrow> nat \<Rightarrow> nat \<Rightarrow> frag_info" where
  "part_info ident n packet len k = \<lparr>fh_src = ip_at packet 12, fh_dst = ip_at packet 16, fh_id = word_of_int ident,
     fh_part = word_of_nat k, fh_total_part = word_of_nat (parts n len),
     fh_len = word_of_nat (chunk_len n len k), fh_pmtu = word_of_nat n\<rparr>"

lemma length_frag_header [simp]: "length (frag_header s d ident k t l n) = 16"
  by (simp add: frag_header_def)

lemma read_part:
  "read_frag_header (drop 1 (datagram ident n packet len k) @ stale) = Some (part_info ident n packet len k)"
proof -
  obtain a b c d where s: "ip_at packet 12 = IP4 a b c d" by (cases "ip_at packet 12")
  obtain a' b' c' d' where t: "ip_at packet 16 = IP4 a' b' c' d'" by (cases "ip_at packet 16")
  show ?thesis
    by (simp add: datagram_def frag_header_def s t read_frag_header_def part_info_def checked_access net16_def ip_at_def)
qed

lemma read_part_body:
  assumes "n * k + chunk_len n len k \<le> length packet"
  shows "read_bytes (drop 1 (datagram ident n packet len k) @ stale) 16 (chunk_len n len k) =
    Some (window packet (n * k) (chunk_len n len k))"
  using assms by (simp add: datagram_def read_bytes_Some) (simp add: window_def)

definition slot_holds :: "nat \<Rightarrow> byte list \<Rightarrow> nat \<Rightarrow> nat set \<Rightarrow> lan_client_fragment \<Rightarrow> bool" where
  "slot_holds n packet len S f \<longleftrightarrow> length (frag_buffer f) = 1500 \<and> (\<forall>j < 8. bit (frag_part f) j \<longleftrightarrow> j \<in> S) \<and>
     (\<forall>k \<in> S. window (frag_buffer f) (n * k) (chunk_len n len k) = window packet (n * k) (chunk_len n len k)) \<and>
     (parts n len - 1 \<in> S \<longrightarrow> frag_total_len f = word_of_nat len)"

lemma chunks_disjoint:
  assumes "j \<noteq> k"
  shows "n * j + chunk_len n len j \<le> n * k \<or> n * k + chunk_len n len k \<le> n * j"
proof -
  have c: "n * i + chunk_len n len i \<le> n * Suc i" for i by (simp add: chunk_len_def)
  have "n * Suc j \<le> n * k \<or> n * Suc k \<le> n * j" using assms mult_le_mono2 [of "Suc j" k n] mult_le_mono2 [of "Suc k" j n] by linarith
  then show ?thesis using c [of j] c [of k] by linarith
qed

lemma unat_mask_8: "t \<le> 8 \<Longrightarrow> unat (mask t :: byte) = 2 ^ t - 1"
proof -
  assume "t \<le> 8"
  then have "mask t < (256 :: nat)" using power_increasing [of t 8 "2 :: nat"] by (simp add: mask_eq_exp_minus_1)
  then have "unat (of_nat (mask t) :: byte) = mask t" by (simp add: unat_of_nat)
  then have "unat (mask t :: byte) = mask t" unfolding of_nat_mask_eq .
  then show ?thesis by (simp only: mask_eq_exp_minus_1 [where 'a = nat])
qed

lemma mask_complete:
  assumes w: "\<forall>j < 8. bit (w :: byte) j \<longleftrightarrow> j \<in> S" and S: "S \<subseteq> {..<t}" and t: "t \<le> 8"
  shows "2 ^ t - 1 = unat w \<longleftrightarrow> S = {..<t}"
proof
  assume "2 ^ t - 1 = unat w"
  then have "w = mask t" using unat_mask_8 [OF t] by (simp only: word_unat_eq_iff)
  then have "\<forall>j < 8. j < t \<longleftrightarrow> j \<in> S" using w by (simp add: bit_mask_iff)
  then show "S = {..<t}" using S t by (metis lessThan_iff less_le_trans subsetD subsetI subset_antisym)
next
  assume "S = {..<t}"
  then have "w = mask t" using w by (intro bit_word_eqI) (simp add: bit_mask_iff)
  then show "2 ^ t - 1 = unat w" using unat_mask_8 [OF t] by simp
qed

lemma store_part_step:
  assumes sizes: "frag_sizes n len packet" and k: "k < parts n len" and S: "S \<subseteq> {..<parts n len}"
    and f: "slot_holds n packet len S f"
  shows "\<exists>f'. store_part (part_info ident n packet len k) (drop 1 (datagram ident n packet len k) @ stale) f = Some f' \<and>
    slot_holds n packet len (insert k S) f' \<and> frag_used f' = frag_used f \<and> frag_ident f' = frag_ident f \<and>
    frag_src f' = frag_src f \<and> (frag_complete (part_info ident n packet len k) f' \<longleftrightarrow> insert k S = {..<parts n len})"
proof -
  let ?t = "parts n len" and ?l = "chunk_len n len k" and ?h = "part_info ident n packet len k"
  have sz: "0 < n" "n < 65536" "20 \<le> len" "len \<le> 1500" "len \<le> length packet" "?t \<le> 8" using sizes by (simp_all add: frag_sizes_def)
  have nk: "n * k < len" using k parts_bounds [OF sz(1)] by blast
  note fits = chunk_fits [OF nk]
  have l: "?l \<le> 1500" using fits sz by linarith
  have h: "unat (fh_part ?h) = k" "unat (fh_total_part ?h) = ?t" "unat (fh_len ?h) = ?l" "unat (fh_pmtu ?h) = n"
    using k sz l by (simp_all add: part_info_def unat_of_nat_8 unat_of_nat_16)
  define b where "b = patch (frag_buffer f) (n * k) (window packet (n * k) ?l)"
  have buf: "length (frag_buffer f) = 1500" using f by (simp add: slot_holds_def)
  have w: "write_bytes (frag_buffer f) (n * k) (window packet (n * k) ?l) = Some b"
    unfolding b_def using fits sz buf by (intro write_bytes_Some) simp
  define f1 where "f1 = f\<lparr>frag_part := frag_part f OR push_bit k 1, frag_buffer := b\<rparr>"
  define tl16 where "tl16 = (word_of_int ((int ?t - 1) * int n + int ?l) :: u16)"
  define f' where "f' = (if k = ?t - 1 then f1\<lparr>frag_total_len := tl16\<rparr> else f1)"
  have t1: "int (?t - 1) = int ?t - 1" using k by simp
  have cond: "int k = int ?t - 1 \<longleftrightarrow> k = ?t - 1" using k by linarith
  have last: "tl16 = word_of_nat len" if "k = ?t - 1"
  proof -
    have "(int ?t - 1) * int n + int ?l = int len"
      using last_chunk(2) [of n len] sz that unfolding t1 [symmetric] by (simp flip: of_nat_mult of_nat_add)
    then show ?thesis unfolding tl16_def by (simp only: of_int_of_nat_eq)
  qed
  have st: "store_part ?h (drop 1 (datagram ident n packet len k) @ stale) f = Some f'"
    using k sz fits read_part_body [of n k len packet ident stale] w
    unfolding store_part_def h cond tl16_def [symmetric] by (simp add: Let_def f'_def f1_def)
  have buf': "frag_buffer f' = b" "frag_part f' = frag_part f OR push_bit k 1" "length b = 1500"
    using fits sz buf by (simp_all add: f'_def f1_def b_def)
  have win: "window b (n * j) (chunk_len n len j) = window packet (n * j) (chunk_len n len j)" if "j \<in> insert k S" for j
  proof (cases "j = k")
    case True
    then show ?thesis using fits sz buf by (simp add: b_def)
  next
    case False
    then show ?thesis using that f fits sz buf chunks_disjoint [of k j n len]
      by (auto simp: b_def slot_holds_def window_patch_disjoint)
  qed
  have bits: "\<forall>j < 8. bit (frag_part f') j \<longleftrightarrow> j \<in> insert k S"
    using f unfolding buf' slot_holds_def by (auto simp: bit_simps)
  have comp: "frag_complete ?h f' \<longleftrightarrow> insert k S = {..<?t}"
    using mask_complete [OF bits] S k sz by (auto simp: frag_complete_def h)
  have "frag_total_len f' = word_of_nat len" if "?t - 1 \<in> insert k S"
    using f that last by (auto simp: slot_holds_def f'_def f1_def)
  then have holds: "slot_holds n packet len (insert k S) f'"
    using win bits buf' unfolding slot_holds_def by blast
  have same: "frag_used f' = frag_used f" "frag_ident f' = frag_ident f" "frag_src f' = frag_src f"
    by (simp_all add: f'_def f1_def)
  show ?thesis by (intro exI conjI) (rule st holds same comp)+
qed

text \<open>One slot, and only this one, collects the parts \<open>S\<close> of the packet.\<close>

definition collecting :: "int \<Rightarrow> nat \<Rightarrow> byte list \<Rightarrow> nat \<Rightarrow> nat set \<Rightarrow> nat \<Rightarrow> lan_client \<Rightarrow> bool" where
  "collecting ident n packet len S i c \<longleftrightarrow> i < length (frags c) \<and> slot_holds n packet len S (frags c ! i) \<and>
     (\<forall>j < length (frags c). frag_match (part_info ident n packet len 0) (frags c ! j) \<longleftrightarrow> j = i)"

lemma frag_match_part: "frag_match (part_info ident n packet len k) = frag_match (part_info ident n packet len 0)"
  by (intro ext) (simp add: frag_match_def part_info_def)

lemma find_index_unique:
  assumes "i < length xs" "\<forall>j < length xs. P (xs ! j) \<longleftrightarrow> j = i"
  shows "find_index P xs = Some i"
proof (cases "find_index P xs")
  case None
  then show ?thesis using assms by (metis find_index_None nth_mem)
next
  case (Some j)
  then show ?thesis using find_index_Some [OF Some] assms(2) by blast
qed

lemma find_slot_running:
  "collecting ident n packet len S i c \<Longrightarrow> find_slot (part_info ident n packet len k) c = Some (i, c)"
  using find_index_unique [of i "frags c" "frag_match (part_info ident n packet len k)"]
  by (simp add: collecting_def find_slot_def frag_match_part [of ident n packet len k])

lemma covered_buffer:
  assumes sizes: "frag_sizes n len packet" and f: "slot_holds n packet len {..<parts n len} f"
  shows "take len (frag_buffer f) = take len packet"
proof (rule nth_equalityI)
  have sz: "0 < n" "len \<le> 1500" "len \<le> length packet" "length (frag_buffer f) = 1500"
    using sizes f by (simp_all add: frag_sizes_def slot_holds_def)
  then show "length (take len (frag_buffer f)) = length (take len packet)" by simp
  fix p assume "p < length (take len (frag_buffer f))"
  then have p: "p < len" by simp
  let ?k = "p div n" and ?r = "p mod n"
  note pc = position_chunk [OF sz(1) p]
  have "window (frag_buffer f) (n * ?k) (chunk_len n len ?k) ! ?r = window packet (n * ?k) (chunk_len n len ?k) ! ?r"
    using f pc(1) by (simp add: slot_holds_def)
  moreover have "n * ?k + ?r = p" by simp
  ultimately have "frag_buffer f ! p = packet ! p" using pc(2) p sz by (simp add: window_def)
  then show "take len (frag_buffer f) ! p = take len packet ! p" using p by simp
qed

text \<open>One received part: it is kept, and the last one hands the whole packet on.\<close>

lemma process_part:
  assumes sizes: "frag_sizes n len packet" and k: "k < parts n len" and S: "S \<subseteq> {..<parts n len}"
    and slot: "find_slot (part_info ident n packet len k) (client lp) = Some (i, c)" and c: "collecting ident n packet len S i c"
  shows "if insert k S = {..<parts n len}
    then \<exists>buf c'. lan_client_process_frag e (drop 1 (datagram ident n packet len k) @ stale) lp =
           lan_client_process e buf (word_of_nat len) (lp\<lparr>client := c'\<rparr>) \<and> length buf = 1500 \<and> take len buf = take len packet
    else \<exists>c'. lan_client_process_frag e (drop 1 (datagram ident n packet len k) @ stale) lp = Some (0, lp\<lparr>client := c'\<rparr>) \<and>
           collecting ident n packet len (insert k S) i c'"
proof -
  have i: "i < length (frags c)" "slot_holds n packet len S (frags c ! i)" using c by (simp_all add: collecting_def)
  obtain f where st: "store_part (part_info ident n packet len k) (drop 1 (datagram ident n packet len k) @ stale) (frags c ! i) = Some f"
    and f: "slot_holds n packet len (insert k S) f"
    and same: "frag_used f = frag_used (frags c ! i)" "frag_ident f = frag_ident (frags c ! i)" "frag_src f = frag_src (frags c ! i)"
    and comp: "frag_complete (part_info ident n packet len k) f \<longleftrightarrow> insert k S = {..<parts n len}"
    using store_part_step [OF sizes k S i(2)] by blast
  have ev: "lan_client_process_frag e (drop 1 (datagram ident n packet len k) @ stale) lp =
      (if insert k S = {..<parts n len}
       then lan_client_process e (frag_buffer f) (frag_total_len f)
              (lp\<lparr>client := c\<lparr>frags := (frags c)[i := f\<lparr>frag_used := False\<rparr>]\<rparr>\<rparr>)
       else Some (0, lp\<lparr>client := c\<lparr>frags := (frags c)[i := f]\<rparr>\<rparr>))"
    unfolding lan_client_process_frag_def read_part using slot st comp by simp
  show ?thesis
  proof (cases "insert k S = {..<parts n len}")
    case True
    have sz: "0 < n" "0 < len" using sizes by (simp_all add: frag_sizes_def)
    then have "parts n len - 1 \<in> insert k S" using True last_chunk(1) [OF sz] by simp
    then have "frag_total_len f = word_of_nat len" "length (frag_buffer f) = 1500" using f by (simp_all add: slot_holds_def)
    then show ?thesis using True ev covered_buffer [OF sizes f [unfolded True]] by auto
  next
    case False
    have m: "frag_match h f = frag_match h (frags c ! i)" for h using same by (simp add: frag_match_def)
    have "collecting ident n packet len (insert k S) i (c\<lparr>frags := (frags c)[i := f]\<rparr>)"
      using c f m by (auto simp: collecting_def nth_list_update)
    then show ?thesis using False ev by auto
  qed
qed

text \<open>A sequence of received fragments; the result is that of the last one.\<close>

fun receive_frags :: "env \<Rightarrow> byte list list \<Rightarrow> lan_play \<Rightarrow> (int \<times> lan_play) option" where
  "receive_frags e [] lp = Some (0, lp)"
| "receive_frags e (p # ps) lp = do {
     (r, lp) \<leftarrow> lan_client_process_frag e p lp;
     if ps = [] then Some (r, lp) else receive_frags e ps lp }"

definition part_packet :: "int \<Rightarrow> nat \<Rightarrow> byte list \<Rightarrow> nat \<Rightarrow> nat \<times> byte list \<Rightarrow> byte list" where
  "part_packet ident n packet len ks = drop 1 (datagram ident n packet len (fst ks)) @ snd ks"

lemma receive_running:
  assumes sizes: "frag_sizes n len packet" and "ks \<noteq> []" "distinct (map fst ks)" "S \<subseteq> {..<parts n len}"
    and "fst ` set ks = {..<parts n len} - S"
    and "find_slot (part_info ident n packet len (fst (hd ks))) (client lp) = Some (i, c)" "collecting ident n packet len S i c"
  shows "\<exists>buf c'. receive_frags e (map (part_packet ident n packet len) ks) lp =
           lan_client_process e buf (word_of_nat len) (lp\<lparr>client := c'\<rparr>) \<and> length buf = 1500 \<and> take len buf = take len packet"
  using assms(2-)
proof (induction ks arbitrary: S lp c)
  case (Cons x ks)
  obtain k stale where x: "x = (k, stale)" by (cases x)
  have k: "k < parts n len" "k \<notin> S" using Cons.prems(4) x by auto
  note slot = Cons.prems(5) [unfolded x list.sel fst_conv]
  note step = process_part [OF sizes k(1) Cons.prems(3) slot Cons.prems(6), of e stale]
  have rest: "fst ` set ks = {..<parts n len} - insert k S" using Cons.prems(2,4) x by auto
  show ?case
  proof (cases "ks = []")
    case True
    then have full: "insert k S = {..<parts n len}" using rest k Cons.prems(3) by auto
    obtain buf c' where "lan_client_process_frag e (drop 1 (datagram ident n packet len k) @ stale) lp =
        lan_client_process e buf (word_of_nat len) (lp\<lparr>client := c'\<rparr>)" "length buf = 1500" "take len buf = take len packet"
      using step full by auto
    moreover have "receive_frags e (map (part_packet ident n packet len) (x # ks)) lp =
        lan_client_process_frag e (drop 1 (datagram ident n packet len k) @ stale) lp"
      by (cases "lan_client_process_frag e (drop 1 (datagram ident n packet len k) @ stale) lp")
        (auto simp: True x part_packet_def)
    ultimately show ?thesis by metis
  next
    case False
    then have "insert k S \<noteq> {..<parts n len}" using rest by force
    then obtain c' where c': "lan_client_process_frag e (drop 1 (datagram ident n packet len k) @ stale) lp = Some (0, lp\<lparr>client := c'\<rparr>)"
      "collecting ident n packet len (insert k S) i c'" using step by auto
    have "\<exists>buf c''. receive_frags e (map (part_packet ident n packet len) ks) (lp\<lparr>client := c'\<rparr>) =
        lan_client_process e buf (word_of_nat len) (lp\<lparr>client := c'\<rparr>\<lparr>client := c''\<rparr>) \<and> length buf = 1500 \<and> take len buf = take len packet"
      using Cons.prems(2,3) k(1) rest False c'(2) find_slot_running [OF c'(2)] by (intro Cons.IH) (simp_all add: x)
    moreover have "receive_frags e (map (part_packet ident n packet len) (x # ks)) lp =
        receive_frags e (map (part_packet ident n packet len) ks) (lp\<lparr>client := c'\<rparr>)"
      using c'(1) False by (simp add: x part_packet_def)
    ultimately show ?thesis by auto
  qed
qed simp

text \<open>A client with a free slot and no reassembly of the same packet starts one.\<close>

definition can_start :: "int \<Rightarrow> byte list \<Rightarrow> lan_client \<Rightarrow> bool" where
  "can_start ident packet c \<longleftrightarrow> (\<exists>f \<in> set (frags c). \<not> frag_used f) \<and>
     (\<forall>f \<in> set (frags c). length (frag_buffer f) = 1500 \<and>
        \<not> (frag_used f \<and> frag_ident f = word_of_int ident \<and> frag_src f = ip_at packet 12))"

lemma find_slot_fresh:
  assumes "can_start ident packet c"
  shows "\<exists>i c'. find_slot (part_info ident n packet len k) c = Some (i, c') \<and> collecting ident n packet len {} i c'"
proof -
  let ?h = "part_info ident n packet len k"
  have none: "find_index (frag_match ?h) (frags c) = None"
    using assms by (auto simp: find_index_None can_start_def frag_match_def part_info_def)
  obtain i where i: "find_index (\<lambda>f. \<not> frag_used f) (frags c) = Some i"
    using assms find_index_None [of "\<lambda>f. \<not> frag_used f" "frags c"] by (cases "find_index (\<lambda>f. \<not> frag_used f) (frags c)") (auto simp: can_start_def)
  note fi = find_index_Some [OF i]
  have "collecting ident n packet len {} i (take_slot ?h i c)"
    using fi assms nth_mem
    by (auto simp: collecting_def take_slot_def start_frag_def slot_holds_def can_start_def frag_match_def part_info_def nth_list_update)
  then show ?thesis using none i by (simp add: find_slot_def)
qed

lemma reassemble:
  assumes sizes: "frag_sizes n len packet" and start: "can_start ident packet (client lp)"
    and ks: "distinct (map fst ks)" "fst ` set ks = {..<parts n len}"
  shows "\<exists>buf c'. receive_frags e (map (part_packet ident n packet len) ks) lp =
           lan_client_process e buf (word_of_nat len) (lp\<lparr>client := c'\<rparr>) \<and> length buf = 1500 \<and> take len buf = take len packet"
proof -
  have "0 < n" "0 < len" using sizes by (simp_all add: frag_sizes_def)
  then have "0 \<in> fst ` set ks" using ks(2) last_chunk(1) by simp
  then have "ks \<noteq> []" by auto
  moreover obtain i c where "find_slot (part_info ident n packet len (fst (hd ks))) (client lp) = Some (i, c)" "collecting ident n packet len {} i c"
    using find_slot_fresh [OF start] by blast
  ultimately show ?thesis using receive_running [OF sizes, of ks "{}" ident lp i c e] ks by simp
qed

section \<open>The login\<close>

lemma auth_response_std:
  assumes "length garbage = 64" "length challenge \<le> 2 ^ 32 - 64"
  shows "auth_response garbage k challenge name = Some (std_sha1 (take 20 k @ challenge) @ name)"
  using feed_std [of garbage "[take 20 k, challenge]"] assms by (simp add: auth_response_def bind_eq_Some_conv)

end
