(* ===== verification/Forwarding.thy ===== *)
theory Forwarding
  imports Relay_Safety
begin

text \<open>
  What the two capture handlers put on the wire for a packet they relay: the frames on the overlay for
  a packet of the console, the frame on the Wi-Fi for a packet of a peer, and both handlers one after
  the other on two relays.
\<close>

section \<open>The frames of a delivery\<close>

text \<open>\<open>delivers s fs lp lp'\<close>: the outputs of \<open>lp'\<close> are those of \<open>lp\<close> and then the frames \<open>fs\<close> on side \<open>s\<close>.\<close>

fun delivers :: "side \<Rightarrow> byte list list \<Rightarrow> lan_play \<Rightarrow> lan_play \<Rightarrow> bool" where
  "delivers s fs lp lp' \<longleftrightarrow>
     (\<exists>rs. length rs = length fs \<and> out lp' = out lp @ map (\<lambda>(f, r). Tx s 0 f r) (zip fs rs))"

declare delivers.simps [simp del]

text \<open>
  A broadcast is one broadcast frame, a packet for a known peer one frame to its address; for an
  unknown peer an ARP request precedes the packet, which is then broadcast.
\<close>

definition overlay_frames :: "env \<Rightarrow> lan_play \<Rightarrow> ip4 \<Rightarrow> byte list \<Rightarrow> byte list list" where
  "overlay_frames e lp d q =
     (let pack = (\<lambda>m. ether_bytes m (zerotier_mac lp) ETHER_TYPE_IPV4 q)
      in if d = zerotier_broadcast_ip lp then [pack BROADCAST_MAC]
         else case neighbor_get_mac e d lp of
           Some m \<Rightarrow> [pack m]
         | None \<Rightarrow> [ether_bytes BROADCAST_MAC (zerotier_mac lp) ETHER_TYPE_ARP
                      (arp_body ARP_OPCODE_REQUEST (zerotier_mac lp) (zerotier_ip lp) NONE_MAC d),
                    pack BROADCAST_MAC])"

lemma delivers_one: "out lp' = out lp @ [Tx s 0 f r] \<Longrightarrow> delivers s [f] lp lp'"
  by (auto simp: delivers.simps intro!: exI [of _ "[r]"])

lemma delivers_two: "out lp' = out lp @ [Tx s 0 f r, Tx s 0 g r'] \<Longrightarrow> delivers s [f, g] lp lp'"
  by (auto simp: delivers.simps intro!: exI [of _ "[r, r']"])

lemma delivers_out: "out a = out a' \<Longrightarrow> out b = out b' \<Longrightarrow> delivers s fs a b = delivers s fs a' b'"
  by (simp add: delivers.simps)

lemma send_overlay:
  assumes io: "io_ok lp" and t: "20 \<le> t" "t \<le> 1500" "length q = t"
  shows "\<exists>r lp'. (if d = zerotier_broadcast_ip lp then lan_play_send_zerotier_ipv4_broadcast e q t lp
      else lan_play_send_zerotier_ipv4 e d q t lp) = Some (r, lp') \<and> delivers ZeroTier (overlay_frames e lp d q) lp lp'"
proof -
  consider "d = zerotier_broadcast_ip lp" | m where "d \<noteq> zerotier_broadcast_ip lp" "neighbor_get_mac e d lp = Some m"
    | "d \<noteq> zerotier_broadcast_ip lp" "neighbor_get_mac e d lp = None" by blast
  then show ?thesis
  proof cases
    case 1
    then show ?thesis using send_zerotier_broadcast_sent [OF io t(1,2), of q e] t(3)
      by (auto simp: overlay_frames_def sent_def intro: delivers_one)
  next
    case 2
    then show ?thesis using send_zerotier_ipv4_known [OF io t(1,2) _ 2(2), of q] t(3)
      by (auto simp: overlay_frames_def sent_def intro: delivers_one)
  next
    case 3
    then show ?thesis using send_zerotier_ipv4_unknown [OF io t(1,2) _ 3(2), of q] t(3)
      by (auto simp: overlay_frames_def sent_def intro: delivers_two)
  qed
qed

section \<open>From the console to the overlay\<close>

text \<open>A packet the console may send over the overlay: \<open>t\<close> is its IPv4 length.\<close>

definition wifi_forwardable :: "env \<Rightarrow> byte list \<Rightarrow> lan_play \<Rightarrow> bool" where
  "wifi_forwardable e frame lp \<longleftrightarrow>
     (let ip = drop 14 frame; t = unat (be16 (ip ! 2) (ip ! 3))
      in length frame < 65536 \<and> wifi_relayable frame lp \<and> ipv4_valid (take t ip) t \<and>
         \<not> port_unreachable ip t \<and> wifi_port_ok e frame lp)"

definition ip_packet :: "byte list \<Rightarrow> byte list" where
  "ip_packet frame = take (unat (be16 (drop 14 frame ! 2) (drop 14 frame ! 3))) (drop 14 frame)"

lemma overlay_frames_cong:
  assumes "zerotier_mac a = zerotier_mac b" "zerotier_ip a = zerotier_ip b"
    "zerotier_broadcast_ip a = zerotier_broadcast_ip b" "zerotier_neighbors a = zerotier_neighbors b"
  shows "overlay_frames e a d q = overlay_frames e b d q"
  using assms by (simp only: overlay_frames_def neighbor_get_mac_def)

lemma overlay_frames_state [simp]: "overlay_frames e (wifi_relay_state e f lp) d q = overlay_frames e lp d q"
  by (rule overlay_frames_cong) (simp_all add: wifi_relay_state_def Let_def)

lemma relay_wifi_delivers:
  assumes ok: "relay_ok lp" and fw: "wifi_forwardable e frame lp"
    and d: "d = overlay_dst lp (ip_at (drop 14 frame) 16)"
  shows "\<exists>q lp'. lan_play_relay_wifi_ipv4 e frame lp = Some (True, lp') \<and>
    translated_ok (ip_packet frame) (zerotier_ip lp) d q \<and> delivers ZeroTier (overlay_frames e lp d q) lp lp'"
proof -
  define ip where "ip = drop 14 frame"
  define t where "t = unat (be16 (ip ! 2) (ip ! 3))"
  have fw': "length frame < 65536" "wifi_relayable frame lp" "ipv4_valid (take t ip) t" "\<not> port_unreachable ip t"
    "wifi_port_ok e frame lp" using fw by (simp_all add: wifi_forwardable_def Let_def ip_def t_def)
  obtain q where q: "translated_ok (take t ip) (zerotier_ip lp) d q" "length q = t" "20 \<le> t" "t \<le> 1500"
    and ev: "lan_play_relay_wifi_ipv4 e frame lp = do {
      (_, lp) \<leftarrow> (if d = zerotier_broadcast_ip lp
                then lan_play_send_zerotier_ipv4_broadcast e q t (wifi_relay_state e frame lp)
                else lan_play_send_zerotier_ipv4 e d q t (wifi_relay_state e frame lp));
      Some (True, lp) }"
    using relay_wifi_eval' [OF fw' ip_def t_def d [folded ip_def]] by blast
  let ?s = "wifi_relay_state e frame lp"
  have "relay_ok ?s" by (rule progress_ok [OF wifi_relay_state_advance [OF ok]])
  then have io: "io_ok ?s" by (simp add: relay_ok_def)
  have bc: "zerotier_broadcast_ip ?s = zerotier_broadcast_ip lp" by (simp add: wifi_relay_state_def Let_def)
  obtain r lp' where s: "(if d = zerotier_broadcast_ip lp then lan_play_send_zerotier_ipv4_broadcast e q t ?s
      else lan_play_send_zerotier_ipv4 e d q t ?s) = Some (r, lp')" "delivers ZeroTier (overlay_frames e lp d q) ?s lp'"
    using send_overlay [OF io q(3,4,2), of d e] by (auto simp: bc)
  have "lan_play_relay_wifi_ipv4 e frame lp = Some (True, lp')" using ev s(1) by simp
  moreover have "ip_packet frame = take t ip" by (simp add: ip_packet_def ip_def t_def)
  moreover have "delivers ZeroTier (overlay_frames e lp d q) lp lp'" using s(2) delivers_out [of ?s lp] by simp
  ultimately show ?thesis using q(1) by auto
qed

text \<open>The part of the state that decides what is forwarded, and the outputs.\<close>

definition view :: "lan_play \<Rightarrow> _" where
  "view lp = ((switch_seen lp, switch_ip lp, switch_mac lp), (zerotier_mac lp, zerotier_ip lp, zerotier_netmask lp,
     zerotier_broadcast_ip lp, zerotier_neighbors lp), udp_guard lp, out lp)"

lemma view_cong:
  assumes "view a = view b"
  shows "wifi_forwardable e f a = wifi_forwardable e f b" "overlay_frames e a d q = overlay_frames e b d q"
    "overlay_dst a x = overlay_dst b x" "delivers s fs a c = delivers s fs b c" "zerotier_ip a = zerotier_ip b"
    "zerotier_relayable f a = zerotier_relayable f b" "wifi_relayable f a = wifi_relayable f b" "out a = out b"
proof -
  have v: "switch_seen a = switch_seen b" "switch_ip a = switch_ip b" "zerotier_mac a = zerotier_mac b"
    "zerotier_ip a = zerotier_ip b" "zerotier_netmask a = zerotier_netmask b"
    "zerotier_broadcast_ip a = zerotier_broadcast_ip b" "zerotier_neighbors a = zerotier_neighbors b"
    "udp_guard a = udp_guard b" "out a = out b" using assms by (simp_all add: view_def)
  show "wifi_forwardable e f a = wifi_forwardable e f b"
    using v by (simp add: wifi_forwardable_def wifi_relayable_def overlay_target_def is_zerotier_destination_def
        wifi_port_ok_def reserve_result_def)
  show "zerotier_relayable f a = zerotier_relayable f b" using v by (simp add: zerotier_relayable_def)
  show "overlay_frames e a d q = overlay_frames e b d q" using v by (intro overlay_frames_cong)
  show "wifi_relayable f a = wifi_relayable f b"
    using v by (simp add: wifi_relayable_def overlay_target_def is_zerotier_destination_def)
  show "out a = out b" by (rule v(9))
  show "overlay_dst a x = overlay_dst b x" "delivers s fs a c = delivers s fs b c" "zerotier_ip a = zerotier_ip b"
    using v by (simp_all add: overlay_dst_def delivers.simps)
qed

text \<open>A frame that comes from the console: the confirmed addresses, and nothing the relay consumes itself.\<close>

definition console_frame :: "env \<Rightarrow> byte list \<Rightarrow> lan_play \<Rightarrow> bool" where
  "console_frame e f lp \<longleftrightarrow>
     mac_at f 6 = switch_mac lp \<and> mac_at f 6 \<noteq> wifi_mac lp \<and> mac_at f 6 \<noteq> NONE_MAC \<and> f ! 6 AND 1 = 0 \<and>
     be16 (f ! 12) (f ! 13) = ETHER_TYPE_IPV4 \<and> ip_version (f ! 14) = 4 \<and>
     (dhcp_server (options e) \<longrightarrow> dhcp_parse f = Some None) \<and>
     (wifi_delivery_probe_sent lp \<longrightarrow> ip_at (drop 14 f) 16 \<noteq> probe_source lp)"

text \<open>The header fields that make the frame a claim of the known console.\<close>

definition console_header :: "byte list \<Rightarrow> lan_play \<Rightarrow> bool" where
  "console_header f lp \<longleftrightarrow> 34 \<le> length f \<and> switch_seen lp \<and> ip_at (drop 14 f) 12 = switch_ip lp \<and>
     20 \<le> header_len (f ! 14) \<and> header_len (f ! 14) \<le> unat (be16 (f ! 16) (f ! 17)) \<and>
     14 + unat (be16 (f ! 16) (f ! 17)) \<le> length f"

lemma forwardable_header: "wifi_forwardable e f lp \<Longrightarrow> console_header f lp"
  by (auto simp: wifi_forwardable_def wifi_relayable_def ipv4_valid_def console_header_def Let_def)

lemma consume_skips:
  assumes "wifi_delivery_probe_sent lp \<longrightarrow> ip_at (drop 14 f) 16 \<noteq> probe_source lp" "34 \<le> length f"
  shows "consume_wifi_delivery_reply f lp = Some (False, lp)"
proof -
  have "drop 14 f \<noteq> []" using assms(2) by simp
  then show ?thesis using assms by (auto simp: consume_wifi_delivery_reply_def checked_access Let_def)
qed

lemma dhcp_skips:
  "dhcp_server (options e) \<longrightarrow> dhcp_parse f = Some None \<Longrightarrow> dhcp_server_consume e f lp = Some (False, lp)"
  by (auto simp: dhcp_server_consume_def)

text \<open>The known console is recognised; only the confirmation of its address can change.\<close>

lemma learn_known:
  assumes hd: "console_header f lp" and cok: "console_ok lp"
    and src: "mac_at f 6 = switch_mac lp" "mac_at f 6 \<noteq> NONE_MAC" "f ! 6 AND 1 = 0"
    and ty: "be16 (f ! 12) (f ! 13) = ETHER_TYPE_IPV4" "ip_version (f ! 14) = 4"
  shows "\<exists>c. learn_local_switch e f lp = Some (True, lp\<lparr>switch_mac_confirmed := c\<rparr>)"
proof -
  have h: "34 \<le> length f" "switch_seen lp" "ip_at (drop 14 f) 12 = switch_ip lp" "20 \<le> header_len (f ! 14)"
    "header_len (f ! 14) \<le> unat (be16 (f ! 16) (f ! 17))" "14 + unat (be16 (f ! 16) (f ! 17)) \<le> length f"
    using hd by (simp_all add: console_header_def)
  have ne: "drop 14 f \<noteq> []" "f \<noteq> []" using h(1) by auto
  have "\<exists>d. switch_claim f lp = Some (Some (switch_ip lp, d))"
    using h src(2,3) ty ne by (simp add: switch_claim_def checked_access Let_def)
  then obtain d where c: "switch_claim f lp = Some (Some (switch_ip lp, d))" by blast
  have a: "console_address lp (switch_ip lp) (mac_at f 6)" using cok h(2) src(1) by (simp add: console_ok_def)
  let ?lp' = "lp\<lparr>switch_ip := switch_ip lp, switch_mac := mac_at f 6, switch_seen := True,
    switch_mac_confirmed := switch_mac_confirmed lp \<or> d\<rparr>"
  have "learn_local_switch e f lp = Some (True, ?lp')"
    using c a h(1,2) src(1) unfolding learn_local_switch_def by (simp add: CPY_MAC_Some)
  moreover have "?lp' = lp\<lparr>switch_mac_confirmed := switch_mac_confirmed lp \<or> d\<rparr>"
    using h(2) src(1) by (cases lp) simp
  ultimately have "learn_local_switch e f lp = Some (True, lp\<lparr>switch_mac_confirmed := switch_mac_confirmed lp \<or> d\<rparr>)"
    by (simp only:)
  then show ?thesis by (rule exI)
qed

text \<open>A frame of the console reaches the relay function in a state with the same \<open>view\<close>.\<close>

lemma wifi_handler_console:
  assumes ok: "run_ok lp" and hd: "console_header f lp" and cf: "console_frame e f lp"
  shows "\<exists>lp6. relay_ok lp6 \<and> view lp6 = view lp \<and>
    (\<forall>lp'. lan_play_relay_wifi_ipv4 e f lp6 = Some (True, lp') \<longrightarrow>
       lan_play_pcap_handler e f (length f) (wifi_mac lp) lp = Some lp')"
proof -
  note cf' = cf [unfolded console_frame_def]
  have l: "34 \<le> length f" "14 \<le> length f" using hd by (simp_all add: console_header_def)
  let ?lp0 = "lp\<lparr>ingress_zerotier := False\<rparr>"
  have s0: "run_step lp ?lp0" by (rule run_ingress [OF ok])
  obtain k where k: "diagnostic_count_rx False f ?lp0 = Some (?lp0\<lparr>counters := k\<rparr>)"
    using l by (simp add: diagnostic_count_rx_def checked_access Let_def)
  let ?lp1 = "?lp0\<lparr>counters := k\<rparr>"
  have s1: "run_step ?lp0 ?lp1" using run_count [OF run_step_D [OF s0] l(2), of False] k by simp
  let ?lp2 = "log_frame e RX_WiFi f ?lp1"
  have ok2: "run_ok ?lp2" by (rule run_step_D [OF run_log [OF run_step_D [OF s1]]])
  have 3: "consume_wifi_delivery_reply f ?lp2 = Some (False, ?lp2)"
    using cf' l by (intro consume_skips) (auto simp: log_frame_def probe_source_def)
  have 4: "dhcp_server_consume e f ?lp2 = Some (False, ?lp2)" using cf' by (intro dhcp_skips) simp
  have "console_header f ?lp2" "switch_mac ?lp2 = switch_mac lp" using hd by (simp_all add: console_header_def log_frame_def)
  then obtain c where 5: "learn_local_switch e f ?lp2 = Some (True, ?lp2\<lparr>switch_mac_confirmed := c\<rparr>)"
    using learn_known [of f ?lp2 e] ok2 cf' by (auto simp: run_ok_def)
  let ?lp6 = "packet_set_mac (wifi_mac lp) (?lp2\<lparr>switch_mac_confirmed := c\<rparr>)"
  have v6: "view ?lp6 = view lp" by (simp add: view_def log_frame_def packet_set_mac_def)
  obtain lp5 where "learn_local_switch e f ?lp2 = Some (True, lp5)" "run_step ?lp2 lp5"
    using run_learn [OF ok2, of e f] 5 by auto
  then have r6: "relay_ok ?lp6" using 5 run_set_mac [of lp5 "wifi_mac lp"] by (auto dest!: run_step_D intro: run_ok_relay)
  have "mac_at f 6 \<noteq> wifi_mac lp" "be16 (f ! 12) (f ! 13) = ETHER_TYPE_IPV4" using cf' by auto
  then have "lan_play_pcap_handler e f (length f) (wifi_mac lp) lp = Some lp'"
    if "lan_play_relay_wifi_ipv4 e f ?lp6 = Some (True, lp')" for lp'
    using l k 3 4 5 that by (simp add: lan_play_pcap_handler_def checked_access Let_def)
  then show ?thesis using v6 r6 by blast
qed

lemma wifi_handler_delivers:
  assumes ok: "run_ok lp" and fw: "wifi_forwardable e f lp" and cf: "console_frame e f lp"
    and d: "d = overlay_dst lp (ip_at (drop 14 f) 16)"
  shows "\<exists>q lp'. lan_play_pcap_handler e f (length f) (wifi_mac lp) lp = Some lp' \<and>
    translated_ok (ip_packet f) (zerotier_ip lp) d q \<and> delivers ZeroTier (overlay_frames e lp d q) lp lp'"
proof -
  obtain lp6 where 6: "relay_ok lp6" "view lp6 = view lp"
    "\<And>lp'. lan_play_relay_wifi_ipv4 e f lp6 = Some (True, lp') \<Longrightarrow>
       lan_play_pcap_handler e f (length f) (wifi_mac lp) lp = Some lp'"
    using wifi_handler_console [OF ok forwardable_header [OF fw] cf] by blast
  note v = view_cong [OF 6(2)]
  obtain q lp' where 7: "lan_play_relay_wifi_ipv4 e f lp6 = Some (True, lp')"
    "translated_ok (ip_packet f) (zerotier_ip lp) d q" "delivers ZeroTier (overlay_frames e lp d q) lp lp'"
    using relay_wifi_delivers [OF 6(1), of e f d] fw by (auto simp: v d)
  show ?thesis using 6(3) [OF 7(1)] 7(2,3) by blast
qed

text \<open>An ICMP port-unreachable message of the console ends at the relay.\<close>

lemma relay_wifi_port_unreachable:
  assumes len: "length f < 65536" and rel: "wifi_relayable f lp"
    and pu: "port_unreachable (drop 14 f) (unat (be16 (drop 14 f ! 2) (drop 14 f ! 3)))"
  shows "lan_play_relay_wifi_ipv4 e f lp = Some (True, lp)"
  using relay_wifi_eval [OF len rel, of e] pu by simp

section \<open>From the overlay to the console\<close>

definition zerotier_forwardable :: "byte list \<Rightarrow> lan_play \<Rightarrow> bool" where
  "zerotier_forwardable f lp \<longleftrightarrow> length f < 65536 \<and> be16 (f ! 12) (f ! 13) = ETHER_TYPE_IPV4 \<and>
     mac_at f 6 \<noteq> zerotier_mac lp \<and> zerotier_relayable f lp \<and>
     ipv4_valid (ip_packet f) (unat (be16 (f ! 16) (f ! 17)))"

text \<open>A broadcast stays one; everything else goes to the console's own addresses.\<close>

definition wifi_frame :: "byte list \<Rightarrow> lan_play \<Rightarrow> byte list \<Rightarrow> byte list" where
  "wifi_frame f lp q = ether_bytes (if ip_at (drop 14 f) 16 = zerotier_broadcast_ip lp then BROADCAST_MAC else switch_mac lp)
     (wifi_mac lp) ETHER_TYPE_IPV4 q"

definition wifi_dst :: "byte list \<Rightarrow> lan_play \<Rightarrow> ip4" where
  "wifi_dst f lp = (if ip_at (drop 14 f) 16 = zerotier_broadcast_ip lp then zerotier_broadcast_ip lp else switch_ip lp)"

text \<open>What may follow: the one delivery probe, after the first unicast game packet.\<close>

definition probe_follows :: "env \<Rightarrow> byte list \<Rightarrow> lan_play \<Rightarrow> event list \<Rightarrow> bool" where
  "probe_follows e f lp evs \<longleftrightarrow> evs = [] \<or>
     ip_at (drop 14 f) 16 \<noteq> zerotier_broadcast_ip lp \<and>
     game_packet (drop 14 f) (unat (be16 (drop 14 f ! 2) (drop 14 f ! 3))) \<and> \<not> wifi_delivery_probe_sent lp \<and>
     (\<exists>q r. evs = [Tx WiFi 0 (ether_bytes (switch_mac lp) (wifi_mac lp) ETHER_TYPE_IPV4 q) r] \<and>
        translated_ok (probe_request e lp) (probe_source lp) (switch_ip lp) q)"

lemma probe_follows_cong:
  assumes "switch_mac a = switch_mac b" "wifi_mac a = wifi_mac b" "switch_ip a = switch_ip b"
    "zerotier_broadcast_ip a = zerotier_broadcast_ip b" "wifi_delivery_probe_sent a = wifi_delivery_probe_sent b"
    "probe_source a = probe_source b"
  shows "probe_follows e f a evs = probe_follows e f b evs"
  unfolding probe_follows_def probe_request_def assms ..

lemma probe_source_cong:
  "switch_dhcp a = switch_dhcp b \<Longrightarrow> wifi_ip a = wifi_ip b \<Longrightarrow> ctx_ip (ctx a) = ctx_ip (ctx b) \<Longrightarrow>
     probe_source a = probe_source b"
  by (simp add: probe_source_def)

lemma probe_outputs:
  assumes io: "io_ok lp" and core: "core lp = core lp0"
    and g: "ip_at (drop 14 f) 16 \<noteq> zerotier_broadcast_ip lp0"
      "game_packet (drop 14 f) (unat (be16 (drop 14 f ! 2) (drop 14 f ! 3)))"
  shows "\<exists>lp' evs. probe_wifi_delivery e lp = Some lp' \<and> out lp' = out lp @ evs \<and> probe_follows e f lp0 evs"
proof (cases "wifi_delivery_probe_sent lp")
  case True
  then show ?thesis by (auto simp: probe_wifi_delivery_def probe_follows_def)
next
  case False
  have fields: "switch_mac lp = switch_mac lp0" "wifi_mac lp = wifi_mac lp0" "switch_ip lp = switch_ip lp0"
    "wifi_delivery_probe_sent lp = wifi_delivery_probe_sent lp0" "probe_source lp = probe_source lp0"
    using core_fields [OF core] ctx_fields [OF core] by (simp_all add: probe_source_def)
  have pr: "probe_request e lp = probe_request e lp0" by (simp add: probe_request_def)
  obtain q r lp' where p: "translated_ok (probe_request e lp) (probe_source lp) (switch_ip lp) q"
    "probe_wifi_delivery e lp = Some lp'"
    "sent WiFi (ether_bytes (switch_mac lp) (wifi_mac lp) ETHER_TYPE_IPV4 q) r (mark_probe e lp) lp'"
    using probe_sent [OF io False] by blast
  then have o: "out lp' = out lp @ [Tx WiFi 0 (ether_bytes (switch_mac lp) (wifi_mac lp) ETHER_TYPE_IPV4 q) r]"
    by (simp add: sent_def mark_probe_def)
  have "probe_follows e f lp0 [Tx WiFi 0 (ether_bytes (switch_mac lp) (wifi_mac lp) ETHER_TYPE_IPV4 q) r]"
    using p(1) g False unfolding probe_follows_def fields pr by blast
  then show ?thesis using p(2) o by blast
qed

lemma relay_zerotier_delivers:
  assumes ok: "relay_ok lp" and fw: "zerotier_forwardable f lp"
  shows "\<exists>q r evs lp'. lan_play_relay_zerotier_ipv4 e f lp = Some (True, lp') \<and>
    translated_ok (ip_packet f) (ip_at (drop 14 f) 12) (wifi_dst f lp) q \<and>
    out lp' = out lp @ Tx WiFi 0 (wifi_frame f lp q) r # evs \<and> probe_follows e f lp evs"
proof -
  define ip where "ip = drop 14 f"
  define t where "t = unat (be16 (ip ! 2) (ip ! 3))"
  define bcast where "bcast \<longleftrightarrow> ip_at ip 16 = zerotier_broadcast_ip lp"
  let ?lp1 = "zerotier_relay_state f lp"
  have l: "length f < 65536" "zerotier_relayable f lp" "34 \<le> length f"
    using fw by (auto simp: zerotier_forwardable_def zerotier_relayable_def Let_def)
  have t: "ip_packet f = take t ip" "unat (be16 (f ! 16) (f ! 17)) = t"
    using l(3) by (simp_all add: ip_packet_def ip_def t_def)
  then have valid: "ipv4_valid (take t ip) t" using fw by (simp add: zerotier_forwardable_def)
  obtain q where q: "translated_ok (take t ip) (ip_at ip 12) (wifi_dst f lp) q" "length q = t" "20 \<le> t" "t \<le> 1500"
    and ev: "lan_play_relay_zerotier_ipv4 e f lp = do {
        (ret, lp2) \<leftarrow> lan_play_send_wifi_ipv4 e (if bcast then BROADCAST_MAC else switch_mac lp) q t ?lp1;
        lp3 \<leftarrow> (if ret = 0 \<and> \<not> bcast \<and> game_packet ip t then probe_wifi_delivery e lp2 else Some lp2);
        Some (True, lp3) }"
    using relay_zerotier_eval [OF l(1,2) ip_def t_def bcast_def refl refl, of e] valid
    by (auto simp: wifi_dst_def bcast_def ip_def)
  have io: "io_ok ?lp1" using ok progress_ok [OF progress_fields(2) [OF ok]]
    by (simp add: relay_ok_def zerotier_relay_state_def Let_def)
  obtain r lp2 where 2: "lan_play_send_wifi_ipv4 e (if bcast then BROADCAST_MAC else switch_mac lp) q t ?lp1 = Some (r, lp2)"
    "sent WiFi (ether_bytes (if bcast then BROADCAST_MAC else switch_mac lp) (wifi_mac ?lp1) ETHER_TYPE_IPV4 (take t q)) r ?lp1 lp2"
    using send_wifi_ipv4_sent [OF io q(3,4)] q(2) by blast
  have o: "out lp2 = out lp @ [Tx WiFi 0 (wifi_frame f lp q) r]" "io_ok lp2" "core lp2 = core ?lp1"
    using 2(2) q(2) by (simp_all add: sent_def wifi_frame_def bcast_def ip_def zerotier_relay_state_def Let_def)
  show ?thesis
  proof (cases "r = 0 \<and> \<not> bcast \<and> game_packet ip t")
    case True
    then have g: "ip_at (drop 14 f) 16 \<noteq> zerotier_broadcast_ip ?lp1"
      "game_packet (drop 14 f) (unat (be16 (drop 14 f ! 2) (drop 14 f ! 3)))"
      by (simp_all add: bcast_def ip_def t_def zerotier_relay_state_def Let_def)
    obtain lp3 evs where 3: "probe_wifi_delivery e lp2 = Some lp3" "out lp3 = out lp2 @ evs" "probe_follows e f ?lp1 evs"
      using probe_outputs [OF o(2,3) g] by blast
    have "probe_follows e f ?lp1 evs = probe_follows e f lp evs"
      by (intro probe_follows_cong probe_source_cong) (simp_all add: zerotier_relay_state_def Let_def)
    then have "probe_follows e f lp evs" using 3(3) by simp
    moreover have "lan_play_relay_zerotier_ipv4 e f lp = Some (True, lp3)" using ev 2(1) 3(1) True by simp
    moreover have "out lp3 = out lp @ Tx WiFi 0 (wifi_frame f lp q) r # evs" using 3(2) o(1) by simp
    ultimately show ?thesis using q(1) unfolding t(1) ip_def [symmetric] by blast
  next
    case False
    then have "lan_play_relay_zerotier_ipv4 e f lp = Some (True, lp2)" using ev 2(1) by auto
    then show ?thesis using q(1) o(1) unfolding t(1) ip_def [symmetric] by (auto simp: probe_follows_def)
  qed
qed

lemma learn_peer_only_neighbors:
  "14 \<le> length f \<Longrightarrow> \<exists>nb. learn_peer e f lp = Some (lp\<lparr>zerotier_neighbors := nb\<rparr>)"
proof -
  assume l: "14 \<le> length f"
  obtain c where c: "peer_claim f = Some c" using peer_claim_total [OF l] by blast
  have same: "lp = lp\<lparr>zerotier_neighbors := zerotier_neighbors lp\<rparr>" by simp
  show ?thesis
  proof (cases c)
    case None
    then have "learn_peer e f lp = Some lp" using c l by (simp add: learn_peer_def checked_access)
    then show ?thesis using same by metis
  next
    case (Some ip)
    then have "learn_peer e f lp = Some lp \<or> (\<exists>nb. learn_peer e f lp = Some (lp\<lparr>zerotier_neighbors := nb\<rparr>))"
      using c l by (auto simp: learn_peer_def checked_access)
    then show ?thesis using same by metis
  qed
qed

lemma zerotier_handler_delivers:
  assumes ok: "run_ok lp" and fw: "zerotier_forwardable f lp"
  shows "\<exists>q r evs lp'. lan_play_zerotier_pcap_handler e f (length f) (zerotier_mac lp) lp = Some lp' \<and>
    translated_ok (ip_packet f) (ip_at (drop 14 f) 12) (wifi_dst f lp) q \<and>
    out lp' = out lp @ Tx WiFi 0 (wifi_frame f lp q) r # evs \<and> probe_follows e f lp evs"
proof -
  have l: "34 \<le> length f" "14 \<le> length f" and ty: "be16 (f ! 12) (f ! 13) = ETHER_TYPE_IPV4"
    and src: "mac_at f 6 \<noteq> zerotier_mac lp"
    using fw by (auto simp: zerotier_forwardable_def zerotier_relayable_def Let_def)
  obtain nb where nb: "learn_peer e f lp = Some (lp\<lparr>zerotier_neighbors := nb\<rparr>)" using learn_peer_only_neighbors [OF l(2)] by blast
  let ?lp1 = "lp\<lparr>zerotier_neighbors := nb, ingress_zerotier := True\<rparr>"
  have "run_ok (lp\<lparr>zerotier_neighbors := nb\<rparr>)" using run_learn_peer [OF ok l(2), of e] nb by (auto dest: run_step_D)
  then have s1: "run_ok ?lp1" by (rule run_step_D [OF run_ingress])
  obtain k where k: "diagnostic_count_rx True f ?lp1 = Some (?lp1\<lparr>counters := k\<rparr>)"
    using l by (simp add: diagnostic_count_rx_def checked_access Let_def)
  have s2: "run_ok (?lp1\<lparr>counters := k\<rparr>)" using run_count [OF s1 l(2), of True] k by (auto dest: run_step_D)
  let ?lp4 = "packet_set_mac (zerotier_mac lp) (log_frame e RX_ZeroTier f (?lp1\<lparr>counters := k\<rparr>))"
  have "run_ok ?lp4" by (rule run_step_D [OF run_set_mac [OF run_step_D [OF run_log [OF s2]]]])
  then have ok4: "relay_ok ?lp4" by (rule run_ok_relay)
  have same: "switch_mac ?lp4 = switch_mac lp" "wifi_mac ?lp4 = wifi_mac lp" "switch_ip ?lp4 = switch_ip lp"
    "zerotier_broadcast_ip ?lp4 = zerotier_broadcast_ip lp" "wifi_delivery_probe_sent ?lp4 = wifi_delivery_probe_sent lp"
    "switch_dhcp ?lp4 = switch_dhcp lp" "wifi_ip ?lp4 = wifi_ip lp" "ctx_ip (ctx ?lp4) = ctx_ip (ctx lp)"
    "zerotier_mac ?lp4 = zerotier_mac lp" "zerotier_ip ?lp4 = zerotier_ip lp" "switch_seen ?lp4 = switch_seen lp"
    "out ?lp4 = out lp" by (simp_all add: packet_set_mac_def log_frame_def)
  have cong: "wifi_dst f ?lp4 = wifi_dst f lp" "wifi_frame f ?lp4 q = wifi_frame f lp q"
    "zerotier_forwardable f ?lp4 = zerotier_forwardable f lp" "probe_follows e f ?lp4 evs = probe_follows e f lp evs" for q evs
    using probe_follows_cong [OF same(1-5) probe_source_cong [OF same(6-8)]]
    unfolding wifi_dst_def wifi_frame_def zerotier_forwardable_def zerotier_relayable_def same by simp_all
  obtain q r evs lp' where 5: "lan_play_relay_zerotier_ipv4 e f ?lp4 = Some (True, lp')"
    "translated_ok (ip_packet f) (ip_at (drop 14 f) 12) (wifi_dst f lp) q"
    "out lp' = out lp @ Tx WiFi 0 (wifi_frame f lp q) r # evs" "probe_follows e f lp evs"
    using relay_zerotier_delivers [OF ok4, of f e] fw unfolding cong same by blast
  have "lan_play_zerotier_pcap_handler e f (length f) (zerotier_mac lp) lp = Some (lp'\<lparr>ingress_zerotier := False\<rparr>)"
    using src ty l nb k 5(1) by (simp add: lan_play_zerotier_pcap_handler_def checked_access Let_def)
  then show ?thesis using 5(2-4) by auto
qed

section \<open>Across two relays\<close>

lemma translated_header:
  assumes "translated_ok p s d q" "20 \<le> header_len (p ! 0)" "20 \<le> length p" "k < 10"
  shows "q ! k = p ! k"
proof -
  have "k < length p" "\<not> (10 \<le> k \<and> k < 20)" "\<not> (has_udp p \<and> (k = header_len (p ! 0) + 6 \<or> k = header_len (p ! 0) + 7))"
    using assms(2-4) by simp_all
  then show ?thesis using assms(1) unfolding translated_ok_def Let_def by blast
qed

lemma translated_same:
  assumes t: "translated_ok p s d q" and h: "20 \<le> header_len (p ! 0)" "20 \<le> length p"
  shows "length q = length p" "q ! 0 = p ! 0" "be16 (q ! 2) (q ! 3) = be16 (p ! 2) (p ! 3)" "has_udp q = has_udp p"
  using translated_header [OF t h] t by (simp_all add: translated_ok_def Let_def has_udp_def)

lemma translated_trans:
  assumes 1: "translated_ok p s d q" and 2: "translated_ok q s' d' r" and h: "20 \<le> header_len (p ! 0)" "20 \<le> length p"
  shows "translated_ok p s' d' r"
  using 1 2 translated_same [OF 1 h] unfolding translated_ok_def Let_def by simp

lemma translated_valid:
  assumes v: "ipv4_valid p n" "length p = n" and t: "translated_ok p s d q"
  shows "ipv4_valid q n"
proof -
  have "20 \<le> header_len (p ! 0)" "20 \<le> length p" using v by (simp_all add: ipv4_valid_def Let_def)
  from translated_same [OF t this] show ?thesis using v by (simp add: ipv4_valid_def)
qed

text \<open>The IPv4 packet of a forwarded frame is the translated packet itself.\<close>

lemma ip_packet_ether:
  assumes "unat (be16 (q ! 2) (q ! 3)) = length q"
  shows "ip_packet (ether_bytes m m' ty q) = q"
  using assms by (simp add: ip_packet_def)

lemma nth_ether_bytes: "14 \<le> k \<Longrightarrow> k - 14 < length b \<Longrightarrow> ether_bytes d s t b ! k = b ! (k - 14)"
  using nth_drop [of 14 "ether_bytes d s t b" "k - 14"] by simp

lemma wifi_forwardable_packet:
  assumes "wifi_forwardable e f lp"
  shows "ipv4_valid (ip_packet f) (length (ip_packet f))" "length (ip_packet f) \<le> 1500"
    "unat (be16 (ip_packet f ! 2) (ip_packet f ! 3)) = length (ip_packet f)"
    "20 \<le> header_len (ip_packet f ! 0)" "20 \<le> length (ip_packet f)"
proof -
  have *: "let ip = drop 14 f; t = unat (be16 (ip ! 2) (ip ! 3)) in ip_packet f = take t ip \<and> ipv4_valid (take t ip) t \<and>
      t \<le> length ip \<and> t \<le> 1500"
    using assms by (auto simp: wifi_forwardable_def wifi_relayable_def ip_packet_def Let_def)
  then have "length (ip_packet f) = unat (be16 (drop 14 f ! 2) (drop 14 f ! 3))" by (auto simp: Let_def)
  then show "ipv4_valid (ip_packet f) (length (ip_packet f))" "length (ip_packet f) \<le> 1500"
    using * by (simp_all add: Let_def)
  then show "20 \<le> header_len (ip_packet f ! 0)" "20 \<le> length (ip_packet f)" by (simp_all add: ipv4_valid_def Let_def)
  then show "unat (be16 (ip_packet f ! 2) (ip_packet f ! 3)) = length (ip_packet f)" using * by (auto simp: Let_def)
qed

lemma relay_frame_forwardable:
  assumes fw: "wifi_forwardable e f a" and t: "translated_ok (ip_packet f) s d q"
    and b: "switch_seen b" "zerotier_broadcast_ip b = d" "zerotier_mac b \<noteq> m"
  shows "zerotier_forwardable (ether_bytes BROADCAST_MAC m ETHER_TYPE_IPV4 q) b"
    "ip_packet (ether_bytes BROADCAST_MAC m ETHER_TYPE_IPV4 q) = q"
proof -
  note p = wifi_forwardable_packet [OF fw]
  note q = translated_same [OF t p(4,5)]
  have d: "ip_at q 16 = d" using t by (simp add: translated_ok_def Let_def)
  have len: "unat (be16 (q ! 2) (q ! 3)) = length q" using q p(3) by simp
  show ip: "ip_packet (ether_bytes BROADCAST_MAC m ETHER_TYPE_IPV4 q) = q" by (rule ip_packet_ether [OF len])
  have "ipv4_valid q (length q)" using translated_valid [OF p(1) refl t] q(1) by simp
  then show "zerotier_forwardable (ether_bytes BROADCAST_MAC m ETHER_TYPE_IPV4 q) b"
    unfolding zerotier_forwardable_def ip using len b d p(2,5) q(1)
    by (auto simp: zerotier_relayable_def nth_ether_bytes)
qed

section \<open>Frames that are ignored\<close>

lemma consume_outcome:
  "\<exists>b. consume_wifi_delivery_reply f lp = Some (b, if b then lp\<lparr>wifi_delivery_probe_replied := True\<rparr> else lp)"
proof (cases "\<not> wifi_delivery_probe_sent lp \<or> length f < 58")
  case True
  then show ?thesis by (auto simp: consume_wifi_delivery_reply_def)
next
  case False
  then have "drop 14 f \<noteq> []" by simp
  then show ?thesis using False by (auto simp: consume_wifi_delivery_reply_def checked_access Let_def)
qed

lemma switch_claim_cong: "zerotier_broadcast_ip a = zerotier_broadcast_ip b \<Longrightarrow> switch_claim f a = switch_claim f b"
  unfolding switch_claim_def by (simp only:)

text \<open>A claim the relay does not accept: none, a foreign address, or an address beside the console's.\<close>

definition claim_rejected :: "byte list \<Rightarrow> lan_play \<Rightarrow> bool" where
  "claim_rejected f lp \<longleftrightarrow> (case switch_claim f lp of
      None \<Rightarrow> False
    | Some None \<Rightarrow> True
    | Some (Some (ip, d)) \<Rightarrow> \<not> console_address lp ip (mac_at f 6) \<or> switch_seen lp \<and> ip \<noteq> switch_ip lp)"

lemma rejected_not_learnt:
  assumes "claim_rejected f lp"
  shows "learn_local_switch e f lp = Some (False, lp)"
proof -
  obtain c where c: "switch_claim f lp = Some c" using switch_claim_total by blast
  have "c = None \<or> (\<exists>ip d. c = Some (ip, d) \<and> (\<not> console_address lp ip (mac_at f 6) \<or> switch_seen lp \<and> ip \<noteq> switch_ip lp))"
    using assms c by (cases c) (auto simp: claim_rejected_def)
  then show ?thesis by (rule learn_none [OF c])
qed

text \<open>A frame the DHCP server has no answer for: no DHCP message, or one of a hardware address that is not Nintendo's.\<close>

definition dhcp_ignored :: "env \<Rightarrow> byte list \<Rightarrow> bool" where
  "dhcp_ignored e f \<longleftrightarrow> (dhcp_server (options e) \<longrightarrow>
     (case dhcp_parse f of None \<Rightarrow> False | Some None \<Rightarrow> True | Some (Some req) \<Rightarrow> \<not> is_nintendo_mac (mac_at f 6)))"

lemma dhcp_ignored_silent:
  assumes "dhcp_ignored e f" "14 \<le> length f"
  shows "\<exists>b lp'. dhcp_server_consume e f lp = Some (b, lp') \<and> out lp' = out lp \<and> console lp' = console lp \<and> (\<not> b \<longrightarrow> lp' = lp)"
proof (cases "dhcp_server (options e) \<longrightarrow> dhcp_parse f = Some None")
  case True
  then show ?thesis using dhcp_skips [OF True] by blast
next
  case False
  then obtain req where "dhcp_server (options e)" "dhcp_parse f = Some (Some req)" "\<not> is_nintendo_mac (mac_at f 6)"
    using assms(1) by (auto simp: dhcp_ignored_def split: option.splits)
  then show ?thesis using assms(2)
    by (cases "wifi_subnet_known lp")
      (auto simp: dhcp_server_consume_def CPY_MAC_Some upd_dhcp_def set_leases_def console_def Let_def)
qed

lemma stranger_no_output:
  assumes ok: "run_ok lp" and l: "14 \<le> length f" and rej: "claim_rejected f lp"
    and dh: "dhcp_ignored e f"
  shows "\<exists>lp'. lan_play_pcap_handler e f (length f) m lp = Some lp' \<and> out lp' = out lp \<and> console lp' = console lp"
proof (cases "mac_at f 6 = m")
  case True
  then show ?thesis using l by (simp add: lan_play_pcap_handler_def CPY_MAC_Some log_frame_def console_def)
next
  case False
  let ?lp0 = "lp\<lparr>ingress_zerotier := False\<rparr>"
  obtain k where k: "diagnostic_count_rx False f ?lp0 = Some (?lp0\<lparr>counters := k\<rparr>)"
    using l by (simp add: diagnostic_count_rx_def checked_access Let_def)
  let ?lp2 = "log_frame e RX_WiFi f (?lp0\<lparr>counters := k\<rparr>)"
  obtain b where b: "consume_wifi_delivery_reply f ?lp2 = Some (b, if b then ?lp2\<lparr>wifi_delivery_probe_replied := True\<rparr> else ?lp2)"
    using consume_outcome by blast
  obtain b4 lp4 where 4: "dhcp_server_consume e f ?lp2 = Some (b4, lp4)" "out lp4 = out ?lp2" "console lp4 = console ?lp2"
    "\<not> b4 \<longrightarrow> lp4 = ?lp2" using dhcp_ignored_silent [OF dh l] by blast
  have same: "zerotier_broadcast_ip ?lp2 = zerotier_broadcast_ip lp" "config ?lp2 = config lp" "switch_seen ?lp2 = switch_seen lp"
    "switch_ip ?lp2 = switch_ip lp" "out ?lp2 = out lp" "console ?lp2 = console lp"
    by (simp_all add: log_frame_def config_def console_def)
  have "claim_rejected f ?lp2"
    using rej unfolding claim_rejected_def switch_claim_cong [OF same(1)] console_address_config [OF same(2)] same(3,4) .
  then have 5: "learn_local_switch e f ?lp2 = Some (False, ?lp2)" by (rule rejected_not_learnt)
  have "lan_play_pcap_handler e f (length f) m lp =
      Some (if b then ?lp2\<lparr>wifi_delivery_probe_replied := True\<rparr> else lp4)"
    using False l k b 4(1,4) 5 by (cases b; cases b4) (simp_all add: lan_play_pcap_handler_def CPY_MAC_Some Let_def)
  then show ?thesis using same(5,6) 4(2,3) by (simp add: console_def)
qed

text \<open>A frame with the capturing adapter's own address as its source is only logged.\<close>

lemma own_frame_ignored:
  assumes "14 \<le> length f" "mac_at f 6 = hw_addr s lp"
  shows "\<exists>lp'. relay_step e (case s of WiFi \<Rightarrow> WifiFrame f | ZeroTier \<Rightarrow> ZeroTierFrame f) lp = Some lp' \<and>
    lp' = lp\<lparr>capture_state := capture_frame (clk e) (flush_oks e) HOST f (capture_state lp)\<rparr>"
  using assms
  by (cases s) (simp_all add: lan_play_pcap_handler_def lan_play_zerotier_pcap_handler_def CPY_MAC_Some hw_simps
      log_frame_def)

end
