(* ===== verification/Discovery.thy ===== *)
theory Discovery
  imports Forwarding
begin

text \<open>
  The discovery sweep of \<^verbatim>\<open>switch_discovery_timer_cb\<close> over many ticks of its timer: which addresses are
  asked, in which order, and when.
\<close>

section \<open>One tick\<close>

definition ticks :: "nat \<Rightarrow> env \<Rightarrow> lan_play \<Rightarrow> lan_play option" where
  "ticks n e = relay_run (replicate n (e, DiscoveryTick))"

lemma ticks_simps: "ticks 0 e lp = Some lp" "ticks (Suc n) e lp = switch_discovery_timer_cb e lp \<bind> ticks n e"
  by (simp_all add: ticks_def)

lemma ticks_one: "ticks (Suc 0) e lp = switch_discovery_timer_cb e lp"
  by (cases "switch_discovery_timer_cb e lp") (simp_all add: ticks_simps)

lemma ticks_add: "ticks (m + n) e lp = ticks m e lp \<bind> ticks n e"
  by (induction m arbitrary: lp) (simp_all add: ticks_simps split: Option.bind_split)

text \<open>The requests of a sweep over the hosts \<open>hs\<close> of the subnet that is swept; the relay's own address is left out.\<close>

definition sweep_base :: "lan_play \<Rightarrow> ip4" where
  "sweep_base lp = (if sweep_wifi lp then wifi_ip lp else subnet_net (ctx lp))"

definition sweep_request :: "lan_play \<Rightarrow> nat \<Rightarrow> byte list" where
  "sweep_request lp h = ether_bytes BROADCAST_MAC (wifi_mac lp) ETHER_TYPE_ARP
     (arp_body ARP_OPCODE_REQUEST (wifi_mac lp) (sweep_sender lp) NONE_MAC (set_host (sweep_base lp) (word_of_nat h)))"

definition sweep_own :: "lan_play \<Rightarrow> nat \<Rightarrow> bool" where
  "sweep_own lp h \<longleftrightarrow> sweep_wifi lp \<and> word_of_nat h = host_of (wifi_ip lp)"

definition sweep_requests :: "lan_play \<Rightarrow> nat list \<Rightarrow> byte list list" where
  "sweep_requests lp hs = map (sweep_request lp) (filter (\<lambda>h. \<not> sweep_own lp h) hs)"

text \<open>What the sweep reads and does not change, apart from the phase.\<close>

definition sweep_env :: "lan_play \<Rightarrow> _" where
  "sweep_env lp = (wifi_mac lp, wifi_ip lp, wifi_subnet_known lp, ctx_ip (ctx lp), subnet_net (ctx lp))"

definition sweep_at :: "nat \<Rightarrow> lan_play \<Rightarrow> bool" where
  "sweep_at h lp \<longleftrightarrow> io_ok lp \<and> sweeping lp \<and> switch_discovery_host lp = word_of_nat h"

lemma sweep_requests_cong:
  "sweep_env a = sweep_env b \<Longrightarrow> switch_discovery_wifi_phase a = switch_discovery_wifi_phase b \<Longrightarrow>
     sweep_requests a hs = sweep_requests b hs"
  by (simp add: sweep_requests_def sweep_request_def sweep_own_def sweep_base_def sweep_sender_def sweep_wifi_def sweep_env_def)

lemma host_of_set_host [simp]: "host_of (set_host ip h) = h"
  by (cases ip) simp

lemma word_of_host: "h < 256 \<Longrightarrow> unat (word_of_nat h :: byte) = h"
  by (rule unat_of_nat_8)

lemma io_ok_sweep_next: "io_ok (sweep_next w lp) = io_ok lp"
  by (simp add: sweep_next_def Let_def io_ok_def all_sides link_of_def hw_addr_def)

lemma sweep_next_keeps:
  "sweep_env (sweep_next w lp) = sweep_env lp" "out (sweep_next w lp) = out lp"
  "switch_seen (sweep_next w lp) = switch_seen lp"
  by (simp_all add: sweep_next_def Let_def sweep_env_def)

text \<open>A tick asks the next host, or nobody when that is the relay itself, and goes on to the next one.\<close>

lemma tick_requests:
  assumes at: "sweep_at h lp" and h: "h < 256"
  shows "\<exists>lp1. switch_discovery_timer_cb e lp = Some (sweep_next (sweep_wifi lp) lp1) \<and>
    delivers WiFi (sweep_requests lp [h]) lp lp1 \<and> core lp1 = core lp \<and> io_ok lp1"
proof -
  have a: "io_ok lp" "sweeping lp" "switch_discovery_host lp = word_of_nat h" using at by (simp_all add: sweep_at_def)
  have t: "sweep_target lp = set_host (sweep_base lp) (word_of_nat h)" using a(3) by (simp add: sweep_target_def sweep_base_def)
  show ?thesis
  proof (cases "sweep_own lp h")
    case True
    then have "switch_discovery_timer_cb e lp = Some (sweep_next (sweep_wifi lp) lp)"
      using a(2) t by (simp add: switch_discovery_timer_cb_def sweeping_def sweep_own_def)
    then show ?thesis using True a(1) by (auto simp: sweep_requests_def delivers.simps)
  next
    case False
    then have "\<not> sweep_self lp" using t by (simp add: sweep_self_def sweep_own_def)
    from timer_probe [OF a(1,2) this, of e] obtain r lp1 where
      1: "switch_discovery_timer_cb e lp = Some (sweep_next (sweep_wifi lp) lp1)"
      and s: "sent WiFi (sweep_request lp h) r lp lp1" by (auto simp: sweep_request_def t)
    from s have "out lp1 = out lp @ [Tx WiFi 0 (sweep_request lp h) r]" by (simp add: sent_def)
    then have "delivers WiFi (sweep_requests lp [h]) lp lp1" using False by (auto simp: sweep_requests_def intro: delivers_one)
    then show ?thesis using 1 s by (auto simp: sent_def)
  qed
qed

section \<open>A whole sweep\<close>

lemma core_sweep:
  assumes "core lp1 = core lp"
  shows "sweep_env lp1 = sweep_env lp" "switch_seen lp1 = switch_seen lp"
    "switch_discovery_host lp1 = switch_discovery_host lp" "switch_discovery_wifi_phase lp1 = switch_discovery_wifi_phase lp"
    "switch_discovery_pause_ticks lp1 = switch_discovery_pause_ticks lp"
  using core_fields [OF assms] ctx_fields [OF assms] by (simp_all add: sweep_env_def)

lemma next_host:
  assumes "2 \<le> h" "h \<le> 254"
  shows "(word_of_nat h + 1 = (0 :: byte)) = False" "(word_of_nat h + 1 = (255 :: byte)) = (h = 254)"
proof -
  have "word_of_nat h + 1 = (word_of_nat (Suc h) :: byte)" by simp
  moreover have u: "unat (word_of_nat (Suc h) :: byte) = Suc h" using assms by (intro unat_of_nat_8) simp
  ultimately show "(word_of_nat h + 1 = (0 :: byte)) = False" "(word_of_nat h + 1 = (255 :: byte)) = (h = 254)"
    using assms by (auto simp: word_unat_eq_iff)
qed

lemma tick_inner:
  assumes at: "sweep_at h lp" and h: "2 \<le> h" "h < 254"
  shows "\<exists>lp'. switch_discovery_timer_cb e lp = Some lp' \<and> delivers WiFi (sweep_requests lp [h]) lp lp' \<and>
    sweep_at (Suc h) lp' \<and> sweep_env lp' = sweep_env lp \<and>
    switch_discovery_wifi_phase lp' = switch_discovery_wifi_phase lp"
proof -
  obtain lp1 where 1: "switch_discovery_timer_cb e lp = Some (sweep_next (sweep_wifi lp) lp1)"
    "delivers WiFi (sweep_requests lp [h]) lp lp1" "core lp1 = core lp" "io_ok lp1"
    using tick_requests [OF at] h by auto
  note c = core_sweep [OF 1(3)]
  have host: "switch_discovery_host lp1 = word_of_nat h" using c(3) at by (simp add: sweep_at_def)
  have n: "sweep_next w lp1 = lp1\<lparr>switch_discovery_host := word_of_nat h + 1\<rparr>" for w
    using next_host [of h] h by (simp add: sweep_next_def host)
  have "sweep_at (Suc h) (sweep_next w lp1)" for w
    using at c(2,5) 1(4) io_ok_sweep_next [of w lp1] by (simp add: sweep_at_def sweeping_def n)
  moreover have "delivers WiFi (sweep_requests lp [h]) lp (sweep_next w lp1)" for w
    using 1(2) delivers_out [of lp lp "sweep_next w lp1" lp1] sweep_next_keeps(2) by blast
  moreover have "sweep_env (sweep_next w lp1) = sweep_env lp" for w using sweep_next_keeps(1) c(1) by simp
  moreover have "switch_discovery_wifi_phase (sweep_next w lp1) = switch_discovery_wifi_phase lp" for w using c(4) by (simp add: n)
  ultimately show ?thesis using 1(1) by blast
qed

lemma delivers_append: "delivers s fs a b \<Longrightarrow> delivers s gs b c \<Longrightarrow> delivers s (fs @ gs) a c"
proof -
  assume "delivers s fs a b" "delivers s gs b c"
  then obtain rs ts where "length rs = length fs" "out b = out a @ map (\<lambda>(f, r). Tx s 0 f r) (zip fs rs)"
    "length ts = length gs" "out c = out b @ map (\<lambda>(f, r). Tx s 0 f r) (zip gs ts)" by (auto simp: delivers.simps)
  then show ?thesis unfolding delivers.simps by (intro exI [of _ "rs @ ts"]) simp
qed

lemma sweep_requests_append: "sweep_requests lp (hs @ ks) = sweep_requests lp hs @ sweep_requests lp ks"
  by (simp add: sweep_requests_def)

lemma ticks_inner:
  assumes "sweep_at h lp" "2 \<le> h" "h + n \<le> 254"
  shows "\<exists>lp'. ticks n e lp = Some lp' \<and> delivers WiFi (sweep_requests lp [h..<h + n]) lp lp' \<and> sweep_at (h + n) lp' \<and>
    sweep_env lp' = sweep_env lp \<and> switch_discovery_wifi_phase lp' = switch_discovery_wifi_phase lp"
  using assms
proof (induction n arbitrary: h lp)
  case 0
  then show ?case by (simp add: ticks_simps sweep_requests_def delivers.simps)
next
  case (Suc n)
  obtain lp1 where 1: "switch_discovery_timer_cb e lp = Some lp1" "delivers WiFi (sweep_requests lp [h]) lp lp1"
    "sweep_at (Suc h) lp1" "sweep_env lp1 = sweep_env lp" "switch_discovery_wifi_phase lp1 = switch_discovery_wifi_phase lp"
    using tick_inner [OF Suc.prems(1,2)] Suc.prems(3) by auto
  obtain lp2 where 2: "ticks n e lp1 = Some lp2" "delivers WiFi (sweep_requests lp1 [Suc h..<Suc h + n]) lp1 lp2"
    "sweep_at (Suc h + n) lp2" "sweep_env lp2 = sweep_env lp1" "switch_discovery_wifi_phase lp2 = switch_discovery_wifi_phase lp1"
    using Suc.IH [OF 1(3)] Suc.prems by auto
  have hs: "[h..<h + Suc n] = [h] @ [Suc h..<Suc h + n]" by (simp add: upt_conv_Cons del: upt_Suc)
  have "sweep_requests lp [h..<h + Suc n] = sweep_requests lp [h] @ sweep_requests lp1 [Suc h..<Suc h + n]"
    unfolding hs sweep_requests_append sweep_requests_cong [OF 1(4,5)] ..
  then have "delivers WiFi (sweep_requests lp [h..<h + Suc n]) lp lp2" using delivers_append [OF 1(2) 2(2)] by simp
  moreover have "ticks (Suc n) e lp = Some lp2" using 1(1) 2(1) by (simp add: ticks_simps)
  ultimately show ?case using 2(3-5) 1(4,5) by (auto simp del: upt_Suc)
qed

text \<open>The hosts of a sweep, in order.\<close>

definition sweep_hosts :: "nat list" where
  "sweep_hosts = [2..<255]"

lemma sweep_hosts_snoc: "sweep_hosts = [2..<2 + 252] @ [254]"
proof -
  have "[2..<Suc 254] = [2..<254] @ [254]" by (rule upt_Suc_append) simp
  moreover have "Suc 254 = 255" "(2 :: nat) + 252 = 254" by simp_all
  ultimately show ?thesis by (simp only: sweep_hosts_def)
qed

text \<open>A full sweep takes 253 ticks and asks the hosts 2 to 254 in order; then the other subnet is swept, or the
  sweep rests for 600 ticks.\<close>

lemma ticks_sweep:
  assumes at: "sweep_at 2 lp"
  shows "\<exists>lp'. ticks 253 e lp = Some lp' \<and> delivers WiFi (sweep_requests lp sweep_hosts) lp lp' \<and> io_ok lp' \<and>
    sweep_env lp' = sweep_env lp \<and> switch_discovery_host lp' = 2 \<and> \<not> switch_seen lp' \<and>
    switch_discovery_wifi_phase lp' = (\<not> sweep_wifi lp \<and> wifi_subnet_known lp) \<and>
    switch_discovery_pause_ticks lp' = (if sweep_wifi lp then 0 else 600)"
proof -
  have n: "2 + 252 \<le> (254 :: nat)" by simp
  obtain lp1 where 1: "ticks 252 e lp = Some lp1" "delivers WiFi (sweep_requests lp [2..<2 + 252]) lp lp1"
    "sweep_at (2 + 252) lp1" "sweep_env lp1 = sweep_env lp" "switch_discovery_wifi_phase lp1 = switch_discovery_wifi_phase lp"
    using ticks_inner [OF at le_refl n, of e] by blast
  then have at': "sweep_at 254 lp1" by simp
  have w: "sweep_wifi lp1 = sweep_wifi lp" using 1(4,5) by (simp add: sweep_wifi_def sweep_env_def)
  obtain lp2 where 2: "switch_discovery_timer_cb e lp1 = Some (sweep_next (sweep_wifi lp) lp2)"
    "delivers WiFi (sweep_requests lp1 [254]) lp1 lp2" "core lp2 = core lp1" "io_ok lp2"
    using tick_requests [OF at', of e] by (auto simp: w)
  note c = core_sweep [OF 2(3)]
  have host: "switch_discovery_host lp2 = word_of_nat 254" using c(3) at' by (simp add: sweep_at_def)
  let ?lp' = "sweep_next (sweep_wifi lp) lp2"
  have reqs: "sweep_requests lp sweep_hosts = sweep_requests lp [2..<2 + 252] @ sweep_requests lp1 [254]"
    unfolding sweep_hosts_snoc sweep_requests_append sweep_requests_cong [OF 1(4,5)] ..
  have "delivers WiFi (sweep_requests lp sweep_hosts) lp ?lp'"
    unfolding reqs using delivers_append [OF 1(2) 2(2)] delivers_out [of lp lp ?lp' lp2] sweep_next_keeps(2) by blast
  moreover have "ticks 253 e lp = Some ?lp'" using ticks_add [of 252 "Suc 0" e lp] 1(1) 2(1) by (simp add: ticks_simps(1) ticks_one)
  moreover have "io_ok ?lp'" "sweep_env ?lp' = sweep_env lp" "switch_seen ?lp' = switch_seen lp2"
    using 2(4) io_ok_sweep_next sweep_next_keeps(1,3) c(1) 1(4) by simp_all
  moreover have "switch_discovery_host ?lp' = 2" "switch_discovery_wifi_phase ?lp' = (\<not> sweep_wifi lp \<and> wifi_subnet_known lp2)"
    "switch_discovery_pause_ticks ?lp' = (if sweep_wifi lp then switch_discovery_pause_ticks lp2 else 600)"
    using host by (simp_all add: sweep_next_def Let_def)
  moreover have "wifi_subnet_known lp2 = wifi_subnet_known lp" using c(1) 1(4) by (simp add: sweep_env_def)
  moreover have "\<not> switch_seen lp2" "switch_discovery_pause_ticks lp2 = 0"
    using c(2,5) at' by (simp_all add: sweep_at_def sweeping_def)
  ultimately show ?thesis by simp
qed

text \<open>The requests of the two sweeps of a round: the Wi-Fi adapter's /24 from the adapter's address, then the
  overlay's from the relay's address.\<close>

definition wifi_requests :: "lan_play \<Rightarrow> byte list list" where
  "wifi_requests lp = map (\<lambda>h. ether_bytes BROADCAST_MAC (wifi_mac lp) ETHER_TYPE_ARP
     (arp_body ARP_OPCODE_REQUEST (wifi_mac lp) (wifi_ip lp) NONE_MAC (set_host (wifi_ip lp) (word_of_nat h))))
     (filter (\<lambda>h. word_of_nat h \<noteq> host_of (wifi_ip lp)) sweep_hosts)"

definition overlay_requests :: "lan_play \<Rightarrow> byte list list" where
  "overlay_requests lp = map (\<lambda>h. ether_bytes BROADCAST_MAC (wifi_mac lp) ETHER_TYPE_ARP
     (arp_body ARP_OPCODE_REQUEST (wifi_mac lp) (ctx_ip (ctx lp)) NONE_MAC (set_host (subnet_net (ctx lp)) (word_of_nat h))))
     sweep_hosts"

lemma sweep_requests_wifi: "sweep_wifi lp \<Longrightarrow> sweep_requests lp sweep_hosts = wifi_requests lp"
  by (simp add: sweep_requests_def wifi_requests_def sweep_request_def sweep_own_def sweep_base_def sweep_sender_def cong: map_cong)

lemma sweep_requests_overlay: "\<not> sweep_wifi lp \<Longrightarrow> sweep_requests lp sweep_hosts = overlay_requests lp"
  by (simp add: sweep_requests_def overlay_requests_def sweep_request_def sweep_own_def sweep_base_def sweep_sender_def cong: map_cong)

lemma overlay_requests_cong: "sweep_env a = sweep_env b \<Longrightarrow> overlay_requests a = overlay_requests b"
  by (simp add: overlay_requests_def sweep_env_def)

definition round_requests :: "lan_play \<Rightarrow> byte list list" where
  "round_requests lp = wifi_requests lp @ overlay_requests lp"

lemma round_requests_cong: "sweep_env a = sweep_env b \<Longrightarrow> round_requests a = round_requests b"
  by (simp add: round_requests_def wifi_requests_def overlay_requests_def sweep_env_def)

text \<open>The state in which a round of both sweeps starts.\<close>

definition round_start :: "lan_play \<Rightarrow> bool" where
  "round_start lp \<longleftrightarrow> sweep_at 2 lp \<and> switch_discovery_wifi_phase lp \<and> wifi_subnet_known lp"

lemma ticks_round:
  assumes start: "round_start lp"
  shows "\<exists>lp'. ticks 506 e lp = Some lp' \<and> delivers WiFi (round_requests lp) lp lp' \<and> sweep_env lp' = sweep_env lp \<and>
    switch_discovery_pause_ticks lp' = 600 \<and> \<not> switch_seen lp' \<and> round_start (lp'\<lparr>switch_discovery_pause_ticks := 0\<rparr>)"
proof -
  have s: "sweep_at 2 lp" "switch_discovery_wifi_phase lp" "wifi_subnet_known lp" using start by (simp_all add: round_start_def)
  have w: "sweep_wifi lp" using s by (simp add: sweep_wifi_def)
  from ticks_sweep [OF s(1), of e] w obtain lp1 where 1: "ticks 253 e lp = Some lp1"
    "delivers WiFi (wifi_requests lp) lp lp1" "io_ok lp1" "sweep_env lp1 = sweep_env lp" "switch_discovery_host lp1 = 2"
    "\<not> switch_seen lp1" "\<not> switch_discovery_wifi_phase lp1" "switch_discovery_pause_ticks lp1 = 0"
    by (auto simp: sweep_requests_wifi)
  have at: "sweep_at 2 lp1" using 1 by (simp add: sweep_at_def sweeping_def)
  have k: "\<not> sweep_wifi lp1" "wifi_subnet_known lp1" using 1(4,7) s(3) by (simp_all add: sweep_wifi_def sweep_env_def)
  with ticks_sweep [OF at, of e] obtain lp2 where 2: "ticks 253 e lp1 = Some lp2" "delivers WiFi (overlay_requests lp1) lp1 lp2"
    "io_ok lp2" "sweep_env lp2 = sweep_env lp1" "switch_discovery_host lp2 = 2" "\<not> switch_seen lp2"
    "switch_discovery_wifi_phase lp2" "switch_discovery_pause_ticks lp2 = 600"
    by (auto simp: sweep_requests_overlay)
  have "ticks (253 + 253) e lp = Some lp2" unfolding ticks_add 1(1) using 2(1) by simp
  moreover have "delivers WiFi (round_requests lp) lp lp2"
    using delivers_append [OF 1(2) 2(2)] overlay_requests_cong [OF 1(4)] by (simp add: round_requests_def)
  moreover have "round_start (lp2\<lparr>switch_discovery_pause_ticks := 0\<rparr>)"
    using 2(3-7) k(2) by (simp add: round_start_def sweep_at_def sweeping_def sweep_env_def io_ok_def all_sides link_of_def hw_addr_def)
  ultimately show ?thesis using 2(4,6,8) 1(4) by auto
qed

text \<open>While it rests, a tick only counts down.\<close>

lemma ticks_pause:
  assumes "\<not> switch_seen lp" "k \<le> unat (switch_discovery_pause_ticks lp)"
  shows "ticks k e lp = Some (lp\<lparr>switch_discovery_pause_ticks := switch_discovery_pause_ticks lp - word_of_nat k\<rparr>)"
  using assms
proof (induction k)
  case (Suc k)
  have "unat (switch_discovery_pause_ticks lp - word_of_nat k) = unat (switch_discovery_pause_ticks lp) - k"
  proof -
    have "unat (word_of_nat k :: u16) = k"
      using Suc.prems(2) unat_u16_less [of "switch_discovery_pause_ticks lp"] by (intro unat_of_nat_16) linarith
    then show ?thesis using Suc.prems(2) by (simp add: unat_sub word_le_nat_alt)
  qed
  then have "switch_discovery_pause_ticks lp - word_of_nat k \<noteq> 0" using Suc.prems(2) by fastforce
  then show ?case using Suc ticks_add [of k "Suc 0" e lp]
    by (simp add: ticks_simps(1) ticks_one switch_discovery_timer_cb_def diff_diff_eq2 algebra_simps)
qed (simp add: ticks_simps)

text \<open>A round takes 506 ticks and the rest behind it 600.\<close>

lemma ticks_round_rest:
  assumes "round_start lp" "k \<le> 600"
  shows "\<exists>lp'. ticks (506 + k) e lp = Some lp' \<and> delivers WiFi (round_requests lp) lp lp' \<and> sweep_env lp' = sweep_env lp \<and>
    (k = 600 \<longrightarrow> round_start lp')"
proof -
  obtain lp1 where 1: "ticks 506 e lp = Some lp1" "delivers WiFi (round_requests lp) lp lp1" "sweep_env lp1 = sweep_env lp"
    "switch_discovery_pause_ticks lp1 = 600" "\<not> switch_seen lp1" "round_start (lp1\<lparr>switch_discovery_pause_ticks := 0\<rparr>)"
    using ticks_round [OF assms(1)] by blast
  let ?lp = "lp1\<lparr>switch_discovery_pause_ticks := 600 - word_of_nat k\<rparr>"
  have "ticks (506 + k) e lp = Some ?lp"
    unfolding ticks_add 1(1) using ticks_pause [OF 1(5), of k e] 1(4) assms(2) by simp
  moreover have "delivers WiFi (round_requests lp) lp ?lp" using 1(2) delivers_out [of lp lp ?lp lp1] by simp
  moreover have "sweep_env ?lp = sweep_env lp" using 1(3) by (simp add: sweep_env_def)
  ultimately show ?thesis using 1(6) by auto
qed

lemma ticks_rounds:
  assumes "round_start lp"
  shows "\<exists>lp'. ticks (n * 1106) e lp = Some lp' \<and> delivers WiFi (concat (replicate n (round_requests lp))) lp lp' \<and>
    round_start lp' \<and> sweep_env lp' = sweep_env lp"
proof (induction n)
  case 0
  then show ?case using assms by (simp add: ticks_simps delivers.simps)
next
  case (Suc n)
  then obtain lp1 where 1: "ticks (n * 1106) e lp = Some lp1" "delivers WiFi (concat (replicate n (round_requests lp))) lp lp1"
    "round_start lp1" "sweep_env lp1 = sweep_env lp" by blast
  obtain lp2 where 2: "ticks (506 + 600) e lp1 = Some lp2" "delivers WiFi (round_requests lp1) lp1 lp2"
    "sweep_env lp2 = sweep_env lp1" "round_start lp2" using ticks_round_rest [OF 1(3) le_refl] by blast
  have "ticks (n * 1106 + (506 + 600)) e lp = Some lp2" unfolding ticks_add [of "n * 1106"] 1(1) using 2(1) by simp
  moreover have "Suc n * 1106 = n * 1106 + (506 + 600)" by simp
  moreover have "delivers WiFi (concat (replicate (Suc n) (round_requests lp))) lp lp2"
    using delivers_append [OF 1(2) 2(2)] round_requests_cong [OF 1(4)]
    by (simp add: replicate_append_same [symmetric] del: delivers.simps)
  ultimately show ?case using 2(3,4) 1(4) by metis
qed

text \<open>What has been asked at a tick of the rest behind the round \<open>n\<close>.\<close>

lemma ticks_asked:
  assumes "round_start lp" "k \<le> 600"
  shows "\<exists>lp'. ticks (n * 1106 + 506 + k) e lp = Some lp' \<and> delivers WiFi (concat (replicate (Suc n) (round_requests lp))) lp lp'"
proof -
  obtain lp1 where 1: "ticks (n * 1106) e lp = Some lp1" "delivers WiFi (concat (replicate n (round_requests lp))) lp lp1"
    "round_start lp1" "sweep_env lp1 = sweep_env lp" using ticks_rounds [OF assms(1)] by blast
  obtain lp2 where 2: "ticks (506 + k) e lp1 = Some lp2" "delivers WiFi (round_requests lp1) lp1 lp2"
    using ticks_round_rest [OF 1(3) assms(2)] by blast
  have "ticks (n * 1106 + (506 + k)) e lp = Some lp2" unfolding ticks_add [of "n * 1106"] 1(1) using 2(1) by simp
  moreover have "delivers WiFi (concat (replicate (Suc n) (round_requests lp))) lp lp2"
    using delivers_append [OF 1(2) 2(2)] round_requests_cong [OF 1(4)]
    by (simp add: replicate_append_same [symmetric] del: delivers.simps)
  ultimately show ?thesis by (metis add.assoc)
qed

end
