(* ===== verification/Example.thy ===== *)
theory Example
  imports Init Lan_Client Discovery
begin

text \<open>
  A concrete set-up for the witnesses of the properties: a Wi-Fi adapter with the address
  \<^verbatim>\<open>192.168.1.10/24\<close>, an overlay adapter with the address \<^verbatim>\<open>10.147.17.5/24\<close>, and a console with the
  address \<^verbatim>\<open>10.147.17.77\<close>.  All system calls succeed.
\<close>

section \<open>The system\<close>

definition demo_udp :: udp_calls where
  "demo_udp = \<lparr>calloc_ok = True, udp_init = None, udp_bind = (\<lambda>_ _. None), udp_recv_start = (\<lambda>_. None)\<rparr>"

definition demo_env :: env where
  "demo_env = \<lparr>clk = \<lparr>now = 1000, hrtime = 5\<rparr>,
     options = (default_options None)\<lparr>netif := Some ''wlan0'', zerotier_if := Some ''zt0''\<rparr>,
     tx_rc = (\<lambda>_ _ _ _. 0), server_rc = (\<lambda>_ _. 0), udp_socks = demo_udp, flush_oks = (\<lambda>_. True), ndebug = False\<rparr>"

definition demo_dev :: "string \<Rightarrow> mac \<Rightarrow> ip4 \<Rightarrow> pcap_dev" where
  "demo_dev n m ip = \<lparr>dev_name = n, addresses = [(True, ip, Some (IP4 255 255 255 0))], create_ok = True,
     set_timeout = 0, set_snaplen = 0, set_promisc = 0, activate = 0, datalink_ether = True, dev_mac = Some m,
     filter_ok = (\<lambda>_. True), immediate_ok = True, loop_init = 0\<rparr>"

definition wlan_mac :: mac where "wlan_mac = MAC 2 0 0 0 0 1"
definition zt_mac :: mac where "zt_mac = MAC 2 0 0 0 0 2"
definition console_mac :: mac where "console_mac = MAC 0x98 0xb6 0xe9 0 0 1"
definition console_ip :: ip4 where "console_ip = IP4 10 147 17 77"

definition demo_devs :: "pcap_dev list" where
  "demo_devs = [demo_dev ''wlan0'' wlan_mac (IP4 192 168 1 10), demo_dev ''zt0'' zt_mac (IP4 10 147 17 5)]"

definition demo_calls :: init_calls where
  "demo_calls = \<lparr>windows = False, wifi_devs = Some demo_devs, zerotier_devs = Some demo_devs, resolve = (\<lambda>_ _. None),
     stack_bytes = [], gateway_init_rc = 0, guard_alloc = True, init_socks = (\<lambda>_. demo_udp),
     open_dead_ok = True, file_ok = (\<lambda>_. True), timer_init_rc = 0, timer_start_rc = 0\<rparr>"

section \<open>The relay\<close>

definition zero_ctx :: packet_ctx where
  "zero_ctx = \<lparr>buffer_len = 0, ctx_ip = NONE_IP, subnet_net = NONE_IP, subnet_mask = NONE_IP, ctx_mac = None,
     identification = 0, arp_table = [], arp_ttl = 0, upload_byte = 0, download_byte = 0, upload_packet = 0,
     download_packet = 0\<rparr>"

definition zero_client :: lan_client where
  "zero_client = \<lparr>pmtu = 0, broadcast = False, next_real_broadcast = False, frag_id = 0, local_id = 0,
     frags = replicate LC_FRAG_COUNT no_fragment, username = None, key = replicate 20 0, lc_upload_byte = 0,
     lc_download_byte = 0, lc_upload_packet = 0, lc_download_packet = 0\<rparr>"

text \<open>The static \<^verbatim>\<open>struct lan_play\<close> before \<^verbatim>\<open>lan_play_init\<close>.\<close>

definition zero_relay :: lan_play where
  "zero_relay = \<lparr>ctx = zero_ctx, pcap = no_pcap, zerotier_pcap = no_pcap, ingress_zerotier = False,
     counters = no_counters, switch_discovery_active = False, switch_discovery_host = 0,
     switch_discovery_pause_ticks = 0, switch_discovery_wifi_phase = False, wifi_mac = NONE_MAC,
     wifi_ip = NONE_IP, wifi_netmask = NONE_IP, wifi_subnet = NONE_IP, wifi_broadcast = NONE_IP,
     wifi_subnet_known = False, zerotier_mac = NONE_MAC, zerotier_ip = NONE_IP, zerotier_netmask = NONE_IP,
     zerotier_broadcast_ip = NONE_IP, switch_mac = NONE_MAC, switch_ip = NONE_IP, switch_seen = False,
     switch_mac_confirmed = False, switch_nintendo_oui = False, switch_dhcp = False, switch_mac_conflicts = 0,
     warned_broadcast_mismatch = False, warned_direct_switch_delivery = False, dhcp_state = dhcp_server_init,
     dhcp_ip_id = 0, zerotier_neighbors = zero_ctx, udp_guard = None, wifi_delivery_probe_sent = False,
     wifi_delivery_probe_replied = False, wifi_delivery_probe_payload = replicate 16 0,
     wifi_delivery_probe_ip = NONE_IP, wifi_delivery_probe_mac = NONE_MAC, capture_state = no_captures,
     client = zero_client, out = []\<rparr>"

lemma zero_relay_fresh:
  "captures_ok (capture_state zero_relay)" "\<forall>c \<in> set (caps (capture_state zero_relay)). \<not> opened c"
  "\<not> switch_seen zero_relay"
  by (simp add: zero_relay_def captures_ok_none, simp_all add: zero_relay_def no_captures_def no_capture_def)

definition demo_handle :: "mac \<Rightarrow> ip4 \<Rightarrow> uv_pcap" where
  "demo_handle m ip = \<lparr>interfaces = [\<lparr>if_mac = m, if_ipv4 = ip, if_netmask = IP4 255 255 255 0, has_ipv4 = True,
     delivered = 0, send_failures = 0, read_failures = 0\<rparr>], if_map = (\<lambda>_. None)\<rparr>"

text \<open>The relay that \<^verbatim>\<open>lan_play_init\<close> leaves behind: discovery is running, no console is known.\<close>

definition demo_started :: lan_play where
  "demo_started = zero_relay\<lparr>
     ctx := packet_init 2048 (IP4 10 147 17 1) (IP4 10 147 17 0) (IP4 255 255 255 0) 30,
     pcap := demo_handle wlan_mac (IP4 192 168 1 10), zerotier_pcap := demo_handle zt_mac (IP4 10 147 17 5),
     wifi_mac := wlan_mac, wifi_ip := IP4 192 168 1 10, wifi_netmask := IP4 255 255 255 0,
     wifi_subnet := IP4 192 168 1 0, wifi_broadcast := IP4 192 168 1 255, wifi_subnet_known := True,
     zerotier_mac := zt_mac, zerotier_ip := IP4 10 147 17 5, zerotier_netmask := IP4 255 255 255 0,
     zerotier_broadcast_ip := IP4 10 147 17 255,
     zerotier_neighbors := zero_ctx\<lparr>arp_table := arp_list_init, arp_ttl := 30\<rparr>,
     udp_guard := Some \<lparr>address = IP4 10 147 17 5, ports = [49155, 49154, 49153, 49152, 35000], port_count = 5,
       received = 0\<rparr>,
     switch_discovery_host := 2, switch_discovery_wifi_phase := True, switch_discovery_active := True\<rparr>"

lemma demo_addresses:
  "str2ip ''10.147.17.0'' = Some (IP4 10 147 17 0)" "str2ip ''255.255.255.0'' = Some (IP4 255 255 255 0)"
  "str2ip ''10.147.17.1'' = Some (IP4 10 147 17 1)"
  by code_simp+

lemma demo_numbers: "atoi ''wlan0'' = 0" "atoi ''zt0'' = 0"
  by code_simp+

lemma demo_opens:
  "uv_pcap_init False (Some demo_devs) (Some ''wlan0'') s = Some (demo_handle wlan_mac (IP4 192 168 1 10))"
  "uv_pcap_init False (Some demo_devs) (Some ''zt0'') s = Some (demo_handle zt_mac (IP4 10 147 17 5))"
  by (simp_all add: uv_pcap_init_def demo_devs_def demo_dev_def open_named_def demo_numbers capture_names_equal_def
      uv_pcap_open_live_def demo_handle_def wlan_mac_def zt_mac_def NONE_MAC_def)

lemma demo_init: "lan_play_init demo_env demo_calls zero_relay = Inr demo_started"
  unfolding lan_play_init_def Let_def
  by (simp add: demo_env_def demo_calls_def default_options_def init_login_def bindE_def orE_def init_subnet_def
      init_gateway_ip_def demo_addresses init_pcap_def init_zerotier_pcap_def demo_opens init_wifi_def
      init_zerotier_def uv_pcap_get_mac_def uv_pcap_get_ipv4_def demo_started_def zero_relay_def demo_handle_def
      wlan_mac_def zt_mac_def NONE_MAC_def init_endpoints_def native_udp_guard_create_def
      native_udp_guard_reserve_def init_captures_def open_captures_def init_discovery_def zero_client_def
      demo_udp_def)

text \<open>The same relay once it has heard the console.\<close>

definition demo_relay :: lan_play where
  "demo_relay = demo_started\<lparr>switch_mac := console_mac, switch_ip := console_ip, switch_seen := True,
     switch_mac_confirmed := True, switch_nintendo_oui := True\<rparr>"

lemmas demo_defs = demo_relay_def demo_started_def zero_relay_def demo_handle_def wlan_mac_def zt_mac_def
  console_mac_def console_ip_def

lemma demo_started_ok: "run_ok demo_started"
  by (simp add: run_ok_def relay_ok_def io_ok_def all_sides link_of_def hw_addr_def link_up_def pcap_ok_def
      console_ok_def guard_opt_ok_def guard_ok_def captures_ok_none leases_ok_init packet_init_def demo_defs)

lemma demo_relay_ok: "run_ok demo_relay"
proof -
  have "console_ok demo_relay"
    unfolding console_ok_def console_address_def wifi_dest_def dhcp_candidate_def is_zerotier_destination_def
      ip_in_subnet_def by (simp add: demo_defs packet_init_def NONE_IP_def)
  then show ?thesis using demo_started_ok
    by (simp add: run_ok_def relay_ok_def io_ok_def all_sides link_of_def hw_addr_def demo_relay_def)
qed

section \<open>Frames\<close>

text \<open>A UDP packet of the game from port 35000 to port 35000, without payload.\<close>

definition game_datagram :: "ip4 \<Rightarrow> ip4 \<Rightarrow> byte list" where
  "game_datagram s d = [0x45, 0, 0, 28, 0, 1, 0, 0, 64, 17, 0, 0] @ ip_bytes s @ ip_bytes d @
     [0x88, 0xb8, 0x88, 0xb8, 0, 8, 0, 0]"

text \<open>The console's broadcast, and a peer's packet for the console.\<close>

definition game_broadcast :: "byte list" where
  "game_broadcast = ether_bytes BROADCAST_MAC console_mac ETHER_TYPE_IPV4
     (game_datagram console_ip (IP4 10 147 17 255))"

definition peer_frame :: "byte list" where
  "peer_frame = ether_bytes zt_mac (MAC 2 0 0 0 0 3) ETHER_TYPE_IPV4
     (game_datagram (IP4 10 147 17 9) (IP4 10 147 17 5))"

text \<open>The console tells a peer that a port is closed.\<close>

definition unreachable_frame :: "byte list" where
  "unreachable_frame = ether_bytes wlan_mac console_mac ETHER_TYPE_IPV4
     ([0x45, 0, 0, 28, 0, 1, 0, 0, 64, 1, 0, 0] @ ip_bytes console_ip @ ip_bytes (IP4 10 147 17 9) @
      [3, 3, 0, 0, 0, 0, 0, 0])"

text \<open>A computer of the Wi-Fi network talks to the internet.\<close>

definition stranger_frame :: "byte list" where
  "stranger_frame = ether_bytes wlan_mac (MAC 2 0 0 0 0 9) ETHER_TYPE_IPV4
     (game_datagram (IP4 192 168 1 20) (IP4 8 8 8 8))"

lemmas frame_defs = stranger_frame_def unreachable_frame_def game_broadcast_def peer_frame_def game_datagram_def ether_bytes_def net16_def hi8_def lo8_def
  BROADCAST_MAC_def

lemma game_broadcast_bytes:
  "game_broadcast = [255, 255, 255, 255, 255, 255, 0x98, 0xb6, 0xe9, 0, 0, 1, 8, 0, 0x45, 0, 0, 28, 0, 1, 0, 0, 64, 17,
     0, 0, 10, 147, 17, 77, 10, 147, 17, 255, 0x88, 0xb8, 0x88, 0xb8, 0, 8, 0, 0]"
  by (simp add: frame_defs demo_defs)

lemma peer_frame_bytes:
  "peer_frame = [2, 0, 0, 0, 0, 2, 2, 0, 0, 0, 0, 3, 8, 0, 0x45, 0, 0, 28, 0, 1, 0, 0, 64, 17,
     0, 0, 10, 147, 17, 9, 10, 147, 17, 5, 0x88, 0xb8, 0x88, 0xb8, 0, 8, 0, 0]"
  by (simp add: frame_defs demo_defs)

lemma unreachable_frame_bytes:
  "unreachable_frame = [2, 0, 0, 0, 0, 1, 0x98, 0xb6, 0xe9, 0, 0, 1, 8, 0, 0x45, 0, 0, 28, 0, 1, 0, 0, 64, 1,
     0, 0, 10, 147, 17, 77, 10, 147, 17, 9, 3, 3, 0, 0, 0, 0, 0, 0]"
  by (simp add: frame_defs demo_defs)

lemma stranger_frame_bytes:
  "stranger_frame = [2, 0, 0, 0, 0, 1, 2, 0, 0, 0, 0, 9, 8, 0, 0x45, 0, 0, 28, 0, 1, 0, 0, 64, 17,
     0, 0, 192, 168, 1, 20, 8, 8, 8, 8, 0x88, 0xb8, 0x88, 0xb8, 0, 8, 0, 0]"
  by (simp add: frame_defs demo_defs)

lemmas header_defs = be16_def header_len_def ip_at_def mac_at_def ip_version_def

lemma demo_forwardable: "wifi_forwardable demo_env game_broadcast demo_relay"
  unfolding wifi_forwardable_def wifi_relayable_def overlay_target_def is_zerotier_destination_def
    is_nintendo_lan_broadcast_def ipv4_valid_def port_unreachable_def wifi_port_ok_def reserve_result_def
    first_udp_fragment_def udp_source_def native_udp_guard_reserve_def game_broadcast_bytes
  by (simp add: demo_defs header_defs)

lemma demo_console_frame: "console_frame demo_env game_broadcast demo_relay"
  unfolding console_frame_def game_broadcast_bytes
  by (simp add: demo_defs header_defs NONE_MAC_def demo_env_def default_options_def)

lemma demo_peer_frame: "zerotier_forwardable peer_frame demo_relay"
  unfolding zerotier_forwardable_def zerotier_relayable_def ip_packet_def ipv4_valid_def peer_frame_bytes
  by (simp add: demo_defs header_defs)

text \<open>The first tick of the discovery timer.\<close>

lemma demo_tick: "\<exists>f r lp'. relay_step demo_env DiscoveryTick demo_started = Some lp' \<and> out lp' = [Tx WiFi 0 f r]"
proof -
  have "io_ok demo_started" using demo_started_ok by (simp add: run_ok_def relay_ok_def)
  moreover have "sweeping demo_started" "\<not> sweep_self demo_started"
    by (simp_all add: sweeping_def sweep_self_def sweep_target_def sweep_wifi_def demo_started_def zero_relay_def)
  ultimately obtain f r lp1 where
    "switch_discovery_timer_cb demo_env demo_started = Some (sweep_next (sweep_wifi demo_started) lp1)"
    "sent WiFi f r demo_started lp1" using timer_probe [of demo_started demo_env] by blast
  moreover have "out demo_started = []" by (simp add: demo_started_def zero_relay_def)
  ultimately show ?thesis by (simp add: sent_def sweep_next_keeps(2))
qed

text \<open>A second relay on the same overlay.\<close>

definition peer_relay :: lan_play where
  "peer_relay = demo_relay\<lparr>zerotier_mac := MAC 2 0 0 0 0 3, zerotier_ip := IP4 10 147 17 9,
     zerotier_pcap := demo_handle (MAC 2 0 0 0 0 3) (IP4 10 147 17 9)\<rparr>"

lemma peer_relay_ok: "run_ok peer_relay"
proof -
  have "console_ok peer_relay"
    unfolding console_ok_def console_address_def wifi_dest_def dhcp_candidate_def is_zerotier_destination_def
      ip_in_subnet_def by (simp add: demo_defs peer_relay_def packet_init_def NONE_IP_def)
  moreover have "link_up (zerotier_pcap peer_relay) (zerotier_mac peer_relay)"
    by (simp add: peer_relay_def demo_handle_def link_up_def pcap_ok_def)
  ultimately show ?thesis using demo_relay_ok
    by (simp add: run_ok_def relay_ok_def io_ok_def all_sides link_of_def hw_addr_def peer_relay_def)
qed

end
