(* ===== verification/Slp_Server.thy ===== *)
theory Slp_Server
  imports Address Sha1
begin

text \<open>
  The relay server, \<^verbatim>\<open>server/src/udpserver.ts\<close>, with the login providers of \<^verbatim>\<open>server/src/auth/\<close> and the command
  line of \<^verbatim>\<open>server/src/main.ts\<close>.  A \<^verbatim>\<open>Peer\<close> is an object that the two maps and the suspended \<^verbatim>\<open>async\<close> calls share, so
  it lives in a store, \<open>srv_peers\<close>, and is named by its index there.  A JavaScript \<^verbatim>\<open>Map\<close> is an association list in
  insertion order.  An \<^verbatim>\<open>async\<close> method runs up to its \<^verbatim>\<open>await\<close>; what it waits for is recorded in \<open>srv_filling\<close> and
  \<open>srv_verifying\<close>, and the rest of the method is a handler of its own.
\<close>

section \<open>Strings and maps of the language\<close>

type_synonym ustring = "nat list"

text \<open>
  A text is its code points.  \<^verbatim>\<open>buf.toString()\<close> decodes UTF-8; a sequence that is not well formed becomes the
  replacement character, and the byte that broke it is read again.
\<close>

definition utf8_first :: "byte \<Rightarrow> (nat \<times> nat \<times> byte \<times> byte) + nat" where
  "utf8_first b =
     (if b < 0x80 then Inr (unat b)
      else if 0xC2 \<le> b \<and> b \<le> 0xDF then Inl (1, unat (b AND 0x1F), 0x80, 0xBF)
      else if 0xE0 \<le> b \<and> b \<le> 0xEF
        then Inl (2, unat (b AND 0x0F), if b = 0xE0 then 0xA0 else 0x80, if b = 0xED then 0x9F else 0xBF)
      else if 0xF0 \<le> b \<and> b \<le> 0xF4
        then Inl (3, unat (b AND 0x07), if b = 0xF0 then 0x90 else 0x80, if b = 0xF4 then 0x8F else 0xBF)
      else Inr 0xFFFD)"

text \<open>The open sequence: how many bytes it still needs, its bits so far, and the range of its next byte.\<close>

fun utf8_run :: "(nat \<times> nat \<times> byte \<times> byte) option \<Rightarrow> byte list \<Rightarrow> ustring" where
  "utf8_run None [] = []"
| "utf8_run (Some _) [] = [0xFFFD]"
| "utf8_run None (b # bs) =
     (case utf8_first b of Inr c \<Rightarrow> c # utf8_run None bs | Inl q \<Rightarrow> utf8_run (Some q) bs)"
| "utf8_run (Some (n, acc, lo, hi)) (b # bs) =
     (if b < lo \<or> hi < b
      then 0xFFFD # (case utf8_first b of Inr c \<Rightarrow> c # utf8_run None bs | Inl q \<Rightarrow> utf8_run (Some q) bs)
      else if n \<le> 1 then (acc * 64 + unat (b AND 0x3F)) # utf8_run None bs
      else utf8_run (Some (n - 1, acc * 64 + unat (b AND 0x3F), 0x80, 0xBF)) bs)"

definition utf8_decode :: "byte list \<Rightarrow> ustring" where
  "utf8_decode bs = utf8_run None bs"

definition utf8_char :: "nat \<Rightarrow> byte list" where
  "utf8_char c =
     (if c < 0x80 then [word_of_nat c]
      else if c < 0x800 then [word_of_nat (0xC0 + c div 64), word_of_nat (0x80 + c mod 64)]
      else if c < 0x10000
        then [word_of_nat (0xE0 + c div 4096), word_of_nat (0x80 + c div 64 mod 64), word_of_nat (0x80 + c mod 64)]
      else [word_of_nat (0xF0 + c div 262144), word_of_nat (0x80 + c div 4096 mod 64),
            word_of_nat (0x80 + c div 64 mod 64), word_of_nat (0x80 + c mod 64)])"

definition utf8_encode :: "ustring \<Rightarrow> byte list" where
  "utf8_encode t = concat (map utf8_char t)"

definition ascii :: "string \<Rightarrow> ustring" where
  "ascii s = map of_char s"

text \<open>\<^verbatim>\<open>Buffer.from(s, 'hex')\<close>: pairs of digits up to the first pair that is none.\<close>

definition hex_value :: "nat \<Rightarrow> nat option" where
  "hex_value c =
     (if 48 \<le> c \<and> c \<le> 57 then Some (c - 48)
      else if 97 \<le> c \<and> c \<le> 102 then Some (c - 87)
      else if 65 \<le> c \<and> c \<le> 70 then Some (c - 55)
      else None)"

fun from_hex :: "ustring \<Rightarrow> byte list" where
  "from_hex (a # b # t) =
     (case (hex_value a, hex_value b) of
        (Some x, Some y) \<Rightarrow> word_of_nat (16 * x + y) # from_hex t
      | _ \<Rightarrow> [])"
| "from_hex _ = []"

text \<open>\<^verbatim>\<open>map.set\<close>, \<^verbatim>\<open>map.get\<close> and \<^verbatim>\<open>map.delete\<close>.\<close>

fun js_set :: "'k \<Rightarrow> 'v \<Rightarrow> ('k \<times> 'v) list \<Rightarrow> ('k \<times> 'v) list" where
  "js_set k v [] = [(k, v)]"
| "js_set k v ((k', v') # m) = (if k' = k then (k, v) # m else (k', v') # js_set k v m)"

definition js_delete :: "'k \<Rightarrow> ('k \<times> 'v) list \<Rightarrow> ('k \<times> 'v) list" where
  "js_delete k m = filter (\<lambda>(k', _). k' \<noteq> k) m"

section \<open>Login providers\<close>

datatype json_value = JUndefined | JString ustring | JSha1 ustring | JOther ustring

datatype provider = CustomAuthProvider ustring "byte list" | JsonAuthProvider "(ustring \<times> json_value) list" | HttpAuthProvider

text \<open>
  The answer of the HTTP service: the request failed with a message, or the \<^verbatim>\<open>error\<close> and \<^verbatim>\<open>passwordSHA1\<close> of its body.
  A \<open>JOther\<close> is a value whose \<^verbatim>\<open>sha1\<close> is no string; taking it raises an error with the given message.
\<close>

datatype http_reply = HttpFailed ustring | HttpBody "ustring option" ustring

definition SHA1 :: "ustring + byte list \<Rightarrow> byte list" where
  "SHA1 data = std_sha1 (case data of Inl t \<Rightarrow> utf8_encode t | Inr b \<Rightarrow> b)"

definition new_CustomAuthProvider :: "ustring \<Rightarrow> ustring \<Rightarrow> provider" where
  "new_CustomAuthProvider name password = CustomAuthProvider name (SHA1 (Inl password))"

definition object_members :: "ustring list" where
  "object_members = map ascii [''constructor'', ''__defineGetter__'', ''__defineSetter__'', ''hasOwnProperty'',
     ''__lookupGetter__'', ''__lookupSetter__'', ''isPrototypeOf'', ''propertyIsEnumerable'', ''toString'', ''valueOf'',
     ''__proto__'', ''toLocaleString'']"

definition table_get :: "ustring \<Rightarrow> (ustring \<times> json_value) list \<Rightarrow> ustring \<Rightarrow> json_value" where
  "table_get member_error table name =
     (case map_of table name of
        Some v \<Rightarrow> v
      | None \<Rightarrow> if name \<in> set object_members then JOther member_error else JUndefined)"

text \<open>\<^verbatim>\<open>read\<close> empties the table, and fills it when the file has been read and parsed.\<close>

definition read_start :: "provider \<Rightarrow> provider" where
  "read_start p = (case p of JsonAuthProvider _ \<Rightarrow> JsonAuthProvider [] | _ \<Rightarrow> p)"

definition read_done :: "(ustring \<times> json_value) list option \<Rightarrow> provider \<Rightarrow> provider" where
  "read_done parsed p =
     (case (p, parsed) of
        (JsonAuthProvider _, Some table) \<Rightarrow> JsonAuthProvider (js_set (ascii ''$schema'') JUndefined table)
      | _ \<Rightarrow> p)"

definition getUserPasswordSHA1 :: "http_reply \<Rightarrow> ustring \<Rightarrow> provider \<Rightarrow> ustring \<Rightarrow> ustring + byte list" where
  "getUserPasswordSHA1 reply member_error p name =
     (case p of
        CustomAuthProvider user k \<Rightarrow> if name \<noteq> user then Inl (ascii ''No such user'') else Inr k
      | JsonAuthProvider table \<Rightarrow>
          (case table_get member_error table name of
             JUndefined \<Rightarrow> Inl (ascii ''No such user'')
           | JString pw \<Rightarrow> Inr (SHA1 (Inl pw))
           | JSha1 hex \<Rightarrow> Inr (from_hex hex)
           | JOther e \<Rightarrow> Inl e)
      | HttpAuthProvider \<Rightarrow>
          (case reply of
             HttpFailed e \<Rightarrow> Inl e
           | HttpBody err hex \<Rightarrow>
               if err \<noteq> None \<and> err \<noteq> Some [] then Inl (ascii ''http auth: upstream error'') else Inr (from_hex hex)))"

definition verify :: "http_reply \<Rightarrow> ustring \<Rightarrow> provider \<Rightarrow> ustring \<Rightarrow> byte list \<Rightarrow> byte list \<Rightarrow> ustring + bool" where
  "verify reply member_error p name challenge response =
     (case getUserPasswordSHA1 reply member_error p name of
        Inl e \<Rightarrow> Inl e
      | Inr k \<Rightarrow> Inr (SHA1 (Inr (k @ challenge)) = response))"

section \<open>State\<close>

record rinfo =
  address :: string
  port :: nat

definition addr2str :: "rinfo \<Rightarrow> string" where
  "addr2str r = address r @ '':'' @ show_nat (port r)"

record peer =
  peer_rinfo :: rinfo
  peer_user :: "ustring option"
  peer_challenge :: "byte list option"

definition new_peer :: "rinfo \<Rightarrow> peer" where
  "new_peer r = \<lparr>peer_rinfo = r, peer_user = None, peer_challenge = None\<rparr>"

record cache_entry =
  expireAt :: int
  entry_peer :: nat

record slp_server =
  srv_peers :: "peer list"
  srv_manager :: "(string \<times> cache_entry) list"
  srv_ipCache :: "(int \<times> cache_entry) list"
  srv_upload :: int
  srv_download :: int
  srv_provider :: "provider option"
  srv_filling :: "nat list"
  srv_verifying :: "(nat \<times> ustring \<times> byte list) list"
  srv_closed :: bool
  srv_out :: "(rinfo \<times> byte list) list"

definition new_server :: "provider option \<Rightarrow> slp_server" where
  "new_server p = \<lparr>srv_peers = [], srv_manager = [], srv_ipCache = [], srv_upload = 0, srv_download = 0,
     srv_provider = p, srv_filling = [], srv_verifying = [], srv_closed = False, srv_out = []\<rparr>"

abbreviation (input) srv_Timeout :: int where "srv_Timeout \<equiv> 30 * 1000"

abbreviation (input) Keepalive :: byte where "Keepalive \<equiv> 0"
abbreviation (input) Ipv4 :: byte where "Ipv4 \<equiv> 1"
abbreviation (input) Ping :: byte where "Ping \<equiv> 2"
abbreviation (input) Ipv4Frag :: byte where "Ipv4Frag \<equiv> 3"
abbreviation (input) AuthMe :: byte where "AuthMe \<equiv> 4"
abbreviation (input) Info :: byte where "Info \<equiv> 0x10"

definition clearCacheItem :: "int \<Rightarrow> ('k \<times> cache_entry) list \<Rightarrow> ('k \<times> cache_entry) list" where
  "clearCacheItem now m = filter (\<lambda>(_, i). \<not> expireAt i < now) m"

section \<open>The peers\<close>

definition manager_delete :: "rinfo \<Rightarrow> slp_server \<Rightarrow> slp_server" where
  "manager_delete r s = s\<lparr>srv_manager := js_delete (addr2str r) (srv_manager s)\<rparr>"

definition manager_get :: "int \<Rightarrow> rinfo \<Rightarrow> slp_server \<Rightarrow> nat \<times> slp_server" where
  "manager_get now r s =
     (let k = addr2str r; e = now + srv_Timeout
      in case map_of (srv_manager s) k of
           None \<Rightarrow>
             (let p = length (srv_peers s)
              in (p, s\<lparr>srv_peers := srv_peers s @ [new_peer r],
                       srv_manager := js_set k \<lparr>expireAt = e, entry_peer = p\<rparr> (srv_manager s)\<rparr>))
         | Some i \<Rightarrow> (entry_peer i, s\<lparr>srv_manager := js_set k (i\<lparr>expireAt := e\<rparr>) (srv_manager s)\<rparr>))"

definition getLogin :: "slp_server \<Rightarrow> nat" where
  "getLogin s = length (filter (\<lambda>(_, i). peer_user (srv_peers s ! entry_peer i) \<noteq> None) (srv_manager s))"

definition manager_all :: "rinfo \<Rightarrow> slp_server \<Rightarrow> nat list" where
  "manager_all except s = map (entry_peer \<circ> snd) (filter (\<lambda>(k, _). addr2str except \<noteq> k) (srv_manager s))"

definition getClientSize :: "slp_server \<Rightarrow> nat" where
  "getClientSize s = length (srv_manager s)"

definition set_peer :: "nat \<Rightarrow> (peer \<Rightarrow> peer) \<Rightarrow> slp_server \<Rightarrow> slp_server" where
  "set_peer p f s = s\<lparr>srv_peers := (srv_peers s)[p := f (srv_peers s ! p)]\<rparr>"

section \<open>Sending\<close>

definition sendToRaw :: "rinfo \<Rightarrow> byte list \<Rightarrow> slp_server \<Rightarrow> slp_server" where
  "sendToRaw r msg s = s\<lparr>srv_upload := srv_upload s + int (length msg), srv_out := srv_out s @ [(r, msg)]\<rparr>"

definition sendTo :: "nat \<Rightarrow> byte \<Rightarrow> byte list \<Rightarrow> slp_server \<Rightarrow> slp_server" where
  "sendTo p type payload s = sendToRaw (peer_rinfo (srv_peers s ! p)) (type # payload) s"

definition sendBroadcast :: "nat \<Rightarrow> byte \<Rightarrow> byte list \<Rightarrow> slp_server \<Rightarrow> slp_server" where
  "sendBroadcast except type payload s =
     fold (\<lambda>p. sendTo p type payload) (manager_all (peer_rinfo (srv_peers s ! except)) s) s"

definition sendInfo :: "nat \<Rightarrow> ustring \<Rightarrow> slp_server \<Rightarrow> slp_server" where
  "sendInfo p info s = sendTo p Info (utf8_encode info) s"

section \<open>Handlers\<close>

definition readInt32BE :: "byte list \<Rightarrow> nat \<Rightarrow> int option" where
  "readInt32BE p i = map_option (\<lambda>a. sint (ipv4_to_u32 a)) (CPY_IPV4 p i)"

text \<open>The two IPv4 handlers differ in the offsets of the addresses and in the type of what they send.\<close>

definition forward_ipv4 :: "byte \<Rightarrow> nat \<Rightarrow> nat \<Rightarrow> int \<Rightarrow> nat \<Rightarrow> byte list \<Rightarrow> slp_server \<Rightarrow> slp_server option" where
  "forward_ipv4 type off_src off_dst now p payload s =
     (if length payload \<le> 20 then Some s
      else do {
        src \<leftarrow> readInt32BE payload off_src;
        dst \<leftarrow> readInt32BE payload off_dst;
        let s = s\<lparr>srv_ipCache := js_set src \<lparr>expireAt = now + srv_Timeout, entry_peer = p\<rparr> (srv_ipCache s)\<rparr>;
        Some (case map_of (srv_ipCache s) dst of
                Some i \<Rightarrow> sendTo (entry_peer i) type payload s
              | None \<Rightarrow> sendBroadcast p type payload s) })"

definition onIpv4 :: "int \<Rightarrow> nat \<Rightarrow> byte list \<Rightarrow> slp_server \<Rightarrow> slp_server option" where
  "onIpv4 = forward_ipv4 Ipv4 12 16"

definition onIpv4Frag :: "int \<Rightarrow> nat \<Rightarrow> byte list \<Rightarrow> slp_server \<Rightarrow> slp_server option" where
  "onIpv4Frag = forward_ipv4 Ipv4Frag 0 4"

definition onPing :: "rinfo \<Rightarrow> byte list \<Rightarrow> slp_server \<Rightarrow> slp_server" where
  "onPing r msg s = sendToRaw r (take 4 msg) s"

definition onPacket :: "int \<Rightarrow> nat \<Rightarrow> byte \<Rightarrow> byte list \<Rightarrow> slp_server \<Rightarrow> slp_server option" where
  "onPacket now p type payload s =
     (if type = Ipv4 then onIpv4 now p payload s
      else if type = Ipv4Frag then onIpv4Frag now p payload s
      else Some s)"

text \<open>
  \<^verbatim>\<open>onNeedAuth\<close> up to its \<^verbatim>\<open>await\<close>: the first message of a peer allocates its challenge and has it filled, an answer to
  the challenge is handed to the provider.
\<close>

definition onNeedAuth :: "nat \<Rightarrow> byte \<Rightarrow> byte list \<Rightarrow> slp_server \<Rightarrow> slp_server" where
  "onNeedAuth p type payload s =
     (let ch = peer_challenge (srv_peers s ! p)
      in if type = AuthMe
         then (if ch = None \<or> length payload \<le> 20 then s
               else s\<lparr>srv_verifying := srv_verifying s @ [(p, utf8_decode (drop 20 payload), take 20 payload)]\<rparr>)
         else (case ch of
                 None \<Rightarrow> (set_peer p (\<lambda>x. x\<lparr>peer_challenge := Some (0xFF # replicate 64 0)\<rparr>) s)
                           \<lparr>srv_filling := srv_filling s @ [p]\<rparr>
               | Some c \<Rightarrow> if c ! 0 = 0xFF then s else sendTo p AuthMe c s))"

text \<open>The rest of it after \<^verbatim>\<open>randomFill\<close> has delivered 64 bytes, and after the provider has decided.\<close>

definition random_filled :: "nat \<Rightarrow> byte list \<Rightarrow> slp_server \<Rightarrow> slp_server" where
  "random_filled p bytes s =
     sendTo p AuthMe (0 # bytes) (set_peer p (\<lambda>x. x\<lparr>peer_challenge := Some (0 # bytes)\<rparr>) s)"

definition login_error :: "ustring \<Rightarrow> ustring" where
  "login_error msg = ascii ''Error when login: '' @ msg"

definition login_decided :: "nat \<Rightarrow> ustring \<Rightarrow> ustring + bool \<Rightarrow> slp_server \<Rightarrow> slp_server" where
  "login_decided p name result s =
     (case result of
        Inr True \<Rightarrow> set_peer p (\<lambda>x. x\<lparr>peer_user := Some name\<rparr>) s
      | Inr False \<Rightarrow> sendInfo p (login_error (ascii ''Wrong password'')) (sendInfo p (login_error (ascii ''Wrong password'')) s)
      | Inl e \<Rightarrow> sendInfo p (login_error e) s)"

definition parseHead :: "byte \<Rightarrow> byte \<times> bool" where
  "parseHead firstByte = (firstByte AND 0x7f, firstByte AND 0x80 \<noteq> 0)"

definition onMessage :: "int \<Rightarrow> byte list \<Rightarrow> rinfo \<Rightarrow> slp_server \<Rightarrow> slp_server option" where
  "onMessage now msg r s =
     (case msg of
        [] \<Rightarrow> Some s
      | b # payload \<Rightarrow>
          (let s = s\<lparr>srv_download := srv_download s + int (length msg)\<rparr>; (type, isEncrypted) = parseHead b
           in if type = Ping \<and> \<not> isEncrypted then Some (onPing r msg s)
              else (let (p, s) = manager_get now r s
                    in if srv_provider s \<noteq> None \<and> peer_user (srv_peers s ! p) = None
                       then Some (onNeedAuth p type payload s)
                       else onPacket now p type payload s)))"

definition srv_clearExpire :: "int \<Rightarrow> slp_server \<Rightarrow> slp_server" where
  "srv_clearExpire now s = s\<lparr>srv_manager := clearCacheItem now (srv_manager s), srv_ipCache := clearCacheItem now (srv_ipCache s)\<rparr>"

definition srv_interval :: "int \<Rightarrow> slp_server \<Rightarrow> slp_server" where
  "srv_interval now s = srv_clearExpire now (s\<lparr>srv_upload := 0, srv_download := 0\<rparr>)"

definition onError :: "slp_server \<Rightarrow> slp_server" where
  "onError s = s\<lparr>srv_closed := True\<rparr>"

definition drop_nth :: "nat \<Rightarrow> 'a list \<Rightarrow> 'a list" where
  "drop_nth i xs = take i xs @ drop (Suc i) xs"

section \<open>Steps\<close>

text \<open>
  What can happen next, in any order: a datagram arrives, a challenge has been filled, a login is decided by the
  provider or by the timeout of five seconds, a send reports its failure, the timer of one second fires, the table of
  users is read again, or the socket fails, after which the model stops.
\<close>

inductive srv_step :: "slp_server \<Rightarrow> slp_server \<Rightarrow> bool" where
  message: "\<not> srv_closed s \<Longrightarrow> onMessage now msg r s = Some s' \<Longrightarrow> srv_step s s'"
| filled: "\<not> srv_closed s \<Longrightarrow> i < length (srv_filling s) \<Longrightarrow> length bytes = 64 \<Longrightarrow>
     srv_step s (random_filled (srv_filling s ! i) bytes (s\<lparr>srv_filling := drop_nth i (srv_filling s)\<rparr>))"
| verified: "\<not> srv_closed s \<Longrightarrow> i < length (srv_verifying s) \<Longrightarrow> srv_verifying s ! i = (p, name, response) \<Longrightarrow>
     srv_provider s = Some a \<Longrightarrow> peer_challenge (srv_peers s ! p) = Some ch \<Longrightarrow>
     srv_step s (login_decided p name (verify reply member_error a name (drop 1 ch) response)
       (s\<lparr>srv_verifying := drop_nth i (srv_verifying s)\<rparr>))"
| timed_out: "\<not> srv_closed s \<Longrightarrow> i < length (srv_verifying s) \<Longrightarrow> srv_verifying s ! i = (p, name, response) \<Longrightarrow>
     srv_step s (login_decided p name (Inl (ascii ''Timeout'')) (s\<lparr>srv_verifying := drop_nth i (srv_verifying s)\<rparr>))"
| send_failed: "\<not> srv_closed s \<Longrightarrow> srv_step s (manager_delete r s)"
| interval: "\<not> srv_closed s \<Longrightarrow> srv_step s (srv_interval now s)"
| reading: "\<not> srv_closed s \<Longrightarrow> srv_step s (s\<lparr>srv_provider := map_option read_start (srv_provider s)\<rparr>)"
| read: "\<not> srv_closed s \<Longrightarrow> srv_step s (s\<lparr>srv_provider := map_option (read_done parsed) (srv_provider s)\<rparr>)"
| failed: "\<not> srv_closed s \<Longrightarrow> srv_step s (onError s)"

inductive_cases srv_stepE: "srv_step s s'"

inductive srv_reaches :: "slp_server \<Rightarrow> slp_server \<Rightarrow> bool" where
  srv_here: "srv_reaches s s"
| srv_next: "srv_reaches s t \<Longrightarrow> srv_step t u \<Longrightarrow> srv_reaches s u"

section \<open>The command line\<close>

text \<open>
  \<^verbatim>\<open>parseArgs2Obj\<close> reads the arguments in pairs; the value of an odd last key is undefined.  A plain value assigned to
  \<^verbatim>\<open>__proto__\<close> is dropped by the language.
\<close>

fun parseArgs2Obj :: "string list \<Rightarrow> (string \<times> string option) list \<Rightarrow> (string \<times> string option) list" where
  "parseArgs2Obj [] obj = obj"
| "parseArgs2Obj (k # args) obj =
     (let v = (case args of [] \<Rightarrow> None | x # _ \<Rightarrow> Some x);
          obj = (if take 2 k = ''--'' \<and> drop 2 k \<noteq> ''__proto__'' then js_set (drop 2 k) v obj else obj)
      in case args of [] \<Rightarrow> obj | _ # rest \<Rightarrow> parseArgs2Obj rest obj)"

fun js_split :: "char \<Rightarrow> string \<Rightarrow> string list" where
  "js_split c [] = [[]]"
| "js_split c (x # xs) =
     (if x = c then [] # js_split c xs
      else case js_split c xs of [] \<Rightarrow> [[x]] | y # ys \<Rightarrow> (x # y) # ys)"

definition truthy :: "string option \<Rightarrow> bool" where
  "truthy v \<longleftrightarrow> v \<noteq> None \<and> v \<noteq> Some []"

definition arg :: "string \<Rightarrow> (string \<times> string option) list \<Rightarrow> string option" where
  "arg k obj = Option.bind (map_of obj k) id"

datatype provider_choice = UseHttp string | UseJson string | UseSimple string "string option" | UseNone

definition choose_provider :: "string option \<Rightarrow> string list \<Rightarrow> provider_choice" where
  "choose_provider use_http_provider argv =
     (let obj = parseArgs2Obj argv []
      in if truthy use_http_provider then UseHttp (the use_http_provider)
         else if truthy (arg ''httpAuth'' obj) then UseHttp (the (arg ''httpAuth'' obj))
         else if truthy (arg ''jsonAuth'' obj) then UseJson (the (arg ''jsonAuth'' obj))
         else if truthy (arg ''simpleAuth'' obj)
         then (let parts = js_split CHR '':'' (the (arg ''simpleAuth'' obj))
               in UseSimple (parts ! 0) (if 1 < length parts then Some (parts ! 1) else None))
         else UseNone)"

definition port_argument :: "string list \<Rightarrow> string" where
  "port_argument argv = (let v = arg ''port'' (parseArgs2Obj argv []) in if truthy v then the v else ''11451'')"

section \<open>Maps and addresses\<close>

lemma map_of_js_set [simp]: "map_of (js_set k v m) = (map_of m)(k \<mapsto> v)"
  by (induction m) auto

lemma set_js_set: "x \<in> set (js_set k v m) \<Longrightarrow> x = (k, v) \<or> x \<in> set m"
  by (induction m) (auto split: if_splits)

lemma keys_js_set: "fst ` set (js_set k v m) = insert k (fst ` set m)"
  by (induction k v m rule: js_set.induct) (simp_all add: insert_commute)

lemma distinct_js_set [simp]: "distinct (map fst (js_set k v m)) = distinct (map fst m)"
proof (induction k v m rule: js_set.induct)
  case (2 k v k' v' m)
  then show ?case using keys_js_set [of k v m] by (simp add: image_set [symmetric])
qed simp

lemma distinct_filter_keys: "distinct (map fst m) \<Longrightarrow> distinct (map fst (filter P m))"
  by (induction m) auto

lemma show_nat_inject [simp]: "show_nat m = show_nat n \<longleftrightarrow> m = n"
  by (metis dec_val_show_nat of_nat_eq_iff)

lemma colon_free_show_nat: "CHR '':'' \<notin> set (show_nat n)"
  using show_nat_digits [of n] by (auto simp: is_digit_def)

lemma split_at_last:
  "x @ c # u = y @ c # v \<Longrightarrow> c \<notin> set u \<Longrightarrow> c \<notin> set v \<Longrightarrow> x = y \<and> u = v"
  by (induction x arbitrary: y) (auto simp: Cons_eq_append_conv append_eq_Cons_conv)

lemma addr2str_inject [simp]: "addr2str r = addr2str q \<longleftrightarrow> r = q"
  using split_at_last [of "address r" "CHR '':''" "show_nat (port r)" "address q" "show_nat (port q)"]
  by (auto simp: addr2str_def colon_free_show_nat intro: rinfo.equality)

lemma set_drop_nth: "x \<in> set (drop_nth i xs) \<Longrightarrow> x \<in> set xs"
  by (auto simp: drop_nth_def dest: in_set_takeD in_set_dropD)

section \<open>Frames of the handlers\<close>

lemma manager_get_fields [simp]:
  "srv_ipCache (snd (manager_get now r s)) = srv_ipCache s"
  "srv_provider (snd (manager_get now r s)) = srv_provider s"
  "srv_filling (snd (manager_get now r s)) = srv_filling s"
  "srv_verifying (snd (manager_get now r s)) = srv_verifying s"
  "srv_out (snd (manager_get now r s)) = srv_out s"
  "srv_closed (snd (manager_get now r s)) = srv_closed s"
  by (auto simp: manager_get_def Let_def split: option.splits)

lemma sendTo_fields [simp]:
  "srv_peers (sendTo p t d s) = srv_peers s"
  "srv_manager (sendTo p t d s) = srv_manager s"
  "srv_ipCache (sendTo p t d s) = srv_ipCache s"
  "srv_provider (sendTo p t d s) = srv_provider s"
  "srv_filling (sendTo p t d s) = srv_filling s"
  "srv_verifying (sendTo p t d s) = srv_verifying s"
  "srv_closed (sendTo p t d s) = srv_closed s"
  "srv_out (sendTo p t d s) = srv_out s @ [(peer_rinfo (srv_peers s ! p), t # d)]"
  by (simp_all add: sendTo_def sendToRaw_def)

lemma fold_sendTo_fields [simp]:
  "srv_peers (fold (\<lambda>p. sendTo p t d) ps s) = srv_peers s"
  "srv_manager (fold (\<lambda>p. sendTo p t d) ps s) = srv_manager s"
  "srv_ipCache (fold (\<lambda>p. sendTo p t d) ps s) = srv_ipCache s"
  "srv_provider (fold (\<lambda>p. sendTo p t d) ps s) = srv_provider s"
  "srv_filling (fold (\<lambda>p. sendTo p t d) ps s) = srv_filling s"
  "srv_verifying (fold (\<lambda>p. sendTo p t d) ps s) = srv_verifying s"
  "srv_closed (fold (\<lambda>p. sendTo p t d) ps s) = srv_closed s"
  "srv_out (fold (\<lambda>p. sendTo p t d) ps s) = srv_out s @ map (\<lambda>p. (peer_rinfo (srv_peers s ! p), t # d)) ps"
  by (induction ps arbitrary: s) simp_all

lemma sendInfo_fields [simp]:
  "srv_peers (sendInfo p i s) = srv_peers s"
  "srv_manager (sendInfo p i s) = srv_manager s"
  "srv_ipCache (sendInfo p i s) = srv_ipCache s"
  "srv_provider (sendInfo p i s) = srv_provider s"
  "srv_filling (sendInfo p i s) = srv_filling s"
  "srv_verifying (sendInfo p i s) = srv_verifying s"
  "srv_out (sendInfo p i s) = srv_out s @ [(peer_rinfo (srv_peers s ! p), Info # utf8_encode i)]"
  by (simp_all add: sendInfo_def)

lemma set_peer_fields [simp]:
  "srv_peers (set_peer p f s) = (srv_peers s)[p := f (srv_peers s ! p)]"
  "srv_manager (set_peer p f s) = srv_manager s"
  "srv_ipCache (set_peer p f s) = srv_ipCache s"
  "srv_provider (set_peer p f s) = srv_provider s"
  "srv_filling (set_peer p f s) = srv_filling s"
  "srv_verifying (set_peer p f s) = srv_verifying s"
  "srv_closed (set_peer p f s) = srv_closed s"
  "srv_out (set_peer p f s) = srv_out s"
  by (simp_all add: set_peer_def)

lemma readInt32BE_Some: "i + 4 \<le> length p \<Longrightarrow> readInt32BE p i = Some (sint (ipv4_to_u32 (ip_at p i)))"
  by (simp add: readInt32BE_def CPY_IPV4_Some)

text \<open>The routing decision: which peers a packet from \<open>p\<close> to the address \<open>dst\<close> goes to.\<close>

definition routed :: "nat \<Rightarrow> int \<Rightarrow> int \<Rightarrow> slp_server \<Rightarrow> nat list" where
  "routed p src dst s =
     (if dst = src then [p]
      else case map_of (srv_ipCache s) dst of
             Some i \<Rightarrow> [entry_peer i]
           | None \<Rightarrow> manager_all (peer_rinfo (srv_peers s ! p)) s)"

lemma forward_ipv4_routes:
  assumes "20 < length payload" "off_src + 4 \<le> 20" "off_dst + 4 \<le> 20"
  shows "\<exists>s'. forward_ipv4 t off_src off_dst now p payload s = Some s' \<and>
    srv_peers s' = srv_peers s \<and> srv_manager s' = srv_manager s \<and> srv_provider s' = srv_provider s \<and>
    srv_filling s' = srv_filling s \<and> srv_verifying s' = srv_verifying s \<and> srv_closed s' = srv_closed s \<and>
    srv_ipCache s' = js_set (sint (ipv4_to_u32 (ip_at payload off_src)))
      \<lparr>expireAt = now + srv_Timeout, entry_peer = p\<rparr> (srv_ipCache s) \<and>
    srv_out s' = srv_out s @ map (\<lambda>q. (peer_rinfo (srv_peers s ! q), t # payload))
      (routed p (sint (ipv4_to_u32 (ip_at payload off_src))) (sint (ipv4_to_u32 (ip_at payload off_dst))) s)"
  using assms
  by (auto simp: forward_ipv4_def readInt32BE_Some routed_def sendBroadcast_def manager_all_def Let_def split: option.splits)

lemmas forward_simps = onPacket_def onIpv4_def onIpv4Frag_def

section \<open>The invariant\<close>

definition peer_ok :: "peer \<Rightarrow> bool" where
  "peer_ok p = (case peer_challenge p of None \<Rightarrow> True | Some c \<Rightarrow> length c = 65)"

definition manager_ok :: "slp_server \<Rightarrow> bool" where
  "manager_ok s \<longleftrightarrow> distinct (map fst (srv_manager s)) \<and>
     (\<forall>(k, i) \<in> set (srv_manager s). entry_peer i < length (srv_peers s) \<and>
        addr2str (peer_rinfo (srv_peers s ! entry_peer i)) = k)"

definition ipCache_ok :: "slp_server \<Rightarrow> bool" where
  "ipCache_ok s \<longleftrightarrow> distinct (map fst (srv_ipCache s)) \<and>
     (\<forall>(_, i) \<in> set (srv_ipCache s). entry_peer i < length (srv_peers s) \<and>
        (srv_provider s \<noteq> None \<longrightarrow> peer_user (srv_peers s ! entry_peer i) \<noteq> None))"

definition waiting_ok :: "slp_server \<Rightarrow> bool" where
  "waiting_ok s \<longleftrightarrow> (\<forall>p \<in> set (srv_filling s). p < length (srv_peers s)) \<and>
     (\<forall>(p, _, response) \<in> set (srv_verifying s). p < length (srv_peers s) \<and> length response = 20 \<and>
        peer_challenge (srv_peers s ! p) \<noteq> None)"

definition srv_ok :: "slp_server \<Rightarrow> bool" where
  "srv_ok s \<longleftrightarrow> (\<forall>p \<in> set (srv_peers s). peer_ok p) \<and> manager_ok s \<and> ipCache_ok s \<and> waiting_ok s"

lemmas srv_ok_defs = srv_ok_def manager_ok_def ipCache_ok_def waiting_ok_def

lemma new_server_ok: "srv_ok (new_server a)"
  by (simp add: srv_ok_defs new_server_def)

lemma nth_update_field: "g v = g (xs ! p) \<Longrightarrow> g (xs[p := v] ! q) = g (xs ! q)"
  by (cases "p < length xs") (auto simp: nth_list_update list_update_beyond)

lemma nth_update_mono: "(P (xs ! p) \<Longrightarrow> P v) \<Longrightarrow> P (xs ! q) \<Longrightarrow> P (xs[p := v] ! q)"
  by (cases "p < length xs") (auto simp: nth_list_update list_update_beyond)

text \<open>Updating a peer without forgetting its login or its challenge keeps the invariant.\<close>

lemma set_peer_ok:
  assumes "srv_ok s" "peer_rinfo (f (srv_peers s ! p)) = peer_rinfo (srv_peers s ! p)"
    "peer_user (srv_peers s ! p) \<noteq> None \<Longrightarrow> peer_user (f (srv_peers s ! p)) \<noteq> None"
    "peer_challenge (srv_peers s ! p) \<noteq> None \<Longrightarrow> peer_challenge (f (srv_peers s ! p)) \<noteq> None" "peer_ok (f (srv_peers s ! p))"
  shows "srv_ok (set_peer p f s)"
proof -
  have "\<forall>q \<in> set ((srv_peers s)[p := f (srv_peers s ! p)]). peer_ok q"
    using assms(1,5) by (auto simp: srv_ok_def dest: set_update_subset_insert [THEN subsetD])
  moreover have "manager_ok (set_peer p f s)" using assms(1)
    by (simp add: srv_ok_def manager_ok_def nth_update_field [of peer_rinfo, OF assms(2)])
  moreover have "ipCache_ok (set_peer p f s)" using assms(1) nth_update_mono [of "\<lambda>x. peer_user x \<noteq> None", OF assms(3)]
    unfolding srv_ok_def ipCache_ok_def set_peer_fields length_list_update by fastforce
  moreover have "waiting_ok (set_peer p f s)" using assms(1) nth_update_mono [of "\<lambda>x. peer_challenge x \<noteq> None", OF assms(4)]
    unfolding srv_ok_def waiting_ok_def set_peer_fields length_list_update by fastforce
  ultimately show ?thesis by (simp add: srv_ok_def)
qed

text \<open>What the manager returns is the peer of the address, new or known.\<close>

lemma manager_get_known:
  "map_of (srv_manager s) (addr2str r) = Some i \<Longrightarrow>
   fst (manager_get now r s) = entry_peer i \<and> srv_peers (snd (manager_get now r s)) = srv_peers s"
  by (simp add: manager_get_def Let_def)

lemma manager_get_new:
  "map_of (srv_manager s) (addr2str r) = None \<Longrightarrow>
   fst (manager_get now r s) = length (srv_peers s) \<and> srv_peers (snd (manager_get now r s)) = srv_peers s @ [new_peer r]"
  by (simp add: manager_get_def Let_def)

lemma manager_okD:
  assumes "manager_ok s" "map_of (srv_manager s) k = Some i"
  shows "entry_peer i < length (srv_peers s)" "addr2str (peer_rinfo (srv_peers s ! entry_peer i)) = k"
  using assms map_of_SomeD [OF assms(2)] by (auto simp: manager_ok_def)

lemma manager_get_peer:
  assumes "manager_ok s"
  shows "fst (manager_get now r s) < length (srv_peers (snd (manager_get now r s)))"
    "peer_rinfo (srv_peers (snd (manager_get now r s)) ! fst (manager_get now r s)) = r"
proof (atomize (full), cases "map_of (srv_manager s) (addr2str r)")
  case None
  then show "fst (manager_get now r s) < length (srv_peers (snd (manager_get now r s))) \<and>
    peer_rinfo (srv_peers (snd (manager_get now r s)) ! fst (manager_get now r s)) = r"
    using manager_get_new [OF None, of now] by (simp add: new_peer_def)
next
  case (Some i)
  then show "fst (manager_get now r s) < length (srv_peers (snd (manager_get now r s))) \<and>
    peer_rinfo (srv_peers (snd (manager_get now r s)) ! fst (manager_get now r s)) = r"
    using manager_get_known [OF Some, of now] manager_okD [OF assms Some] by simp
qed

lemma manager_get_ok: "srv_ok s \<Longrightarrow> srv_ok (snd (manager_get now r s))"
proof (cases "map_of (srv_manager s) (addr2str r)")
  case None
  assume s: "srv_ok s"
  have "manager_ok (snd (manager_get now r s))" using s None
    by (auto simp: srv_ok_def manager_ok_def manager_get_def Let_def new_peer_def nth_append dest!: set_js_set)
  moreover have "ipCache_ok (snd (manager_get now r s))" "waiting_ok (snd (manager_get now r s))" using s None
    by (auto simp: srv_ok_def ipCache_ok_def waiting_ok_def manager_get_def Let_def nth_append split: prod.splits)
  ultimately show ?thesis using s manager_get_new [OF None, of now] by (simp add: srv_ok_def peer_ok_def new_peer_def)
next
  case (Some i)
  assume s: "srv_ok s"
  have "manager_ok (snd (manager_get now r s))" using s Some manager_okD [OF _ Some]
    by (auto simp: srv_ok_def manager_ok_def manager_get_def Let_def dest!: set_js_set)
  then show ?thesis using s Some by (simp add: srv_ok_defs manager_get_def Let_def)
qed

lemma sendTo_ok: "srv_ok (sendTo p t d s) = srv_ok s"
  by (simp add: srv_ok_defs)

lemma sendInfo_ok: "srv_ok (sendInfo p i s) = srv_ok s"
  by (simp add: srv_ok_defs)

lemma forward_ipv4_ok:
  assumes "srv_ok s" "forward_ipv4 t a b now p payload s = Some s'" "p < length (srv_peers s)"
    "srv_provider s \<noteq> None \<Longrightarrow> peer_user (srv_peers s ! p) \<noteq> None" "a + 4 \<le> 20" "b + 4 \<le> 20"
  shows "srv_ok s'"
proof (cases "length payload \<le> 20")
  case True
  then show ?thesis using assms(1,2) by (simp add: forward_ipv4_def)
next
  case False
  then obtain s'' where s'': "forward_ipv4 t a b now p payload s = Some s''" "srv_peers s'' = srv_peers s"
    "srv_manager s'' = srv_manager s" "srv_provider s'' = srv_provider s" "srv_filling s'' = srv_filling s"
    "srv_verifying s'' = srv_verifying s" "srv_ipCache s'' = js_set (sint (ipv4_to_u32 (ip_at payload a)))
      \<lparr>expireAt = now + srv_Timeout, entry_peer = p\<rparr> (srv_ipCache s)"
    using forward_ipv4_routes [of payload a b t now p s] assms(5,6) by auto
  have "ipCache_ok s''" using assms(1,3,4) s''(2,4,7)
    by (auto simp: srv_ok_def ipCache_ok_def dest!: set_js_set split: prod.splits)
  then show ?thesis using assms(1,2) s'' by (simp add: srv_ok_def manager_ok_def waiting_ok_def)
qed

lemma onNeedAuth_ok:
  assumes "srv_ok s" "p < length (srv_peers s)"
  shows "srv_ok (onNeedAuth p t payload s)"
proof (cases "peer_challenge (srv_peers s ! p)")
  case None
  let ?f = "\<lambda>x. x\<lparr>peer_challenge := Some (0xFF # replicate 64 (0 :: byte))\<rparr>"
  have "srv_ok (set_peer p ?f s)" using assms None by (intro set_peer_ok) (simp_all add: peer_ok_def)
  then have "srv_ok ((set_peer p ?f s)\<lparr>srv_filling := srv_filling s @ [p]\<rparr>)" using assms(2) by (auto simp: srv_ok_defs)
  then show ?thesis using assms(1) None by (simp add: onNeedAuth_def)
next
  case (Some c)
  then have "srv_ok (s\<lparr>srv_verifying := srv_verifying s @ [(p, utf8_decode (drop 20 payload), take 20 payload)]\<rparr>)"
    if "20 < length payload" using assms that by (auto simp: srv_ok_defs)
  then show ?thesis using assms(1) Some by (simp add: onNeedAuth_def sendTo_ok not_le Let_def)
qed

lemma download_ok [simp]: "srv_ok (s\<lparr>srv_download := d\<rparr>) = srv_ok s"
  by (simp add: srv_ok_defs)

text \<open>A message that is no ping is handled for the peer of its sender.\<close>

lemma onMessage_peer:
  assumes "b AND 0x7f \<noteq> Ping \<or> b AND 0x80 \<noteq> 0"
  shows "onMessage now (b # payload) r s =
    (let (p, s) = manager_get now r (s\<lparr>srv_download := srv_download s + int (length (b # payload))\<rparr>)
     in if srv_provider s \<noteq> None \<and> peer_user (srv_peers s ! p) = None
        then Some (onNeedAuth p (b AND 0x7f) payload s)
        else onPacket now p (b AND 0x7f) payload s)"
  using assms by (auto simp: onMessage_def parseHead_def Let_def)

lemma onMessage_ok:
  assumes "srv_ok s" "onMessage now msg r s = Some s'"
  shows "srv_ok s'"
proof (cases msg)
  case Nil
  then show ?thesis using assms by (simp add: onMessage_def)
next
  case (Cons b payload)
  show ?thesis
  proof (cases "b AND 0x7f \<noteq> Ping \<or> b AND 0x80 \<noteq> 0")
    case False
    then show ?thesis using assms Cons by (auto simp: onMessage_def parseHead_def onPing_def sendToRaw_def srv_ok_defs)
  next
    case True
    obtain p t where m: "manager_get now r (s\<lparr>srv_download := srv_download s + int (length (b # payload))\<rparr>) = (p, t)"
      by fastforce
    have t: "srv_ok t" using manager_get_ok [of "s\<lparr>srv_download := srv_download s + int (length (b # payload))\<rparr>" now r]
      assms(1) by (simp only: m snd_conv download_ok)
    have p: "p < length (srv_peers t)"
      using manager_get_peer(1) [of "s\<lparr>srv_download := srv_download s + int (length (b # payload))\<rparr>" now r] assms(1)
      by (simp only: m fst_conv snd_conv) (simp add: srv_ok_def manager_ok_def)
    show ?thesis
      using assms(2) t onNeedAuth_ok [OF t p] forward_ipv4_ok [OF t _ p]
      unfolding Cons onMessage_peer [OF True] m by (auto simp: forward_simps split: if_splits)
  qed
qed

lemma srv_step_ok: "srv_step s s' \<Longrightarrow> srv_ok s \<Longrightarrow> srv_ok s'"
proof (induction rule: srv_step.induct)
  case (message s now msg r s')
  then show ?case by (simp add: onMessage_ok)
next
  case (filled s i bytes)
  then have "srv_ok (s\<lparr>srv_filling := drop_nth i (srv_filling s)\<rparr>)" by (auto simp: srv_ok_defs dest: set_drop_nth)
  then show ?case unfolding random_filled_def sendTo_ok by (rule set_peer_ok) (simp_all add: peer_ok_def filled)
next
  case (verified s i p name response a ch reply member_error)
  then have "srv_ok (s\<lparr>srv_verifying := drop_nth i (srv_verifying s)\<rparr>)" (is "srv_ok ?s")
    by (auto simp: srv_ok_defs dest!: set_drop_nth)
  moreover have "p < length (srv_peers s)"
    using verified nth_mem [OF verified(2)] by (auto simp: srv_ok_def waiting_ok_def)
  ultimately have "srv_ok (set_peer p (\<lambda>x. x\<lparr>peer_user := Some name\<rparr>) ?s)"
    by (intro set_peer_ok) (auto simp: srv_ok_def peer_ok_def)
  with \<open>srv_ok ?s\<close> show ?case by (simp add: login_decided_def sendInfo_ok split: sum.splits bool.splits)
next
  case (timed_out s i p name response)
  then have "srv_ok (s\<lparr>srv_verifying := drop_nth i (srv_verifying s)\<rparr>)" by (auto simp: srv_ok_defs dest!: set_drop_nth)
  then show ?case by (simp add: login_decided_def sendInfo_ok)
next
  case (send_failed s r)
  then show ?case by (auto simp: srv_ok_defs manager_delete_def js_delete_def distinct_filter_keys)
next
  case (interval s now)
  then show ?case
    by (auto simp: srv_ok_defs srv_interval_def srv_clearExpire_def clearCacheItem_def distinct_filter_keys)
next
  case (failed s)
  then show ?case by (simp add: srv_ok_defs onError_def)
qed (simp_all add: srv_ok_defs)

lemma srv_reaches_ok: "srv_reaches s s' \<Longrightarrow> srv_ok s \<Longrightarrow> srv_ok s'"
  by (induction rule: srv_reaches.induct) (auto intro: srv_step_ok)

section \<open>Routing and admission\<close>

text \<open>A sender is admitted when the manager knows its address and, if the server has a provider, it is logged in.\<close>

definition admitted :: "rinfo \<Rightarrow> nat \<Rightarrow> slp_server \<Rightarrow> bool" where
  "admitted r p s \<longleftrightarrow> map_option entry_peer (map_of (srv_manager s) (addr2str r)) = Some p \<and>
     (srv_provider s = None \<or> peer_user (srv_peers s ! p) \<noteq> None)"

definition srv_src :: "byte \<Rightarrow> byte list \<Rightarrow> int" where
  "srv_src t payload = sint (ipv4_to_u32 (ip_at payload (if t = Ipv4 then 12 else 0)))"

definition srv_dst :: "byte \<Rightarrow> byte list \<Rightarrow> int" where
  "srv_dst t payload = sint (ipv4_to_u32 (ip_at payload (if t = Ipv4 then 16 else 4)))"

lemma manager_get_manager:
  "map_of (srv_manager (snd (manager_get now r s))) =
   (map_of (srv_manager s))(addr2str r \<mapsto> \<lparr>expireAt = now + srv_Timeout, entry_peer = fst (manager_get now r s)\<rparr>)"
  by (auto simp: manager_get_def Let_def fun_eq_iff split: option.splits)

lemma manager_all_get:
  "map_of (srv_manager s) (addr2str r) \<noteq> None \<Longrightarrow>
   manager_all q (snd (manager_get now r s)) = manager_all q s"
proof -
  have "map (entry_peer \<circ> snd) (filter (\<lambda>(k, _). c \<noteq> k) (js_set a (i\<lparr>expireAt := e\<rparr>) m)) =
      map (entry_peer \<circ> snd) (filter (\<lambda>(k, _). c \<noteq> k) m)"
    if "map_of m a = Some i" for c a i e and m :: "(string \<times> cache_entry) list"
    using that by (induction m) (auto split: if_splits)
  then show "map_of (srv_manager s) (addr2str r) \<noteq> None \<Longrightarrow> ?thesis"
    by (auto simp: manager_all_def manager_get_def Let_def)
qed

text \<open>Too short for a header: dropped.\<close>

lemma onMessage_short:
  assumes "admitted r p s" "t = Ipv4 \<or> t = Ipv4Frag" "length payload \<le> 20"
  shows "\<exists>s'. onMessage now (t # payload) r s = Some s' \<and> srv_out s' = srv_out s \<and> srv_ipCache s' = srv_ipCache s"
proof -
  let ?s = "s\<lparr>srv_download := srv_download s + int (length (t # payload))\<rparr>"
  obtain u where m: "manager_get now r ?s = (p, u)" "srv_peers u = srv_peers s"
    using assms(1) manager_get_known [of ?s r _ now] by (cases "manager_get now r ?s") (auto simp: admitted_def)
  have u: "srv_ipCache u = srv_ipCache s" "srv_provider u = srv_provider s" "srv_out u = srv_out s"
    using manager_get_fields [of now r ?s] unfolding m(1) snd_conv by simp_all
  have "onMessage now (t # payload) r s = onPacket now p t payload u"
    using assms(1,2) onMessage_peer [of t now payload r s] m(2) u(2) unfolding m(1) by (auto simp: admitted_def)
  then show ?thesis using assms(2,3) u by (auto simp: onPacket_def onIpv4_def onIpv4Frag_def forward_ipv4_def)
qed

lemma onMessage_relays:
  assumes "admitted r p s" "t = Ipv4 \<or> t = Ipv4Frag" "20 < length payload"
  shows "\<exists>s'. onMessage now (t # payload) r s = Some s' \<and> srv_peers s' = srv_peers s \<and> srv_provider s' = srv_provider s \<and>
    srv_filling s' = srv_filling s \<and> srv_verifying s' = srv_verifying s \<and> srv_closed s' = srv_closed s \<and>
    map_of (srv_manager s') = (map_of (srv_manager s))(addr2str r \<mapsto> \<lparr>expireAt = now + srv_Timeout, entry_peer = p\<rparr>) \<and>
    srv_ipCache s' = js_set (srv_src t payload) \<lparr>expireAt = now + srv_Timeout, entry_peer = p\<rparr> (srv_ipCache s) \<and>
    srv_out s' = srv_out s @ map (\<lambda>q. (peer_rinfo (srv_peers s ! q), t # payload)) (routed p (srv_src t payload) (srv_dst t payload) s)"
proof -
  let ?s = "s\<lparr>srv_download := srv_download s + int (length (t # payload))\<rparr>"
  obtain u where m: "manager_get now r ?s = (p, u)" "srv_peers u = srv_peers s"
    using assms(1) manager_get_known [of ?s r _ now] by (cases "manager_get now r ?s") (auto simp: admitted_def)
  have u: "srv_ipCache u = srv_ipCache s" "srv_provider u = srv_provider s" "srv_filling u = srv_filling s"
    "srv_verifying u = srv_verifying s" "srv_out u = srv_out s" "srv_closed u = srv_closed s"
    using manager_get_fields [of now r ?s] unfolding m(1) snd_conv by simp_all
  have r: "routed p a b u = routed p a b s" for a b
    using manager_all_get [of ?s r "peer_rinfo (srv_peers s ! p)" now] assms(1) unfolding m(1) snd_conv
    by (auto simp: routed_def m(2) u admitted_def manager_all_def split: option.split)
  have man: "map_of (srv_manager u) = (map_of (srv_manager s))(addr2str r \<mapsto> \<lparr>expireAt = now + srv_Timeout, entry_peer = p\<rparr>)"
    using manager_get_manager [of now r ?s] unfolding m(1) fst_conv snd_conv by simp
  have "onMessage now (t # payload) r s = onPacket now p t payload u"
    using assms(1,2) onMessage_peer [of t now payload r s] m(2) u(2) unfolding m(1) by (auto simp: admitted_def)
  moreover have "onPacket now p t payload u =
      forward_ipv4 t (if t = Ipv4 then 12 else 0) (if t = Ipv4 then 16 else 4) now p payload u"
    using assms(2) by (auto simp: forward_simps)
  moreover have "(if t = Ipv4 then 12 else 0) + 4 \<le> (20 :: nat)" "(if t = Ipv4 then 16 else 4) + 4 \<le> (20 :: nat)" by simp_all
  ultimately show ?thesis
    using forward_ipv4_routes [OF assms(3), of "if t = Ipv4 then 12 else 0" "if t = Ipv4 then 16 else 4" t now p u] man
    by (auto simp: r u m(2) srv_src_def srv_dst_def)
qed

lemma manager_all_set:
  assumes "manager_ok s"
  shows "distinct (map (\<lambda>q. peer_rinfo (srv_peers s ! q)) (manager_all r s))"
    "(\<lambda>q. peer_rinfo (srv_peers s ! q)) ` set (manager_all r s) = {q. q \<noteq> r \<and> map_of (srv_manager s) (addr2str q) \<noteq> None}"
proof -
  let ?f = "\<lambda>q. peer_rinfo (srv_peers s ! q)"
  let ?m = "filter (\<lambda>(k, _). addr2str r \<noteq> k) (srv_manager s)"
  have keys: "map (addr2str \<circ> ?f) (manager_all r s) = map fst ?m"
    using assms by (auto simp: manager_all_def manager_ok_def)
  have "distinct (map fst ?m)" using assms by (simp add: manager_ok_def distinct_filter_keys)
  then have "distinct (map addr2str (map ?f (manager_all r s)))" by (simp add: keys)
  then show "distinct (map ?f (manager_all r s))" by (simp only: distinct_map)
  show "?f ` set (manager_all r s) = {q. q \<noteq> r \<and> map_of (srv_manager s) (addr2str q) \<noteq> None}" (is "?A = ?B")
  proof (intro subset_antisym subsetI)
    fix q
    assume "q \<in> ?A"
    then obtain k i where "(k, i) \<in> set (srv_manager s)" "k \<noteq> addr2str r" "q = ?f (entry_peer i)"
      by (auto simp: manager_all_def)
    moreover from this(1) assms have "addr2str (?f (entry_peer i)) = k" by (auto simp: manager_ok_def)
    ultimately show "q \<in> ?B" by (auto simp: map_of_eq_None_iff intro: rev_image_eqI)
  next
    fix q
    assume "q \<in> ?B"
    then obtain i where i: "map_of (srv_manager s) (addr2str q) = Some i" "q \<noteq> r" by auto
    have "?f (entry_peer i) = q" using manager_okD(2) [OF assms i(1)] by simp
    moreover have "entry_peer i \<in> set (manager_all r s)" using map_of_SomeD [OF i(1)] i(2)
      by (force simp: manager_all_def)
    ultimately show "q \<in> ?A" by blast
  qed
qed

section \<open>Logging in\<close>

lemma drop_nth_last [simp]: "drop_nth (length xs) (xs @ [x]) = xs"
  by (simp add: drop_nth_def)

lemma first_message:
  assumes "map_of (srv_manager s) (addr2str r) = None" "srv_provider s \<noteq> None" "b = Keepalive \<or> b = Ipv4 \<or> b = Ipv4Frag"
  shows "\<exists>s'. onMessage now (b # d) r s = Some s' \<and> srv_out s' = srv_out s \<and> srv_closed s' = srv_closed s \<and>
    srv_provider s' = srv_provider s \<and> srv_ipCache s' = srv_ipCache s \<and> srv_verifying s' = srv_verifying s \<and>
    srv_filling s' = srv_filling s @ [length (srv_peers s)] \<and>
    srv_peers s' = srv_peers s @ [(new_peer r)\<lparr>peer_challenge := Some (0xFF # replicate 64 0)\<rparr>] \<and>
    map_of (srv_manager s') =
      (map_of (srv_manager s))(addr2str r \<mapsto> \<lparr>expireAt = now + srv_Timeout, entry_peer = length (srv_peers s)\<rparr>)"
  using assms
  by (auto simp: onMessage_def parseHead_def manager_get_def Let_def onNeedAuth_def new_peer_def split: prod.splits)

lemma answer_message:
  assumes "map_of (srv_manager s) (addr2str r) = Some i" "srv_provider s \<noteq> None" "20 < length d"
    "peer_user (srv_peers s ! entry_peer i) = None" "peer_challenge (srv_peers s ! entry_peer i) = Some c"
  shows "\<exists>s'. onMessage now (AuthMe # d) r s = Some s' \<and> srv_out s' = srv_out s \<and> srv_closed s' = srv_closed s \<and>
    srv_provider s' = srv_provider s \<and> srv_ipCache s' = srv_ipCache s \<and> srv_filling s' = srv_filling s \<and>
    srv_verifying s' = srv_verifying s @ [(entry_peer i, utf8_decode (drop 20 d), take 20 d)] \<and>
    srv_peers s' = srv_peers s \<and>
    map_of (srv_manager s') = (map_of (srv_manager s))(addr2str r \<mapsto> \<lparr>expireAt = now + srv_Timeout, entry_peer = entry_peer i\<rparr>)"
  using assms
  by (auto simp: onMessage_def parseHead_def manager_get_def Let_def onNeedAuth_def split: prod.splits)

text \<open>
  The whole exchange from the first datagram of an unknown address: the server sends it a challenge, the right answer is
  handed to the provider, and its decision logs the peer in.
\<close>

definition login_run ::
  "int \<Rightarrow> int \<Rightarrow> byte list \<Rightarrow> byte list \<Rightarrow> byte list \<Rightarrow> rinfo \<Rightarrow> ustring \<Rightarrow> slp_server \<Rightarrow> slp_server \<Rightarrow> slp_server \<Rightarrow> slp_server \<Rightarrow> slp_server \<Rightarrow> bool" where
  "login_run now now' hello bytes answer r name s s1 s2 s3 s4 \<longleftrightarrow>
     onMessage now hello r s = Some s1 \<and> srv_step s1 s2 \<and> \<not> srv_closed s2 \<and> srv_out s2 = srv_out s @ [(r, AuthMe # 0 # bytes)] \<and>
     onMessage now' answer r s2 = Some s3 \<and> srv_step s3 s4 \<and> srv_out s4 = srv_out s2 \<and>
     srv_provider s4 = srv_provider s \<and> srv_ipCache s4 = srv_ipCache s \<and> \<not> srv_closed s4 \<and>
     map_of (srv_manager s4) =
       (map_of (srv_manager s))(addr2str r \<mapsto> \<lparr>expireAt = now' + srv_Timeout, entry_peer = length (srv_peers s)\<rparr>) \<and>
     length (srv_peers s4) = Suc (length (srv_peers s)) \<and>
     srv_peers s4 ! length (srv_peers s) = \<lparr>peer_rinfo = r, peer_user = Some name, peer_challenge = Some (0 # bytes)\<rparr>"

lemma login_run_exists:
  assumes new: "map_of (srv_manager s) (addr2str r) = None" and s: "srv_provider s = Some a" "\<not> srv_closed s"
    and b: "b = Keepalive \<or> b = Ipv4 \<or> b = Ipv4Frag" and bytes: "length bytes = 64"
    and k: "getUserPasswordSHA1 reply member_error a (utf8_decode name) = Inr k" "name \<noteq> []"
  shows "\<exists>s1 s2 s3 s4. login_run now now' (b # d) bytes (AuthMe # std_sha1 (k @ bytes) @ name) r (utf8_decode name) s s1 s2 s3 s4"
proof -
  let ?p = "length (srv_peers s)"
  obtain s1 where s1: "onMessage now (b # d) r s = Some s1" "srv_out s1 = srv_out s" "\<not> srv_closed s1"
    "srv_provider s1 = Some a" "srv_ipCache s1 = srv_ipCache s" "srv_filling s1 = srv_filling s @ [?p]"
    "srv_peers s1 = srv_peers s @ [(new_peer r)\<lparr>peer_challenge := Some (0xFF # replicate 64 0)\<rparr>]"
    "map_of (srv_manager s1) = (map_of (srv_manager s))(addr2str r \<mapsto> \<lparr>expireAt = now + srv_Timeout, entry_peer = ?p\<rparr>)"
    using first_message [OF new _ b, of now d] s by auto
  define s2 where "s2 = random_filled ?p bytes (s1\<lparr>srv_filling := srv_filling s\<rparr>)"
  have step2: "srv_step s1 s2" using srv_step.filled [OF s1(3), of "length (srv_filling s)" bytes] bytes s1(6) by (simp add: s2_def)
  have s2: "srv_out s2 = srv_out s @ [(r, AuthMe # 0 # bytes)]" "\<not> srv_closed s2" "srv_provider s2 = Some a"
    "srv_ipCache s2 = srv_ipCache s" "map_of (srv_manager s2) = (map_of (srv_manager s))(addr2str r \<mapsto> \<lparr>expireAt = now + srv_Timeout, entry_peer = ?p\<rparr>)"
    "srv_peers s2 = srv_peers s @ [(new_peer r)\<lparr>peer_challenge := Some (0 # bytes)\<rparr>]"
    using s1 by (simp_all add: s2_def random_filled_def new_peer_def)
  have len: "length (std_sha1 m) = 20" for m by (simp add: std_sha1_def word_bytes_def split: prod.splits)
  obtain s3 where s3: "onMessage now' (AuthMe # std_sha1 (k @ bytes) @ name) r s2 = Some s3" "srv_out s3 = srv_out s2"
    "\<not> srv_closed s3" "srv_provider s3 = Some a" "srv_ipCache s3 = srv_ipCache s" "srv_peers s3 = srv_peers s2"
    "srv_verifying s3 = srv_verifying s2 @ [(?p, utf8_decode name, std_sha1 (k @ bytes))]"
    "map_of (srv_manager s3) = (map_of (srv_manager s))(addr2str r \<mapsto> \<lparr>expireAt = now' + srv_Timeout, entry_peer = ?p\<rparr>)"
    using answer_message [of s2 r "\<lparr>expireAt = now + srv_Timeout, entry_peer = ?p\<rparr>" "std_sha1 (k @ bytes) @ name" "0 # bytes" now'] s2 k(2) by (auto simp: len new_peer_def)
  define s4 where "s4 = login_decided ?p (utf8_decode name) (Inr True) (s3\<lparr>srv_verifying := srv_verifying s2\<rparr>)"
  have "verify reply member_error a (utf8_decode name) bytes (std_sha1 (k @ bytes)) = Inr True"
    by (simp add: verify_def k SHA1_def)
  then have step4: "srv_step s3 s4"
    using srv_step.verified [OF s3(3), of "length (srv_verifying s2)" ?p "utf8_decode name" "std_sha1 (k @ bytes)" a "0 # bytes"
        reply member_error] s3 s2(6) by (simp add: s4_def new_peer_def)
  have "login_run now now' (b # d) bytes (AuthMe # std_sha1 (k @ bytes) @ name) r (utf8_decode name) s s1 s2 s3 s4"
    using s1(1) step2 s2 s3 step4 s by (simp add: login_run_def s4_def login_decided_def new_peer_def)
  then show ?thesis by blast
qed

lemma login_run_reaches:
  assumes "login_run now now' hello bytes answer r name s s1 s2 s3 s4" "\<not> srv_closed s"
  shows "srv_reaches s s4"
proof -
  have "srv_step s s1" "srv_step s1 s2" "srv_step s2 s3" "srv_step s3 s4"
    using assms srv_step.message [of s now hello r s1] srv_step.message [of s2 now' answer r s3] unfolding login_run_def by blast+
  then show ?thesis by (rule srv_next [OF srv_next [OF srv_next [OF srv_next [OF srv_here]]]])
qed

section \<open>Properties\<close>

lemma onNeedAuth_contained:
  "\<exists>new. srv_out (onNeedAuth p t payload s) = srv_out s @ new \<and>
     set new \<subseteq> (\<lambda>c. (peer_rinfo (srv_peers s ! p), AuthMe # c)) ` {c. peer_challenge (srv_peers s ! p) = Some c}"
  by (auto simp: onNeedAuth_def Let_def split: option.splits)

lemma onPacket_other: "t \<noteq> Ipv4 \<Longrightarrow> t \<noteq> Ipv4Frag \<Longrightarrow> onPacket now p t payload s = Some s"
  by (simp add: onPacket_def)

lemma onMessage_stranger:
  assumes "srv_provider s \<noteq> None" "onMessage now (b # payload) r s = Some s'" "srv_out s' = srv_out s @ new" "(q, d) \<in> set new"
    "hd d = Ipv4 \<or> hd d = Ipv4Frag"
  shows "\<exists>p. admitted r p s"
proof (rule ccontr)
  assume stranger: "\<not> (\<exists>p. admitted r p s)"
  show False
  proof (cases "b AND 0x7f \<noteq> Ping \<or> b AND 0x80 \<noteq> 0")
    case False
    then have "b AND 0x7f = 2" "new = [(r, b # take 3 payload)]" using assms(2,3)
      by (auto simp: onMessage_def parseHead_def onPing_def sendToRaw_def)
    then show False using assms(4,5) by auto
  next
    case True
    let ?s = "s\<lparr>srv_download := srv_download s + int (length (b # payload))\<rparr>"
    obtain p u where m: "manager_get now r ?s = (p, u)" by fastforce
    have u: "srv_provider u = srv_provider s" "srv_out u = srv_out s"
      using manager_get_fields [of now r ?s] unfolding m snd_conv by simp_all
    have "peer_user (srv_peers u ! p) = None"
    proof (cases "map_of (srv_manager s) (addr2str r)")
      case None
      then show ?thesis using manager_get_new [of ?s r now] unfolding m by (simp add: new_peer_def)
    next
      case (Some i)
      then show ?thesis using manager_get_known [of ?s r i now] stranger assms(1) unfolding m by (auto simp: admitted_def)
    qed
    then have "s' = onNeedAuth p (b AND 0x7f) payload u" using assms(1,2) u unfolding onMessage_peer [OF True] m by auto
    then show False using onNeedAuth_contained [of p "b AND 0x7f" payload u] assms(3-5) u(2) by auto
  qed
qed

lemma srv_reaches_provider: "srv_reaches s s' \<Longrightarrow> (srv_provider s' = None) = (srv_provider s = None)"
proof (induction rule: srv_reaches.induct)
  case (srv_next s t u)
  have "srv_provider u = None \<longleftrightarrow> srv_provider t = None" using srv_next(2)
  proof (cases rule: srv_step.cases)
    case (message now msg r)
    then show ?thesis
      by (auto simp: onMessage_def forward_simps forward_ipv4_def onPing_def sendToRaw_def onNeedAuth_def
          sendBroadcast_def Let_def manager_get_def split: list.splits option.splits if_splits prod.splits)
  qed (auto simp: random_filled_def login_decided_def manager_delete_def srv_interval_def srv_clearExpire_def onError_def
      split: sum.splits bool.splits)
  then show ?case using srv_next.IH by simp
qed simp

text \<open>
  C4.  Only logged-in peers use the relay.  On a server with a login provider, in every state it can reach, a
  datagram that makes it send a packet or a fragment to anybody comes from an address whose peer has logged in.
\<close>

theorem relay_needs_login:
  assumes "srv_reaches (new_server (Some a)) s" "onMessage now msg r s = Some s'" "srv_out s' = srv_out s @ new"
    "(q, d) \<in> set new" "hd d = Ipv4 \<or> hd d = Ipv4Frag"
  shows "\<exists>i u. map_of (srv_manager s) (addr2str r) = Some i \<and> peer_user (srv_peers s ! entry_peer i) = Some u"
proof -
  have p: "srv_provider s \<noteq> None" using srv_reaches_provider [OF assms(1)] by (simp add: new_server_def)
  obtain b payload where "msg = b # payload" using assms(2-4) by (cases msg) (auto simp: onMessage_def)
  then obtain p' where "admitted r p' s" using onMessage_stranger [OF p _ assms(3,4,5)] assms(2) by blast
  then show ?thesis using p by (auto simp: admitted_def)
qed

text \<open>A server with one account, and the run that logs its user in.\<close>

definition demo_rinfo :: rinfo where
  "demo_rinfo = \<lparr>address = ''::1'', port = 4000\<rparr>"

definition demo_server :: slp_server where
  "demo_server = new_server (Some (CustomAuthProvider [117] [7]))"

lemma demo_login:
  "\<exists>s. srv_reaches demo_server s \<and> admitted demo_rinfo 0 s \<and> srv_ipCache s = [] \<and> 0 < length (srv_peers s) \<and>
     \<not> srv_closed s \<and> map_of (srv_manager s) (addr2str (demo_rinfo\<lparr>port := 1\<rparr>)) = None \<and> srv_provider s \<noteq> None \<and>
     peer_rinfo (srv_peers s ! 0) = demo_rinfo \<and> peer_user (srv_peers s ! 0) = Some [117]"
proof -
  have u: "utf8_decode [117] = [117]" by (simp add: utf8_decode_def utf8_first_def)
  obtain s1 s2 s3 s4 where run: "login_run 0 0 [0] (replicate 64 1) (AuthMe # std_sha1 ([7] @ replicate 64 1) @ [117]) demo_rinfo [117]
      demo_server s1 s2 s3 s4"
    using login_run_exists [of demo_server demo_rinfo "CustomAuthProvider [117] [7]" Keepalive "replicate 64 1" undefined undefined
        "[117]" "[7]" 0 0 "[]"]
    by (auto simp: demo_server_def new_server_def getUserPasswordSHA1_def u)
  have "srv_reaches demo_server s4" using login_run_reaches [OF run] by (simp add: demo_server_def new_server_def)
  then show ?thesis using run by (intro exI [of _ s4]) (auto simp: login_run_def admitted_def demo_server_def new_server_def demo_rinfo_def)
qed

theorem relay_needs_login_witness:
  "\<exists>s s' i u. srv_reaches demo_server s \<and> onMessage 0 (Ipv4 # replicate 21 0) demo_rinfo s = Some s' \<and>
     srv_out s' = srv_out s @ [(demo_rinfo, Ipv4 # replicate 21 0)] \<and>
     map_of (srv_manager s) (addr2str demo_rinfo) = Some i \<and> peer_user (srv_peers s ! entry_peer i) = Some u"
proof -
  obtain s where s: "srv_reaches demo_server s" "admitted demo_rinfo 0 s" "peer_rinfo (srv_peers s ! 0) = demo_rinfo"
    using demo_login by blast
  have "srv_dst Ipv4 (replicate 21 0) = srv_src Ipv4 (replicate 21 0)" by (simp add: srv_dst_def srv_src_def ip_at_def)
  then obtain s' where s': "onMessage 0 (Ipv4 # replicate 21 0) demo_rinfo s = Some s'"
    "srv_out s' = srv_out s @ [(demo_rinfo, Ipv4 # replicate 21 0)]"
    using onMessage_relays [OF s(2), of Ipv4 "replicate 21 0" 0] s(3) by (auto simp: routed_def)
  then show ?thesis
    using relay_needs_login [OF s(1) [unfolded demo_server_def] s'(1,2), of demo_rinfo "Ipv4 # replicate 21 0"] s(1) by auto
qed

lemma onMessage_users:
  assumes "onMessage now msg r s = Some s'" "p < length (srv_peers s')" "peer_user (srv_peers s' ! p) = Some u"
  shows "p < length (srv_peers s) \<and> peer_user (srv_peers s ! p) = Some u"
  using assms
  by (auto simp: onMessage_def forward_simps forward_ipv4_def onPing_def sendToRaw_def onNeedAuth_def new_peer_def
      sendBroadcast_def Let_def manager_get_def nth_append nth_update_field [of peer_user]
      split: list.splits option.splits if_splits prod.splits)

text \<open>
  C19.  A login needs the password.  A peer changes from not logged in to logged in as a user only in the step that
  decides an answer it gave, and then the answer is the SHA-1 digest of the password hash that the provider has for
  this user, followed by the challenge of this peer.
\<close>

theorem login_needs_password:
  assumes "srv_step s s'" "p < length (srv_peers s')" "peer_user (srv_peers s' ! p) = Some u"
    "p < length (srv_peers s) \<Longrightarrow> peer_user (srv_peers s ! p) = None"
  shows "\<exists>a reply member_error k response ch. srv_provider s = Some a \<and> (p, u, response) \<in> set (srv_verifying s) \<and>
    getUserPasswordSHA1 reply member_error a u = Inr k \<and> peer_challenge (srv_peers s ! p) = Some ch \<and>
    response = std_sha1 (k @ drop 1 ch)"
  using assms(1)
proof (cases rule: srv_step.cases)
  case (message now msg r)
  then show ?thesis using onMessage_users [OF message(2) assms(2,3)] assms(4) by simp
next
  case (filled i bytes)
  then show ?thesis using assms(2-4) by (simp add: random_filled_def nth_update_field [of peer_user])
next
  case (verified i q name response a ch reply member_error)
  have mem: "(q, name, response) \<in> set (srv_verifying s)" using verified(3,4) nth_mem by metis
  show ?thesis
  proof (cases "verify reply member_error a name (drop 1 ch) response")
    case (Inl e)
    then show ?thesis using assms(2-4) verified(1) by (simp add: login_decided_def)
  next
    case (Inr ok)
    then have "ok \<and> q = p \<and> name = u" using assms(2-4) verified(1)
      by (cases ok; cases "q < length (srv_peers s)")
        (auto simp: login_decided_def nth_list_update list_update_beyond split: if_splits)
    then show ?thesis using Inr verified mem by (auto simp: verify_def SHA1_def split: sum.splits)
  qed
qed (use assms(2-4) in \<open>simp_all add: login_decided_def manager_delete_def srv_interval_def srv_clearExpire_def onError_def\<close>)

theorem login_needs_password_witness:
  "\<exists>s s' a reply member_error k response ch. srv_step s s' \<and> peer_user (srv_peers s' ! 0) = Some [117] \<and>
     srv_provider s = Some a \<and> (0, [117], response) \<in> set (srv_verifying s) \<and>
     getUserPasswordSHA1 reply member_error a [117] = Inr k \<and> peer_challenge (srv_peers s ! 0) = Some ch \<and>
     response = std_sha1 (k @ drop 1 ch)"
proof -
  let ?p = "\<lparr>peer_rinfo = demo_rinfo, peer_user = None, peer_challenge = Some (0 # replicate 64 1)\<rparr>"
  let ?s = "demo_server\<lparr>srv_peers := [?p], srv_verifying := [(0, [117], std_sha1 (7 # replicate 64 1))]\<rparr>"
  let ?s' = "login_decided 0 [117] (Inr True) (?s\<lparr>srv_verifying := []\<rparr>)"
  have "srv_step ?s ?s'"
    using srv_step.verified [of ?s 0 0 "[117]" "std_sha1 (7 # replicate 64 1)" "CustomAuthProvider [117] [7]" "0 # replicate 64 1"
        undefined undefined]
    by (simp add: demo_server_def new_server_def verify_def getUserPasswordSHA1_def SHA1_def drop_nth_def)
  moreover have "peer_user (srv_peers ?s' ! 0) = Some [117]" "0 < length (srv_peers ?s')" "peer_user (srv_peers ?s ! 0) = None"
    by (simp_all add: login_decided_def)
  ultimately show ?thesis using login_needs_password [of ?s ?s' 0 "[117]"] by blast
qed

text \<open>
  C18.  Routing.  A packet or fragment of an admitted sender is passed on unchanged: to the peer last heard from under its
  destination address if there is one, and otherwise once to every other peer the server knows and to nobody else.
  The sender becomes the peer of its source address.  A payload of at most 20 bytes is dropped: nothing is sent and no
  address is learnt.  In both cases no error stops the handler.
\<close>

theorem server_routes:
  assumes "srv_reaches (new_server a) s" "admitted r p s" "t = Ipv4 \<or> t = Ipv4Frag"
  shows "\<exists>s' new. onMessage now (t # payload) r s = Some s' \<and> srv_out s' = srv_out s @ new \<and>
    (if length payload \<le> 20 then new = [] \<and> srv_ipCache s' = srv_ipCache s
     else map_option entry_peer (map_of (srv_ipCache s') (srv_src t payload)) = Some p \<and>
       (case map_of (srv_ipCache s') (srv_dst t payload) of
          Some i \<Rightarrow> new = [(peer_rinfo (srv_peers s ! entry_peer i), t # payload)]
        | None \<Rightarrow> distinct new \<and> set new = {(q, t # payload) | q. q \<noteq> r \<and> map_of (srv_manager s) (addr2str q) \<noteq> None}))"
proof (cases "length payload \<le> 20")
  case True
  then show ?thesis using onMessage_short [OF assms(2,3)] by auto
next
  case False
  then have long: "20 < length payload" by simp
  have ok: "manager_ok s" using srv_reaches_ok [OF assms(1) new_server_ok] by (simp add: srv_ok_def)
  obtain i where i: "map_of (srv_manager s) (addr2str r) = Some i" "entry_peer i = p" using assms(2) by (auto simp: admitted_def)
  have r: "peer_rinfo (srv_peers s ! p) = r" using manager_okD(2) [OF ok i(1)] by (simp add: i(2))
  let ?new = "map (\<lambda>q. (peer_rinfo (srv_peers s ! q), t # payload)) (routed p (srv_src t payload) (srv_dst t payload) s)"
  have all: "distinct (map (\<lambda>q. (peer_rinfo (srv_peers s ! q), t # payload)) (manager_all r s))"
    using manager_all_set(1) [OF ok, of r] by (simp add: distinct_map inj_on_def)
  have "(\<lambda>q. (q, t # payload)) ` (\<lambda>q. peer_rinfo (srv_peers s ! q)) ` set (manager_all r s) =
      {(q, t # payload) | q. q \<noteq> r \<and> map_of (srv_manager s) (addr2str q) \<noteq> None}"
    unfolding manager_all_set(2) [OF ok] by auto
  with all show ?thesis using onMessage_relays [OF assms(2,3) long, of now] False
    by (auto simp: routed_def r image_image split: option.splits)
qed

theorem server_routes_witness:
  "\<exists>s s' new. srv_reaches demo_server s \<and> onMessage 5 (Ipv4 # replicate 20 0 @ [9]) demo_rinfo s = Some s' \<and>
     srv_out s' = srv_out s @ new \<and> map_option entry_peer (map_of (srv_ipCache s') 0) = Some 0 \<and>
     new = [(demo_rinfo, Ipv4 # replicate 20 0 @ [9])]"
proof -
  obtain s where s: "srv_reaches demo_server s" "admitted demo_rinfo 0 s" "peer_rinfo (srv_peers s ! 0) = demo_rinfo"
    using demo_login by blast
  have "srv_dst Ipv4 (replicate 20 0 @ [9]) = 0" "srv_src Ipv4 (replicate 20 0 @ [9]) = 0"
    by (simp_all add: srv_dst_def srv_src_def ip_at_def nth_append)
  then show ?thesis
    using server_routes [OF s(1) [unfolded demo_server_def] s(2), of Ipv4 5 "replicate 20 0 @ [9]"] s(1,3)
    by (auto split: option.splits)
qed

text \<open>
  A peer that is not logged in receives broadcasts.  The server registers the peer of every address that sends it a
  datagram, before any login, and passes a packet for an unknown destination to all registered peers.
\<close>

theorem broadcast_reaches_strangers:
  assumes "srv_reaches (new_server (Some a)) s" "admitted r p s" "20 < length payload" "q \<noteq> r"
    "map_of (srv_manager s) (addr2str q) = Some j" "peer_user (srv_peers s ! entry_peer j) = None"
    "srv_dst Ipv4 payload \<noteq> srv_src Ipv4 payload" "map_of (srv_ipCache s) (srv_dst Ipv4 payload) = None"
  shows "\<exists>s' new. onMessage now (Ipv4 # payload) r s = Some s' \<and> srv_out s' = srv_out s @ new \<and> (q, Ipv4 # payload) \<in> set new"
proof -
  have ok: "manager_ok s" using srv_reaches_ok [OF assms(1) new_server_ok] by (simp add: srv_ok_def)
  obtain i where i: "map_of (srv_manager s) (addr2str r) = Some i" "entry_peer i = p" using assms(2) by (auto simp: admitted_def)
  have "peer_rinfo (srv_peers s ! p) = r" using manager_okD(2) [OF ok i(1)] by (simp add: i(2))
  then have "routed p (srv_src Ipv4 payload) (srv_dst Ipv4 payload) s = manager_all r s" using assms(7,8) by (simp add: routed_def)
  moreover have "q \<in> (\<lambda>q. peer_rinfo (srv_peers s ! q)) ` set (manager_all r s)"
    unfolding manager_all_set(2) [OF ok] using assms(4,5) by simp
  ultimately show ?thesis using onMessage_relays [OF assms(2) _ assms(3), of Ipv4 now] by auto
qed

theorem broadcast_reaches_strangers_witness:
  "\<exists>s s' new. srv_reaches demo_server s \<and> onMessage 9 (Ipv4 # replicate 19 0 @ [1, 1]) demo_rinfo s = Some s' \<and>
     srv_out s' = srv_out s @ new \<and> (demo_rinfo\<lparr>port := 1\<rparr>, Ipv4 # replicate 19 0 @ [1, 1]) \<in> set new"
proof -
  let ?q = "demo_rinfo\<lparr>port := 1\<rparr>"
  obtain t where t: "srv_reaches demo_server t" "admitted demo_rinfo 0 t" "srv_ipCache t = []" "0 < length (srv_peers t)"
    "\<not> srv_closed t" "map_of (srv_manager t) (addr2str ?q) = None" "srv_provider t \<noteq> None"
    using demo_login by blast
  obtain s where s: "onMessage 0 [0] ?q t = Some s" "srv_ipCache s = []" "srv_provider s = srv_provider t"
    "srv_peers s = srv_peers t @ [(new_peer ?q)\<lparr>peer_challenge := Some (0xFF # replicate 64 0)\<rparr>]"
    "map_of (srv_manager s) = (map_of (srv_manager t))(addr2str ?q \<mapsto> \<lparr>expireAt = 30000, entry_peer = length (srv_peers t)\<rparr>)"
    using first_message [OF t(6,7), of 0 0 "[]"] t(3) by auto
  have "srv_reaches demo_server s" using srv_next [OF t(1) srv_step.message [OF t(5) s(1)]] .
  moreover have "admitted demo_rinfo 0 s" using t(2,4) s(3-5) by (simp add: admitted_def nth_append demo_rinfo_def)
  moreover have "srv_dst Ipv4 (replicate 19 0 @ [1, 1]) = 1" "srv_src Ipv4 (replicate 19 0 @ [1, 1]) = 0"
    by (simp_all add: srv_dst_def srv_src_def ip_at_def nth_append)
  ultimately show ?thesis
    using broadcast_reaches_strangers [of "CustomAuthProvider [117] [7]" s demo_rinfo 0 "replicate 19 0 @ [1, 1]" ?q
        "\<lparr>expireAt = 30000, entry_peer = length (srv_peers t)\<rparr>" 9] s(2,4,5)
    by (auto simp: demo_server_def [symmetric] new_peer_def demo_rinfo_def)
qed

lemma map_of_clearCacheItem:
  "distinct (map fst m) \<Longrightarrow> map_of (clearCacheItem now m) k =
   (case map_of m k of Some i \<Rightarrow> if expireAt i < now then None else Some i | None \<Rightarrow> None)"
  by (induction m) (auto simp: clearCacheItem_def map_of_eq_None_iff split: option.splits; force)+

lemma onMessage_manager:
  assumes "b AND 0x7f \<noteq> Ping" "onMessage now (b # payload) r s = Some s'"
  shows "\<exists>i. map_of (srv_manager s') (addr2str r) = Some i \<and> expireAt i = now + srv_Timeout"
proof -
  let ?s = "s\<lparr>srv_download := srv_download s + int (length (b # payload))\<rparr>"
  obtain p u where m: "manager_get now r ?s = (p, u)" by fastforce
  have "map_of (srv_manager u) (addr2str r) = Some \<lparr>expireAt = now + srv_Timeout, entry_peer = p\<rparr>"
    using manager_get_manager [of now r ?s] unfolding m by simp
  then show ?thesis using assms(2) unfolding onMessage_peer [OF disjI1 [OF assms(1)]] m
    by (auto simp: onNeedAuth_def forward_simps forward_ipv4_def sendBroadcast_def Let_def
        split: if_splits option.splits)
qed

text \<open>
  C39.  Peers expire.  The peer of an address that sent a datagram other than a ping is known to the timer for exactly
  thirty seconds from then, if nothing else arrives from it.
\<close>

theorem peers_expire:
  assumes "srv_reaches (new_server a) s" "onMessage now (b # payload) r s = Some s'" "b AND 0x7f \<noteq> Ping"
  shows "map_of (srv_manager (srv_interval now' s')) (addr2str r) \<noteq> None \<longleftrightarrow> now' \<le> now + 30000"
proof -
  have "srv_ok s'" using onMessage_ok [OF srv_reaches_ok [OF assms(1) new_server_ok] assms(2)] .
  then show ?thesis using onMessage_manager [OF assms(3,2)]
    by (auto simp: srv_interval_def srv_clearExpire_def map_of_clearCacheItem srv_ok_def manager_ok_def split: if_splits)
qed

theorem peers_expire_witness:
  "\<exists>s. onMessage 5 [0] demo_rinfo demo_server = Some s \<and>
     map_of (srv_manager (srv_interval 30005 s)) (addr2str demo_rinfo) \<noteq> None \<and>
     map_of (srv_manager (srv_interval 30006 s)) (addr2str demo_rinfo) = None"
proof -
  obtain s where s: "onMessage 5 [0] demo_rinfo demo_server = Some s"
    using first_message [of demo_server demo_rinfo 0 5 "[]"] by (auto simp: demo_server_def new_server_def)
  show ?thesis
    using peers_expire [OF srv_here s [unfolded demo_server_def], of 30005] peers_expire [OF srv_here s [unfolded demo_server_def], of 30006] s
    by auto
qed

text \<open>A wrong password is reported to the peer twice.\<close>

lemma wrong_password_told_twice:
  "srv_out (login_decided p name (Inr False) s) = srv_out s @ replicate 2 (peer_rinfo (srv_peers s ! p),
     Info # utf8_encode (ascii ''Error when login: Wrong password''))"
  by (simp add: login_decided_def login_error_def ascii_def numeral_2_eq_2)

text \<open>A password given with \<^verbatim>\<open>--simpleAuth\<close> ends at its first colon.\<close>

lemma js_split_prefix: "c \<notin> set x \<Longrightarrow> js_split c (x @ c # y) = x # js_split c y"
  by (induction x) auto

lemma simple_auth_cut:
  "CHR '':'' \<notin> set user \<Longrightarrow> CHR '':'' \<notin> set pw \<Longrightarrow>
   choose_provider None [''--simpleAuth'', user @ CHR '':'' # pw @ CHR '':'' # rest] = UseSimple user (Some pw)"
  by (simp add: choose_provider_def arg_def truthy_def js_split_prefix)

end
