(* ===== verification/Server_Session.thy ===== *)
theory Server_Session
  imports Example Slp_Server
begin

text \<open>
  The client of the relay server and the server at work together: what one client sends is what another client
  receives, and the login from the first datagram to the decision.
\<close>

section \<open>The login\<close>

text \<open>The client's answer to a challenge; behind it the receive buffer holds anything.\<close>

lemma length_std_sha1 [simp]: "length (std_sha1 m) = 20"
  by (simp add: std_sha1_def word_bytes_def split: prod.splits)

lemma auth_me_answer:
  assumes "username (client lp) = Some name" "length name \<le> 65515" "length garbage = 64"
    and "length (key (client lp)) = 20" "length challenge < 65535"
  shows "\<exists>lp' rc. lan_client_process_auth_me e garbage (0 # challenge @ rest) (word_of_nat (length challenge + 1)) lp = Some lp' \<and>
    out lp' = out lp @ [ServerUdp (LAN_CLIENT_TYPE_AUTH_ME # std_sha1 (key (client lp) @ challenge) @ name) rc]"
proof -
  have n: "unat (word_of_nat (length challenge) :: u16) = length challenge" using assms(5) by (simp add: unat_of_nat)
  have body: "read_bytes (0 # challenge @ rest) (Suc 0) (length challenge) = Some challenge" by (simp add: read_bytes_def window_def)
  have r: "auth_response garbage (key (client lp)) challenge name = Some (std_sha1 (key (client lp) @ challenge) @ name)"
    using auth_response_std [OF assms(3), of challenge] assms(4,5) by simp
  show ?thesis using assms(1,2)
    by (simp add: lan_client_process_auth_me_def checked_access n body r lan_client_send_auth_me_def lan_client_send_def
        lan_client_send_raw_def window_def Let_def)
qed

text \<open>
  C8.  The login completes.  A client the server does not know yet sends its keepalive; the server answers with a
  challenge; the client, whose password hash is the one the provider has for its user name, answers the challenge; and
  the server's decision of that answer logs this address in under that name.
\<close>

theorem login_completes:
  assumes lp: "username (client lp) = Some name" "name \<noteq> []" "length name \<le> 65515" "length (key (client lp)) = 20" "length garbage = 64"
    and s: "map_of (srv_manager s) (addr2str r) = None" "srv_provider s = Some a" "\<not> srv_closed s"
    and k: "getUserPasswordSHA1 reply member_error a (utf8_decode name) = Inr (key (client lp))" and bytes: "length bytes = 64"
  shows "\<exists>lp1 lp2 rc1 rc2 answer s1 s2 s3 s4.
    lan_client_keepalive_timer e lp = Some lp1 \<and> out lp1 = out lp @ [ServerUdp [Keepalive] rc1] \<and>
    lan_client_on_recv e garbage 66 ([AuthMe, 0] @ bytes @ rest) lp1 = Some lp2 \<and>
    out lp2 = out lp1 @ [ServerUdp answer rc2] \<and>
    login_run t0 t1 [Keepalive] bytes answer r (utf8_decode name) s s1 s2 s3 s4"
proof -
  obtain lp1 rc1 where 1: "lan_client_keepalive_timer e lp = Some lp1" "out lp1 = out lp @ [ServerUdp [Keepalive] rc1]"
    "username (client lp1) = Some name" "key (client lp1) = key (client lp)"
    using lp(1) by (simp add: lan_client_keepalive_timer_def lan_client_send_keepalive_def lan_client_send_def checked_access
        lan_client_send_raw_def window_def Let_def)
  let ?lp = "lp1\<lparr>client := (client lp1)\<lparr>lc_download_packet := lc_download_packet (client lp1) + 1,
    lc_download_byte := lc_download_byte (client lp1) + 66\<rparr>\<rparr>"
  obtain lp2 rc2 where 2: "lan_client_process_auth_me e garbage (0 # bytes @ rest) 65 ?lp = Some lp2"
    "out lp2 = out lp1 @ [ServerUdp (AuthMe # std_sha1 (key (client lp) @ bytes) @ name) rc2]"
    using auth_me_answer [of ?lp name garbage bytes e rest] 1(3,4) lp bytes by auto
  have "lan_client_on_recv e garbage 66 ([AuthMe, 0] @ bytes @ rest) lp1 = Some lp2"
    using 2(1) by (simp add: lan_client_on_recv_def checked_access)
  with 1(1,2) 2(2) login_run_exists [OF s _ bytes k lp(2), of Keepalive t0 t1 "[]"] show ?thesis by blast
qed

theorem login_completes_witness:
  "\<exists>lp1 lp2 rc1 rc2 answer s1 s2 s3 s4.
    lan_client_keepalive_timer demo_env (zero_relay\<lparr>client := zero_client\<lparr>username := Some [117]\<rparr>\<rparr>) = Some lp1 \<and>
    out lp1 = [ServerUdp [Keepalive] rc1] \<and>
    lan_client_on_recv demo_env (replicate 64 3) 66 ([AuthMe, 0] @ replicate 64 1) lp1 = Some lp2 \<and>
    out lp2 = out lp1 @ [ServerUdp answer rc2] \<and>
    login_run 0 9 [Keepalive] (replicate 64 1) answer demo_rinfo [117]
      (new_server (Some (CustomAuthProvider [117] (replicate 20 0)))) s1 s2 s3 s4"
  using login_completes [of "zero_relay\<lparr>client := zero_client\<lparr>username := Some [117]\<rparr>\<rparr>" "[117]" "replicate 64 3"
      "new_server (Some (CustomAuthProvider [117] (replicate 20 0)))" demo_rinfo "CustomAuthProvider [117] (replicate 20 0)"
      undefined undefined "replicate 64 1" demo_env "[]" 0 9]
  by (simp add: zero_relay_def zero_client_def new_server_def getUserPasswordSHA1_def utf8_decode_def utf8_first_def)

section \<open>Packets in parts\<close>

lemma send_in_parts:
  assumes sizes: "frag_sizes n len packet" "n < len" and a: "pmtu (client a) = int n" "\<forall>i d. server_rc ea i d = 0"
  shows "\<exists>a'. lan_client_send ea LAN_CLIENT_TYPE_IPV4 packet len a = Some (0, a') \<and>
    out a' = out a @ map (\<lambda>k. ServerUdp (datagram (frag_id (client a)) n packet len k) 0) [0..<parts n len]"
proof -
  let ?i = "frag_id (client a)" and ?a1 = "a\<lparr>client := (client a)\<lparr>frag_id := frag_id (client a) + 1\<rparr>\<rparr>"
  have n: "0 < n" "len \<le> length packet" "20 \<le> length packet" using sizes(1) by (auto simp: frag_sizes_def)
  have "1 < parts n len" using parts_bounds [OF n(1), of 1 len] sizes(2) by simp
  then have "lan_client_send ea LAN_CLIENT_TYPE_IPV4 packet len a =
      send_parts ea (\<lambda>i pl. frag_header (ip_at packet 12) (ip_at packet 16) ?i i (parts n len) pl n) n packet len 0 0 ?a1"
    using a(1) n by (simp add: lan_client_send_def CPY_IPV4_Some flip: parts_def) (simp add: Let_def)
  moreover obtain a' where "send_parts ea (\<lambda>i pl. frag_header (ip_at packet 12) (ip_at packet 16) ?i i (parts n len) pl n)
      n packet len 0 0 ?a1 = Some (0, a')"
    "out a' = out ?a1 @ map (\<lambda>k. ServerUdp (datagram ?i n packet len k) 0) [0..<parts n len]"
    using send_parts_sends [OF n(1,2) a(2), of 0 0 "ip_at packet 12" "ip_at packet 16" ?i "parts n len" ?a1]
    by (auto simp: datagram_def)
  ultimately show ?thesis by auto
qed

text \<open>
  Fragmentation is undone by reassembly.  A packet longer than the path MTU is sent to the relay server as its
  parts in order; another client that receives these datagrams, each once, in any order and with any bytes behind
  them in its receive buffer, processes exactly the packet that was sent, as long as it has at most eight parts and
  1500 bytes.
\<close>

theorem fragments_round_trip:
  assumes sizes: "frag_sizes n len packet" "n < len" and a: "pmtu (client a) = int n" "\<forall>i d. server_rc ea i d = 0"
    and b: "can_start (frag_id (client a)) packet (client b)"
    and ks: "distinct (map fst ks)" "fst ` set ks = {..<parts n len}"
  shows "\<exists>a' buf c'. lan_client_send ea LAN_CLIENT_TYPE_IPV4 packet len a = Some (0, a') \<and>
    out a' = out a @ map (\<lambda>k. ServerUdp (datagram (frag_id (client a)) n packet len k) 0) [0..<parts n len] \<and>
    receive_frags eb (map (part_packet (frag_id (client a)) n packet len) ks) b =
      lan_client_process eb buf (word_of_nat len) (b\<lparr>client := c'\<rparr>) \<and> take len buf = take len packet"
  using send_in_parts [OF sizes a] reassemble [OF sizes(1) b ks, of eb] by auto

theorem fragments_round_trip_witness:
  "\<exists>a' buf c'. lan_client_send demo_env LAN_CLIENT_TYPE_IPV4 (replicate 30 7) 30
      (zero_relay\<lparr>client := zero_client\<lparr>pmtu := 16\<rparr>\<rparr>) = Some (0, a') \<and> length (out a') = 2 \<and>
    receive_frags demo_env (map (part_packet 0 16 (replicate 30 7) 30) [(1, []), (0, [9])]) zero_relay =
      lan_client_process demo_env buf 30 (zero_relay\<lparr>client := c'\<rparr>) \<and> take 30 buf = replicate 30 7"
proof -
  have p: "parts 16 30 = 2" by (simp add: parts_def)
  have "frag_sizes 16 30 (replicate 30 7)" by (simp add: frag_sizes_def p)
  moreover have "can_start 0 (replicate 30 7) (client zero_relay)"
    by (simp add: can_start_def zero_relay_def zero_client_def no_fragment_def)
  moreover have "fst ` set [(1 :: nat, []), (0, [9 :: byte])] = {..<parts 16 30}" unfolding p by auto
  ultimately show ?thesis
    using fragments_round_trip [of 16 30 "replicate 30 7" "zero_relay\<lparr>client := zero_client\<lparr>pmtu := 16\<rparr>\<rparr>" demo_env
        zero_relay "[(1, []), (0, [9])]" demo_env]
    by (fastforce simp: p zero_client_def zero_relay_def demo_env_def)
qed

text \<open>
  More than eight parts are never put together.  The bit set of received parts has eight bits, so a datagram of a
  packet with nine or more parts is stored, or faults, but no packet is ever processed and nothing is sent.
\<close>

theorem nine_parts_never_complete:
  assumes "read_frag_header p = Some h" "9 \<le> unat (fh_total_part h)" "lan_client_process_frag e p lp = Some (r, lp')"
  shows "r = 0 \<and> out lp' = out lp"
proof -
  have "(2 :: nat) ^ 9 \<le> 2 ^ unat (fh_total_part h)" using assms(2) by (intro power_increasing) simp_all
  then have "255 < (2 :: nat) ^ unat (fh_total_part h) - 1" by simp
  then have "\<not> frag_complete h f" for f
    unfolding frag_complete_def using unat_byte_less [of "frag_part f"] by linarith
  then show ?thesis using assms(1,3)
    by (auto simp: lan_client_process_frag_def bind_eq_Some_conv split: option.splits prod.splits)
qed

theorem nine_parts_never_complete_witness:
  "\<exists>lp'. lan_client_process_frag demo_env (frag_header (IP4 10 0 0 1) (IP4 10 0 0 2) 5 0 9 2 2 @ [1, 2])
      (zero_relay\<lparr>client := zero_client\<lparr>frags := [no_fragment]\<rparr>\<rparr>) = Some (0, lp') \<and> out lp' = []"
proof -
  let ?p = "frag_header (IP4 10 0 0 1) (IP4 10 0 0 2) 5 0 9 2 2 @ [1, 2]"
  let ?lp = "zero_relay\<lparr>client := zero_client\<lparr>frags := [no_fragment]\<rparr>\<rparr>"
  define h where "h = \<lparr>fh_src = IP4 10 0 0 1, fh_dst = IP4 10 0 0 2, fh_id = 5, fh_part = 0, fh_total_part = 9, fh_len = 2,
    fh_pmtu = 2\<rparr>"
  have h: "read_frag_header ?p = Some h"
    by (simp add: read_frag_header_def frag_header_def checked_access net16_def ip_at_def h_def)
  have "\<exists>r lp'. lan_client_process_frag demo_env ?p ?lp = Some (r, lp')"
    unfolding lan_client_process_frag_def h
    by (simp add: h_def find_slot_def frag_match_def no_fragment_def zero_client_def store_part_def frag_header_def
        checked_access write_bytes_def take_slot_def start_frag_def frag_complete_def)
  then obtain r lp' where 1: "lan_client_process_frag demo_env ?p ?lp = Some (r, lp')" by blast
  have "out ?lp = []" by (simp add: zero_relay_def)
  then show ?thesis using nine_parts_never_complete [OF h _ 1] 1 by (simp add: h_def)
qed

text \<open>
  The login answers the server's challenge: one datagram with the SHA-1 digest of the password hash followed by
  the challenge, and the user name.  The digest is the standard one, whatever the stack held.
\<close>

theorem login_answers_challenge:
  assumes "username (client lp) = Some name" "length name \<le> 65515" "length garbage = 64"
    and "length (key (client lp)) = 20" "length challenge < 65535"
  shows "\<exists>lp' rc. lan_client_process_auth_me e garbage (0 # challenge) (word_of_nat (length challenge + 1)) lp = Some lp' \<and>
    out lp' = out lp @ [ServerUdp (LAN_CLIENT_TYPE_AUTH_ME # std_sha1 (key (client lp) @ challenge) @ name) rc]"
  using auth_me_answer [OF assms, of e "[]"] by simp

theorem login_answers_challenge_witness:
  "\<exists>lp' rc. lan_client_process_auth_me demo_env (replicate 64 1) [0, 1, 2, 3] 4
      (zero_relay\<lparr>client := zero_client\<lparr>username := Some [117]\<rparr>\<rparr>) = Some lp' \<and>
    out lp' = [ServerUdp (LAN_CLIENT_TYPE_AUTH_ME # std_sha1 (replicate 20 0 @ [1, 2, 3]) @ [117]) rc]"
  using login_answers_challenge [of "zero_relay\<lparr>client := zero_client\<lparr>username := Some [117]\<rparr>\<rparr>" "[117]" "replicate 64 1"
      "[1, 2, 3]" demo_env]
  by (simp add: zero_relay_def zero_client_def)

section \<open>Two clients and the server\<close>

text \<open>The server receives datagrams of one client one after the other.\<close>

fun srv_receive :: "int \<Rightarrow> rinfo \<Rightarrow> byte list list \<Rightarrow> slp_server \<Rightarrow> slp_server option" where
  "srv_receive t r [] s = Some s"
| "srv_receive t r (d # ds) s = Option.bind (onMessage t d r s) (srv_receive t r ds)"

definition routes_to :: "int \<Rightarrow> int \<Rightarrow> rinfo \<Rightarrow> slp_server \<Rightarrow> bool" where
  "routes_to src dst q s \<longleftrightarrow> src \<noteq> dst \<and>
     map_option (\<lambda>i. peer_rinfo (srv_peers s ! entry_peer i)) (map_of (srv_ipCache s) dst) = Some q"

lemma srv_receive_forwards:
  assumes "admitted r p s" "routes_to src dst q s"
    "\<forall>d \<in> set ds. \<exists>t payload. d = t # payload \<and> (t = Ipv4 \<or> t = Ipv4Frag) \<and> 20 < length payload \<and>
       srv_src t payload = src \<and> srv_dst t payload = dst"
  shows "\<exists>s'. srv_receive t0 r ds s = Some s' \<and> srv_out s' = srv_out s @ map (Pair q) ds"
  using assms
proof (induction ds arbitrary: s)
  case (Cons d ds)
  from Cons.prems(3) obtain t payload where d: "d = t # payload" "t = Ipv4 \<or> t = Ipv4Frag" "20 < length payload"
    "srv_src t payload = src" "srv_dst t payload = dst" by auto
  from Cons.prems(2) obtain i where i: "src \<noteq> dst" "map_of (srv_ipCache s) dst = Some i" "peer_rinfo (srv_peers s ! entry_peer i) = q"
    by (auto simp: routes_to_def)
  obtain s1 where s1: "onMessage t0 d r s = Some s1" "srv_peers s1 = srv_peers s" "srv_provider s1 = srv_provider s"
    "map_of (srv_manager s1) = (map_of (srv_manager s))(addr2str r \<mapsto> \<lparr>expireAt = t0 + srv_Timeout, entry_peer = p\<rparr>)"
    "srv_ipCache s1 = js_set src \<lparr>expireAt = t0 + srv_Timeout, entry_peer = p\<rparr> (srv_ipCache s)"
    "srv_out s1 = srv_out s @ map (\<lambda>q. (peer_rinfo (srv_peers s ! q), d)) (routed p src dst s)"
    using onMessage_relays [OF Cons.prems(1) d(2,3), of t0] d(4,5) by (auto simp: d(1))
  have "srv_out s1 = srv_out s @ [(q, d)]" using s1(6) i by (simp add: routed_def)
  moreover have "admitted r p s1" using Cons.prems(1) s1(2-4) by (simp add: admitted_def)
  moreover have "routes_to src dst q s1" using i s1(2,5) by (simp add: routes_to_def)
  ultimately show ?case using Cons.IH [of s1] Cons.prems(3) s1(1) by auto
qed simp

lemma datagram_addresses:
  assumes "frag_sizes n len packet"
  shows "datagram ident n packet len k = Ipv4Frag # drop 1 (datagram ident n packet len k)"
    "srv_src Ipv4Frag (drop 1 (datagram ident n packet len k)) = sint (ipv4_to_u32 (ip_at packet 12))"
    "srv_dst Ipv4Frag (drop 1 (datagram ident n packet len k)) = sint (ipv4_to_u32 (ip_at packet 16))"
    "k < parts n len \<Longrightarrow> length (drop 1 (datagram ident n packet len k)) = 16 + chunk_len n len k"
proof -
  have sz: "0 < n" "len \<le> length packet" using assms by (simp_all add: frag_sizes_def)
  have "n * k + chunk_len n len k \<le> length packet" if "k < parts n len"
    using that chunk_fits [of n k len] parts_bounds [OF sz(1), of k len] sz(2) by linarith
  then show "k < parts n len \<Longrightarrow> length (drop 1 (datagram ident n packet len k)) = 16 + chunk_len n len k"
    by (simp add: datagram_def frag_header_def window_def)
qed (simp_all add: datagram_def frag_header_def srv_src_def srv_dst_def ip_at_append)

text \<open>
  C3.  Fragments cross the server.  The parts of a packet that one client sends are all passed on by the server,
  unchanged and in order, to the client it last heard from under the packet's destination; that client puts them
  together to the packet, in whatever order they arrive.  Every part has to carry more than four bytes.
\<close>

theorem fragments_cross_server:
  assumes sizes: "frag_sizes n len packet" "n < len" and a: "pmtu (client a) = int n" "\<forall>i d. server_rc ea i d = 0"
    and s: "admitted r p s" "routes_to (sint (ipv4_to_u32 (ip_at packet 12))) (sint (ipv4_to_u32 (ip_at packet 16))) q s"
    and parts: "\<forall>k < parts n len. 4 < chunk_len n len k"
    and b: "can_start (frag_id (client a)) packet (client b)" "distinct (map fst ks)" "fst ` set ks = {..<parts n len}"
  shows "\<exists>a' ds s' buf c'. lan_client_send ea LAN_CLIENT_TYPE_IPV4 packet len a = Some (0, a') \<and>
    out a' = out a @ map (\<lambda>d. ServerUdp d 0) ds \<and>
    srv_receive t r ds s = Some s' \<and> srv_out s' = srv_out s @ map (Pair q) ds \<and>
    receive_frags eb (map (\<lambda>(k, rest). drop 1 (ds ! k) @ rest) ks) b =
      lan_client_process eb buf (word_of_nat len) (b\<lparr>client := c'\<rparr>) \<and> take len buf = take len packet"
proof -
  let ?i = "frag_id (client a)"
  let ?ds = "map (datagram ?i n packet len) [0..<parts n len]"
  obtain a' where a': "lan_client_send ea LAN_CLIENT_TYPE_IPV4 packet len a = Some (0, a')"
    "out a' = out a @ map (\<lambda>k. ServerUdp (datagram ?i n packet len k) 0) [0..<parts n len]"
    using send_in_parts [OF sizes a] by blast
  have "\<forall>d \<in> set ?ds. \<exists>t payload. d = t # payload \<and> (t = Ipv4 \<or> t = Ipv4Frag) \<and> 20 < length payload \<and>
      srv_src t payload = sint (ipv4_to_u32 (ip_at packet 12)) \<and> srv_dst t payload = sint (ipv4_to_u32 (ip_at packet 16))"
  proof
    fix d
    assume "d \<in> set ?ds"
    then obtain k where k: "k < parts n len" "d = datagram ?i n packet len k" by auto
    with parts show "\<exists>t payload. d = t # payload \<and> (t = Ipv4 \<or> t = Ipv4Frag) \<and> 20 < length payload \<and>
      srv_src t payload = sint (ipv4_to_u32 (ip_at packet 12)) \<and> srv_dst t payload = sint (ipv4_to_u32 (ip_at packet 16))"
      using datagram_addresses [OF sizes(1), where ident = ?i and k = k]
      by (intro exI [of _ Ipv4Frag] exI [of _ "drop 1 d"]) simp
  qed
  then obtain s' where s': "srv_receive t r ?ds s = Some s'" "srv_out s' = srv_out s @ map (Pair q) ?ds"
    using srv_receive_forwards [OF s] by blast
  have lt: "k < parts n len" if "(k, rest) \<in> set ks" for k rest using b(3) that by (metis fst_conv image_eqI lessThan_iff)
  have eq: "map (\<lambda>(k, rest). drop 1 (?ds ! k) @ rest) ks = map (part_packet ?i n packet len) ks"
    using lt by (auto simp: part_packet_def)
  obtain buf c' where re: "receive_frags eb (map (part_packet ?i n packet len) ks) b =
      lan_client_process eb buf (word_of_nat len) (b\<lparr>client := c'\<rparr>)" "take len buf = take len packet"
    using reassemble [OF sizes(1) b, of eb] by blast
  show ?thesis
    by (intro exI [of _ a'] exI [of _ ?ds] exI [of _ s'] exI [of _ buf] exI [of _ c'] conjI)
      (rule a'(1), simp add: a'(2) comp_def, rule s'(1), rule s'(2), simp only: eq re(1), rule re(2))
qed

definition demo_packet :: "byte list" where
  "demo_packet = replicate 12 0 @ [10, 0, 0, 1] @ [10, 0, 0, 2] @ replicate 10 7"

definition demo_pair :: slp_server where
  "demo_pair = (new_server None)\<lparr>srv_peers := [new_peer demo_rinfo, new_peer (demo_rinfo\<lparr>port := 1\<rparr>)],
     srv_manager := [(addr2str demo_rinfo, \<lparr>expireAt = 9, entry_peer = 0\<rparr>)],
     srv_ipCache := [(sint (ipv4_to_u32 (IP4 10 0 0 2)), \<lparr>expireAt = 9, entry_peer = 1\<rparr>)]\<rparr>"

lemma demo_pair_routes:
  "admitted demo_rinfo 0 demo_pair"
  "routes_to (sint (ipv4_to_u32 (ip_at demo_packet 12))) (sint (ipv4_to_u32 (ip_at demo_packet 16))) (demo_rinfo\<lparr>port := 1\<rparr>) demo_pair"
  by (simp_all add: admitted_def demo_pair_def new_server_def routes_to_def demo_packet_def ip_at_def nth_append new_peer_def)

theorem fragments_cross_server_witness:
  "\<exists>a' ds s' buf c'. lan_client_send demo_env LAN_CLIENT_TYPE_IPV4 demo_packet 30 (zero_relay\<lparr>client := zero_client\<lparr>pmtu := 16\<rparr>\<rparr>) =
      Some (0, a') \<and> out a' = map (\<lambda>d. ServerUdp d 0) ds \<and>
    srv_receive 5 demo_rinfo ds demo_pair = Some s' \<and> srv_out s' = map (Pair (demo_rinfo\<lparr>port := 1\<rparr>)) ds \<and>
    receive_frags demo_env [drop 1 (ds ! 1), drop 1 (ds ! 0) @ [9]] zero_relay =
      lan_client_process demo_env buf 30 (zero_relay\<lparr>client := c'\<rparr>) \<and> take 30 buf = demo_packet"
proof -
  have p: "parts 16 30 = 2" by (simp add: parts_def)
  have "frag_sizes 16 30 demo_packet" by (simp add: frag_sizes_def p demo_packet_def)
  moreover have "can_start 0 demo_packet (client zero_relay)"
    by (simp add: can_start_def zero_relay_def zero_client_def no_fragment_def)
  moreover have "fst ` set [(1 :: nat, []), (0, [9 :: byte])] = {..<parts 16 30}" unfolding p by auto
  moreover have "\<forall>k < parts 16 30. 4 < chunk_len 16 30 k" unfolding p by (auto simp: chunk_len_def less_2_cases_iff)
  moreover have "take 30 demo_packet = demo_packet" "srv_out demo_pair = []"
    by (simp_all add: demo_packet_def demo_pair_def new_server_def)
  ultimately show ?thesis
    using fragments_cross_server [of 16 30 demo_packet "zero_relay\<lparr>client := zero_client\<lparr>pmtu := 16\<rparr>\<rparr>" demo_env demo_rinfo 0 demo_pair
        "demo_rinfo\<lparr>port := 1\<rparr>" zero_relay "[(1, []), (0, [9])]" 5 demo_env] demo_pair_routes
    by (fastforce simp: zero_client_def zero_relay_def demo_env_def)
qed

text \<open>
  A last part of at most four bytes is lost.  The server takes a fragment for a packet when it checks its length, so
  a part with at most four bytes of the packet is dropped: it sends nothing, and the packet is never complete.
\<close>

theorem short_fragment_lost:
  assumes "frag_sizes n len packet" "k < parts n len" "chunk_len n len k \<le> 4" "admitted r p s"
  shows "\<exists>s'. onMessage t (datagram ident n packet len k) r s = Some s' \<and> srv_out s' = srv_out s \<and> srv_ipCache s' = srv_ipCache s"
proof -
  let ?d = "drop 1 (datagram ident n packet len k)"
  have d: "datagram ident n packet len k = Ipv4Frag # ?d" "length ?d \<le> 20"
    using datagram_addresses(1,4) [OF assms(1), where ident = ident and k = k] assms(2,3) by simp_all
  let ?s = "s\<lparr>srv_download := srv_download s + int (length (Ipv4Frag # ?d))\<rparr>"
  obtain u where m: "manager_get t r ?s = (p, u)" "srv_peers u = srv_peers s"
    using assms(4) manager_get_known [of ?s r _ t] by (cases "manager_get t r ?s") (auto simp: admitted_def)
  have u: "srv_provider u = srv_provider s" "srv_out u = srv_out s" "srv_ipCache u = srv_ipCache s"
    using manager_get_fields [of t r ?s] unfolding m(1) snd_conv by simp_all
  have "onMessage t (Ipv4Frag # ?d) r s = Some u"
    using assms(4) onMessage_peer [of Ipv4Frag t ?d r s] m(2) u d(2) unfolding m(1)
    by (auto simp: admitted_def forward_simps forward_ipv4_def)
  then show ?thesis using u d(1) by simp
qed

theorem short_fragment_lost_witness:
  "\<exists>s'. onMessage 5 (datagram 0 15 (replicate 17 0 @ replicate 16 7) 33 2) demo_rinfo demo_pair = Some s' \<and> srv_out s' = []"
proof -
  have p: "parts 15 33 = 3" "chunk_len 15 33 2 \<le> 4" by (simp_all add: parts_def chunk_len_def)
  have "frag_sizes 15 33 (replicate 17 0 @ replicate 16 7)" by (simp add: frag_sizes_def p)
  then show ?thesis
    using short_fragment_lost [of 15 33 "replicate 17 0 @ replicate 16 7" 2 demo_rinfo 0 demo_pair 5 0] p demo_pair_routes(1)
    by (auto simp: demo_pair_def new_server_def)
qed

end
