(* ===== verification/Dhcp_Session.thy ===== *)
theory Dhcp_Session
  imports Example
begin

text \<open>
  The DHCP server in a session with a console: what its answers look like, which address it offers, and the exchange
  of DISCOVER, OFFER, REQUEST and ACK.
\<close>

section \<open>Answers\<close>

text \<open>
  An answer of type \<open>mt\<close> to the request \<open>req\<close> of the client \<open>m\<close>: a UDP datagram from port 67 of the relay to port 68 of
  everybody, with valid checksums, whose message repeats the transaction number and the client's address, assigns
  the address \<open>ip\<close> and ends with the options for the overlay network.
\<close>

definition dhcp_answer :: "byte list \<Rightarrow> mac \<Rightarrow> dhcp_request \<Rightarrow> byte \<Rightarrow> ip4 \<Rightarrow> lan_play \<Rightarrow> bool" where
  "dhcp_answer p m req mt ip lp \<longleftrightarrow>
     length p = 328 \<and> ipv4_header_checksum (take 20 p) = 0 \<and> udp_verifies p 20 328 \<and>
     ip_at p 12 = ctx_ip (ctx lp) \<and> ip_at p 16 = IP4 255 255 255 255 \<and>
     be16 (p ! 20) (p ! 21) = 67 \<and> be16 (p ! 22) (p ! 23) = 68 \<and>
     (let msg = drop 28 p; os = encode_options (reply_options lp mt)
      in window msg 0 3 = [2, 1, 6] \<and> be16 (msg ! 4) (msg ! 5) = ucast (drop_bit 16 (xid req)) \<and>
         be16 (msg ! 6) (msg ! 7) = ucast (xid req AND 0xffff) \<and> ip_at msg 16 = ip \<and>
         ip_at msg 20 = ctx_ip (ctx lp) \<and> mac_at msg 28 = m \<and> window msg 240 (length os + 1) = os @ [255])"

definition dhcp_frame :: "lan_play \<Rightarrow> byte list \<Rightarrow> byte list" where
  "dhcp_frame lp p = ether_bytes BROADCAST_MAC (wifi_mac lp) ETHER_TYPE_IPV4 p"

lemma dhcp_answer_cong: "config a = config b \<Longrightarrow> dhcp_answer p m req mt ip a = dhcp_answer p m req mt ip b"
  by (simp add: dhcp_answer_def reply_options_def config_def)

lemma dhcp_reply_answers: "dhcp_reply_packet m req mt ip lp = Some p \<Longrightarrow> dhcp_answer p m req mt ip lp"
  using dhcp_reply_packet_Some [of m req mt ip lp] dhcp_message_Some [of m req mt ip lp]
  by (auto simp: dhcp_answer_def Let_def)

lemma send_reply_answers:
  assumes ok: "relay_ok lp"
  shows "\<exists>r lp' p. dhcp_send_reply e m req mt ip lp = Some (r, lp') \<and> dhcp_answer p m req mt ip lp \<and>
    out lp' = out lp @ [Tx WiFi 0 (dhcp_frame lp p) r] \<and> dhcp_state lp' = dhcp_state lp \<and> advance config lp lp'"
proof -
  have io: "io_ok lp" using ok by (simp add: relay_ok_def)
  obtain r lp' p where s: "dhcp_reply_packet m req mt ip lp = Some p" "dhcp_send_reply e m req mt ip lp = Some (r, lp')"
    "sent WiFi (dhcp_frame lp p) r (lp\<lparr>dhcp_ip_id := dhcp_ip_id lp + 1\<rparr>) lp'"
    using dhcp_send_reply_sent [OF io] unfolding dhcp_frame_def by blast
  obtain r' lp'' where "dhcp_send_reply e m req mt ip lp = Some (r', lp'')" "progress lp lp''" "dhcp_state lp'' = dhcp_state lp"
    using dhcp_reply_progress [OF ok] by blast
  then have "progress lp lp'" "dhcp_state lp' = dhcp_state lp" using s(2) by simp_all
  moreover have "advance config lp lp'" using calculation(1) by (rule advance_weaken) (simp add: still_def)
  moreover have "out lp' = out lp @ [Tx WiFi 0 (dhcp_frame lp p) r]" using s(3) by (simp add: sent_def)
  ultimately show ?thesis using s(1,2) dhcp_reply_answers by blast
qed

section \<open>The exchange\<close>

lemma claim_slot:
  assumes "l \<in> set (leases (dhcp_state lp))" "\<not> used l"
  shows "\<exists>i lp'. dhcp_claim t m ip b lp = (Some i, lp')"
  using assms find_index_None [of "\<lambda>l. \<not> used l" "leases (dhcp_state lp)"]
  by (cases "find_index (\<lambda>l. \<not> used l) (leases (dhcp_state lp))") (auto simp: dhcp_claim_def Let_def split: option.splits)

lemma claim_others: "config (snd (dhcp_claim t m ip b lp)) = config lp" "out (snd (dhcp_claim t m ip b lp)) = out lp"
  "wifi_mac (snd (dhcp_claim t m ip b lp)) = wifi_mac lp"
  by (auto simp: dhcp_claim_def set_leases_def config_def Let_def split: option.splits)

lemma discover_offers:
  assumes ok: "relay_ok lp" and pick: "dhcp_pick_ip e m lp = Some ip"
    and claim: "dhcp_claim (now (clk e)) m ip True lp = (Some i, lpc)" and okc: "relay_ok lpc"
  shows "\<exists>lp' p r. dhcp_discover e m req lp = Some (True, lp') \<and> dhcp_answer p m req DHCP_MSG_OFFER ip lp \<and>
    out lp' = out lp @ [Tx WiFi 0 (dhcp_frame lp p) r] \<and> leases (dhcp_state lp') = leases (dhcp_state lpc)"
proof -
  have c: "config lpc = config lp" "out lpc = out lp" "wifi_mac lpc = wifi_mac lp"
    using claim_others [of "now (clk e)" m ip True lp] claim by simp_all
  obtain r lp' p where s: "dhcp_send_reply e m req DHCP_MSG_OFFER ip lpc = Some (r, lp')"
    "dhcp_answer p m req DHCP_MSG_OFFER ip lpc" "out lp' = out lpc @ [Tx WiFi 0 (dhcp_frame lpc p) r]"
    "dhcp_state lp' = dhcp_state lpc" using send_reply_answers [OF okc] by blast
  have "dhcp_answer p m req DHCP_MSG_OFFER ip lp" "dhcp_frame lpc p = dhcp_frame lp p"
    using s(2) dhcp_answer_cong [OF c(1)] c(3) by (simp_all add: dhcp_frame_def)
  then show ?thesis using pick claim s c(2) by (auto simp: dhcp_discover_def upd_dhcp_def)
qed

lemma request_acks:
  assumes ok: "relay_ok lp" and ls: "ls = leases (dhcp_state lp)" and found: "dhcp_find_mac m ls = Some i"
    and live: "now (clk e) < expires (ls ! i)" and want: "has_requested_ip req" "requested_ip req = lease_ip (ls ! i)"
    and okc: "relay_ok (snd (dhcp_claim (now (clk e)) m (requested_ip req) False lp))"
  shows "\<exists>lp' p r. dhcp_request_msg e m req lp = Some (True, lp') \<and>
    dhcp_answer p m req DHCP_MSG_ACK (requested_ip req) lp \<and> out lp' = out lp @ [Tx WiFi 0 (dhcp_frame lp p) r] \<and>
    leases (dhcp_state lp') = ls[i := \<lparr>lease_mac = m, lease_ip = requested_ip req, expires = now (clk e) + 3600,
      offered = False, used = True\<rparr>]"
proof -
  define lpc where "lpc = snd (dhcp_claim (now (clk e)) m (requested_ip req) False lp)"
  have c: "config lpc = config lp" "out lpc = out lp" "wifi_mac lpc = wifi_mac lp"
    using claim_others [of "now (clk e)" m "requested_ip req" False lp] by (simp_all add: lpc_def)
  have l: "leases (dhcp_state lpc) = ls[i := \<lparr>lease_mac = m, lease_ip = requested_ip req, expires = now (clk e) + 3600,
      offered = False, used = True\<rparr>]" using found ls by (simp add: lpc_def dhcp_claim_def)
  obtain r lp' p where s: "dhcp_send_reply e m req DHCP_MSG_ACK (requested_ip req) lpc = Some (r, lp')"
    "dhcp_answer p m req DHCP_MSG_ACK (requested_ip req) lpc" "out lp' = out lpc @ [Tx WiFi 0 (dhcp_frame lpc p) r]"
    "dhcp_state lp' = dhcp_state lpc" using send_reply_answers [OF okc] unfolding lpc_def by blast
  have "dhcp_answer p m req DHCP_MSG_ACK (requested_ip req) lp" "dhcp_frame lpc p = dhcp_frame lp p"
    using s(2) dhcp_answer_cong [OF c(1)] c(3) by (simp_all add: dhcp_frame_def)
  moreover have "dhcp_request_msg e m req lp =
      Some (True, if r = 0 then upd_dhcp (\<lambda>s. s\<lparr>acks_sent := acks_sent s + 1\<rparr>) lp' else lp')"
    using found live want s(1) [unfolded lpc_def] by (simp add: dhcp_request_msg_def Let_def flip: ls)
  ultimately show ?thesis using s(3,4) c(2) l by (auto simp: upd_dhcp_def)
qed

text \<open>The state in which the server handles a message: expired leases are gone.\<close>

definition dhcp_swept :: "env \<Rightarrow> lan_play \<Rightarrow> lan_play" where
  "dhcp_swept e lp = set_leases (dhcp_sweep_expired (now (clk e)) (leases (dhcp_state lp))) lp"

definition dhcp_on :: "env \<Rightarrow> lan_play \<Rightarrow> bool" where
  "dhcp_on e lp \<longleftrightarrow> dhcp_server (options e) \<and> wifi_subnet_known lp"

lemma swept_others: "config (dhcp_swept e lp) = config lp" "out (dhcp_swept e lp) = out lp" "wifi_mac (dhcp_swept e lp) = wifi_mac lp"
  by (simp_all add: dhcp_swept_def set_leases_def config_def)

lemma swept_ok:
  assumes "relay_ok lp" "leases_ok (leases (dhcp_state lp))"
  shows "relay_ok (dhcp_swept e lp)" "leases_ok (leases (dhcp_state (dhcp_swept e lp)))"
    "all_live (now (clk e)) (leases (dhcp_state (dhcp_swept e lp)))"
  using assms leases_ok_sweep all_live_sweep progress_ok [OF progress_dhcp_state [OF assms(1)]]
  by (simp_all add: dhcp_swept_def set_leases_def)

lemma claim_relay_ok: "relay_ok lp \<Longrightarrow> relay_ok (snd (dhcp_claim t m ip b lp))"
  using progress_ok [OF progress_dhcp_state] by (auto simp: dhcp_claim_def set_leases_def Let_def split: option.splits)

lemma consume_request:
  assumes "dhcp_on e lp" "dhcp_parse f = Some (Some req)"
  shows "dhcp_server_consume e f lp =
    (if \<not> is_nintendo_mac (mac_at f 6)
     then Some (True, upd_dhcp (\<lambda>s. s\<lparr>ignored_non_nintendo := ignored_non_nintendo s + 1\<rparr>) (dhcp_swept e lp))
     else if msg_type req = DHCP_MSG_DISCOVER then dhcp_discover e (mac_at f 6) req (dhcp_swept e lp)
     else if msg_type req = DHCP_MSG_REQUEST then dhcp_request_msg e (mac_at f 6) req (dhcp_swept e lp)
     else if msg_type req = DHCP_MSG_RELEASE then Some (True, dhcp_release (mac_at f 6) (dhcp_swept e lp))
     else Some (True, dhcp_swept e lp))"
  using assms dhcp_parse_length [OF assms(2)]
  by (simp add: dhcp_server_consume_def dhcp_on_def CPY_MAC_Some Let_def flip: dhcp_swept_def)

text \<open>A lease that has not expired is found again by the client's hardware address.\<close>

lemma find_live_lease:
  assumes ok: "leases_ok ls" and i: "i < length ls" "used (ls ! i)" "lease_mac (ls ! i) = m" and live: "t < expires (ls ! i)"
  shows "dhcp_find_mac m (dhcp_sweep_expired t ls) = Some i" "dhcp_sweep_expired t ls ! i = ls ! i"
proof -
  have nth: "dhcp_sweep_expired t ls ! j = (if used (ls ! j) \<and> expires (ls ! j) \<le> t then no_lease else ls ! j)"
    if "j < length ls" for j using that by (simp add: dhcp_sweep_expired_def)
  have len: "length (dhcp_sweep_expired t ls) = length ls" by (simp add: dhcp_sweep_expired_def)
  have "lease_mac (ls ! j) \<noteq> m" if "j < length ls" "used (ls ! j)" "j \<noteq> i" for j
    using ok that i unfolding leases_ok_def by metis
  then show "dhcp_find_mac m (dhcp_sweep_expired t ls) = Some i"
    unfolding dhcp_find_mac_def using i live by (intro find_index_unique) (auto simp: len nth)
  show "dhcp_sweep_expired t ls ! i = ls ! i" using nth [OF i(1)] live by auto
qed

section \<open>A client's messages\<close>

text \<open>The frame of a client with the given options: BOOTP request, transaction 0x01020304, no address yet.\<close>

definition client_msg :: "mac \<Rightarrow> byte list \<Rightarrow> byte list" where
  "client_msg m os = [1, 1, 6, 0, 1, 2, 3, 4] @ replicate 20 0 @ mac_bytes m @ replicate 202 0 @ [0x63, 0x82, 0x53, 0x63] @ os"

definition client_frame :: "mac \<Rightarrow> byte list \<Rightarrow> byte list" where
  "client_frame m os = ether_bytes BROADCAST_MAC m ETHER_TYPE_IPV4
     ([0x45, 0] @ net16 (word_of_nat (268 + length os)) @ [0, 0, 0, 0, 64, 17, 0, 0, 0, 0, 0, 0, 255, 255, 255, 255] @
      [0, 68, 0, 67] @ net16 (word_of_nat (248 + length os)) @ [0, 0] @ client_msg m os)"

definition client_request :: "mac \<Rightarrow> dhcp_request" where
  "client_request m = empty_request\<lparr>xid := 0x01020304, chaddr := m\<rparr>"

lemma client_msg_parts:
  "length (client_msg m os) = 240 + length os" "window (client_msg m os) 0 3 = [1, 1, 6]"
  "client_msg m os ! 236 = 0x63" "client_msg m os ! 237 = 0x82" "client_msg m os ! 238 = 0x53" "client_msg m os ! 239 = 0x63"
  "client_msg m os ! (240 + i) = os ! i"
  "ip_at (client_msg m os) 12 = NONE_IP" "mac_at (client_msg m os) 28 = m"
  by (simp_all add: client_msg_def window_def nth_append ip_at_def NONE_IP_def mac_at_def) (cases m; simp)

lemma client_parse:
  assumes "length os \<le> 1000"
  shows "dhcp_parse (client_frame m os) = do {
     req \<leftarrow> option_loop (client_msg m os) (260 + length os) 240 (client_request m);
     Some (if msg_type req \<noteq> 0 then Some req else None) }"
proof -
  define t u where tu: "t = (word_of_nat (268 + length os) :: u16)" "u = (word_of_nat (248 + length os) :: u16)"
  have n: "unat t = 268 + length os" "unat u = 248 + length os"
    using assms unfolding tu by (simp_all only: unat_of_nat) simp_all
  have h: "header_len 69 = 20" "ip_version 69 = 4" by (simp_all add: header_len_def ip_version_def)
  have m: "client_msg m os ! 4 = 1" "client_msg m os ! 5 = 2" "client_msg m os ! 6 = 3" "client_msg m os ! 7 = 4"
    "client_msg m os ! 10 = 0" "client_msg m os ! 11 = 0" by (simp_all add: client_msg_def nth_append)
  have b: "be16 0 67 = 67" "be16 0x63 0x82 = 0x6382" "be16 0x53 0x63 = 0x5363" "be16 1 2 = 0x0102" "be16 3 4 = 0x304"
    "be16 0 0 = 0" by (simp_all add: be16_def)
  show ?thesis
    unfolding dhcp_parse_def client_frame_def tu [symmetric]
    by (simp add: checked_access net16_def Let_def n h m b client_msg_parts client_request_def empty_request_def)
qed

lemma client_discover: "dhcp_parse (client_frame m [53, 1, 1, 255]) = Some (Some ((client_request m)\<lparr>msg_type := 1\<rparr>))"
proof -
  let ?d = "client_msg m [53, 1, 1, 255]"
  have r: "read8 ?d 240 = Some 53" "read8 ?d 241 = Some 1" "read8 ?d 242 = Some 1" "read8 ?d 243 = Some 255"
    using client_msg_parts(7) [of m "[53, 1, 1, 255]" 0] client_msg_parts(7) [of m "[53, 1, 1, 255]" 1]
      client_msg_parts(7) [of m "[53, 1, 1, 255]" 2] client_msg_parts(7) [of m "[53, 1, 1, 255]" 3]
    by (simp_all add: read8_Some client_msg_parts(1))
  have "option_loop ?d 264 243 q = Some q" for q using r(4) by (subst option_loop.simps) simp
  then have "option_loop ?d 264 240 q = Some (q\<lparr>msg_type := 1\<rparr>)" for q
    using r by (subst option_loop.simps) (simp add: apply_option_def)
  then show ?thesis by (simp add: client_parse)
qed

lemma client_requests:
  "dhcp_parse (client_frame m [53, 1, 3, 50, 4, a, b, c, d, 255]) =
     Some (Some ((client_request m)\<lparr>msg_type := 3, requested_ip := IP4 a b c d, has_requested_ip := True\<rparr>))"
proof -
  let ?os = "[53, 1, 3, 50, 4, a, b, c, d, 255]"
  let ?d = "client_msg m ?os"
  have nth: "?d ! (240 + i) = ?os ! i" for i by (rule client_msg_parts(7))
  have len: "length ?d = 250" by (simp add: client_msg_parts(1))
  have r: "?d ! 240 = 53" "?d ! 241 = 1" "?d ! 242 = 3" "?d ! 243 = 50" "?d ! 244 = 4" "?d ! 245 = a" "?d ! 246 = b"
    "?d ! 247 = c" "?d ! 248 = d" "?d ! 249 = 255"
    using nth [of 0] nth [of 1] nth [of 2] nth [of 3] nth [of 4] nth [of 5] nth [of 6] nth [of 7] nth [of 8] nth [of 9]
    by simp_all
  have "option_loop ?d 270 249 q = Some q" for q using r by (subst option_loop.simps) (simp add: read8_Some len)
  then have "option_loop ?d 270 243 q = Some (q\<lparr>requested_ip := IP4 a b c d, has_requested_ip := True\<rparr>)" for q
    using r by (subst option_loop.simps) (simp add: apply_option_def read8_Some CPY_IPV4_Some ip_at_def len)
  then have "option_loop ?d 270 240 q = Some (q\<lparr>msg_type := 3, requested_ip := IP4 a b c d, has_requested_ip := True\<rparr>)" for q
    using r by (subst option_loop.simps) (simp add: apply_option_def read8_Some len)
  then show ?thesis by (simp add: client_parse)
qed

text \<open>Without an \<^verbatim>\<open>END\<close> option the parser leaves the frame.\<close>

lemma client_unclosed: "dhcp_parse (client_frame m [53, 1, t]) = None"
proof -
  let ?d = "client_msg m [53, 1, t]"
  have nth: "?d ! (240 + i) = [53, 1, t] ! i" for i by (rule client_msg_parts(7))
  have len: "length ?d = 243" by (simp add: client_msg_parts(1))
  have r: "?d ! 240 = 53" "?d ! 241 = 1" "?d ! 242 = t" using nth [of 0] nth [of 1] nth [of 2] by simp_all
  have "option_loop ?d 263 243 q = None" for q by (subst option_loop.simps) (simp add: read8_def len)
  then have "option_loop ?d 263 240 q = None" for q
    using r by (subst option_loop.simps) (simp add: apply_option_def read8_Some len)
  then show ?thesis by (simp add: client_parse)
qed

lemma client_closed: "dhcp_closed (client_frame m [53, 1, 1, 255])"
proof -
  let ?d = "client_msg m [53, 1, 1, 255]"
  have nth: "?d ! (240 + i) = [53, 1, 1, 255] ! i" for i by (rule client_msg_parts(7))
  have len: "length ?d = 244" by (simp add: client_msg_parts(1))
  have r: "?d ! 240 = 53" "?d ! 241 = 1" "?d ! 243 = 255" using nth [of 0] nth [of 1] nth [of 3] by simp_all
  have "drop 42 (client_frame m [53, 1, 1, 255]) = ?d" "header_len (client_frame m [53, 1, 1, 255] ! 14) = 20"
    by (simp_all add: client_frame_def ether_bytes_def net16_def header_len_def nth_append)
  moreover have "options_closed ?d 243" using r by (subst options_closed.simps) (simp add: len)
  then have "options_closed ?d 240" using r by (subst options_closed.simps) (simp add: len)
  ultimately show ?thesis by (simp add: dhcp_closed_def)
qed

text \<open>The example relay with its DHCP server switched on.\<close>

definition dhcp_env :: env where
  "dhcp_env = demo_env\<lparr>options := (options demo_env)\<lparr>dhcp_server := True\<rparr>\<rparr>"

lemma demo_leases: "leases (dhcp_state (dhcp_swept e demo_started)) = replicate 8 no_lease"
  by (simp add: dhcp_swept_def dhcp_sweep_expired_def dhcp_server_init_def demo_started_def zero_relay_def)

lemma demo_pick: "dhcp_pick_ip dhcp_env console_mac (dhcp_swept dhcp_env demo_started) = Some (IP4 10 147 17 5)"
proof -
  have "dhcp_find_mac console_mac (replicate 8 no_lease) = None" by (simp add: dhcp_find_mac_def find_index_None)
  moreover have "\<not> arp_has_ip arp_list_init t ip" if "0 \<le> t" for t ip
    using arp_has_ip_lookup arp_lookup_init [OF that] by simp
  ultimately show ?thesis unfolding dhcp_pick_ip_def demo_leases Let_def
    by (simp add: lease_taken_by_other_def dhcp_env_def demo_env_def dhcp_swept_def set_leases_def demo_started_def
        zero_relay_def packet_init_def u32_to_ipv4_def)
qed

text \<open>A state with two leases.\<close>

definition two_leases :: lan_play where
  "two_leases = set_leases (\<lparr>lease_mac = MAC 1 2 3 4 5 6, lease_ip = IP4 10 147 17 5, expires = 1120, offered = True, used = True\<rparr> #
     \<lparr>lease_mac = MAC 1 2 3 4 5 7, lease_ip = IP4 10 147 17 254, expires = 1120, offered = True, used = True\<rparr> #
     replicate 6 no_lease) demo_started"

lemma two_leases_ok: "run_ok two_leases"
proof -
  have "relay_ok two_leases"
    using progress_ok [OF progress_dhcp_state] demo_started_ok unfolding two_leases_def set_leases_def run_ok_def by blast
  moreover have "leases_ok (leases (dhcp_state two_leases))"
    by (auto simp: two_leases_def leases_ok_def nth_Cons' no_lease_def)
  ultimately show ?thesis using demo_started_ok
    by (simp add: run_ok_def console_ok_def two_leases_def set_leases_def demo_started_def zero_relay_def)
qed

text \<open>The two halves of the exchange, on captured frames.\<close>

lemma offer_step:
  assumes ok: "relay_ok lp" "leases_ok (leases (dhcp_state lp))" and on: "dhcp_on e lp"
    and f: "dhcp_parse f = Some (Some req)" "msg_type req = DHCP_MSG_DISCOVER" "mac_at f 6 = m" "is_nintendo_mac m"
    and pick: "dhcp_pick_ip e m (dhcp_swept e lp) = Some ip"
    and free: "l \<in> set (leases (dhcp_state (dhcp_swept e lp)))" "\<not> used l"
  shows "\<exists>lp' p rc i. dhcp_server_consume e f lp = Some (True, lp') \<and> out lp' = out lp @ [Tx WiFi 0 (dhcp_frame lp p) rc] \<and>
    dhcp_answer p m req DHCP_MSG_OFFER ip lp \<and> relay_ok lp' \<and> leases_ok (leases (dhcp_state lp')) \<and>
    config lp' = config lp \<and> wifi_mac lp' = wifi_mac lp \<and> i < length (leases (dhcp_state lp')) \<and>
    leases (dhcp_state lp') ! i = \<lparr>lease_mac = m, lease_ip = ip, expires = now (clk e) + 120, offered = True, used = True\<rparr>"
proof -
  let ?s = "dhcp_swept e lp"
  note s = swept_ok [OF ok, of e]
  obtain i lpc where c: "dhcp_claim (now (clk e)) m ip True ?s = (Some i, lpc)" using claim_slot [OF free] by metis
  have okc: "relay_ok lpc" using claim_relay_ok [OF s(1), of "now (clk e)" m ip True] c by simp
  obtain lp' p rc where 1: "dhcp_discover e m req ?s = Some (True, lp')" "dhcp_answer p m req DHCP_MSG_OFFER ip ?s"
    "out lp' = out ?s @ [Tx WiFi 0 (dhcp_frame ?s p) rc]" "leases (dhcp_state lp') = leases (dhcp_state lpc)"
    using discover_offers [OF s(1) pick c okc] by blast
  obtain lp'' where "dhcp_discover e m req ?s = Some (True, lp'')" "dhcp_step ?s lp''"
    using dhcp_discover_step [OF s] by blast
  then have "relay_ok lp'" "leases_ok (leases (dhcp_state lp'))" "config lp' = config lp" "wifi_mac lp' = wifi_mac lp"
    using 1(1) swept_others(1,3) [of e lp] by (auto simp: dhcp_step_def advance_def but_dhcp_def all_sides hw_simps)
  moreover have "dhcp_server_consume e f lp = Some (True, lp')" using consume_request [OF on f(1)] f 1(1) by simp
  moreover have "dhcp_answer p m req DHCP_MSG_OFFER ip lp" using 1(2) dhcp_answer_cong [OF swept_others(1) [of e lp]] by simp
  moreover have "dhcp_frame ?s p = dhcp_frame lp p" by (simp add: dhcp_frame_def swept_others(3))
  ultimately show ?thesis using 1(3,4) dhcp_claim_holds [OF c] swept_others(2) [of e lp] by auto
qed

lemma ack_step:
  assumes ok: "relay_ok lp" "leases_ok (leases (dhcp_state lp))" and on: "dhcp_on e lp"
    and f: "dhcp_parse f = Some (Some req)" "msg_type req = DHCP_MSG_REQUEST" "mac_at f 6 = m" "has_requested_ip req"
    and m: "is_nintendo_mac m" and i: "i < length (leases (dhcp_state lp))"
    and l: "leases (dhcp_state lp) ! i = \<lparr>lease_mac = m, lease_ip = requested_ip req, expires = t, offered = b, used = True\<rparr>"
    and time: "now (clk e) < t"
  shows "\<exists>lp' p rc. dhcp_server_consume e f lp = Some (True, lp') \<and> out lp' = out lp @ [Tx WiFi 0 (dhcp_frame lp p) rc] \<and>
    dhcp_answer p m req DHCP_MSG_ACK (requested_ip req) lp \<and>
    leases (dhcp_state lp') ! i = \<lparr>lease_mac = m, lease_ip = requested_ip req, expires = now (clk e) + 3600,
      offered = False, used = True\<rparr>"
proof -
  let ?ip = "requested_ip req" and ?s = "dhcp_swept e lp" and ?ls = "leases (dhcp_state lp)"
  have ok': "relay_ok ?s" by (rule swept_ok [OF ok])
  have ls: "dhcp_sweep_expired (now (clk e)) ?ls = leases (dhcp_state ?s)" by (simp add: dhcp_swept_def)
  note found = find_live_lease [OF ok(2) i, of m "now (clk e)", unfolded l, simplified, OF time]
  obtain lp' p rc where 2: "dhcp_request_msg e m req ?s = Some (True, lp')" "dhcp_answer p m req DHCP_MSG_ACK ?ip ?s"
    "out lp' = out ?s @ [Tx WiFi 0 (dhcp_frame ?s p) rc]"
    "leases (dhcp_state lp') = (dhcp_sweep_expired (now (clk e)) ?ls)[i := \<lparr>lease_mac = m, lease_ip = ?ip,
       expires = now (clk e) + 3600, offered = False, used = True\<rparr>]"
    using request_acks [OF ok' ls found(1) _ f(4) _ claim_relay_ok [OF ok'], of e] found(2) time by fastforce
  moreover have "dhcp_server_consume e f lp = Some (True, lp')" using consume_request [OF on f(1)] f m 2(1) by simp
  moreover have "dhcp_answer p m req DHCP_MSG_ACK ?ip lp" using 2(2) dhcp_answer_cong [OF swept_others(1) [of e lp]] by simp
  moreover have "dhcp_frame ?s p = dhcp_frame lp p" by (simp add: dhcp_frame_def swept_others(3))
  ultimately show ?thesis using i swept_others(2) [of e lp] by (auto simp: dhcp_sweep_expired_def)
qed

section \<open>Properties\<close>

text \<open>
  C6.  The DHCP handshake completes.  When a Nintendo console asks for an address and the server picks \<open>ip\<close> and has a
  free slot, the console gets exactly one OFFER of \<open>ip\<close>; when it requests \<open>ip\<close> within two minutes, it gets
  exactly one ACK of \<open>ip\<close> and holds a lease of one hour on it.
\<close>

theorem dhcp_handshake:
  assumes ok: "run_ok lp" and on: "dhcp_on e1 lp" "dhcp_server (options e2)"
    and f1: "dhcp_parse f1 = Some (Some r1)" "msg_type r1 = DHCP_MSG_DISCOVER" "mac_at f1 6 = m" "is_nintendo_mac m"
    and f2: "dhcp_parse f2 = Some (Some r2)" "msg_type r2 = DHCP_MSG_REQUEST" "mac_at f2 6 = m" "has_requested_ip r2"
    and pick: "dhcp_pick_ip e1 m (dhcp_swept e1 lp) = Some (requested_ip r2)"
    and free: "l \<in> set (leases (dhcp_state (dhcp_swept e1 lp)))" "\<not> used l"
    and time: "now (clk e2) < now (clk e1) + 120"
  shows "\<exists>lp1 lp2 p1 p2 rc1 rc2 i. dhcp_server_consume e1 f1 lp = Some (True, lp1) \<and>
    out lp1 = out lp @ [Tx WiFi 0 (dhcp_frame lp p1) rc1] \<and> dhcp_answer p1 m r1 DHCP_MSG_OFFER (requested_ip r2) lp \<and>
    dhcp_server_consume e2 f2 lp1 = Some (True, lp2) \<and>
    out lp2 = out lp1 @ [Tx WiFi 0 (dhcp_frame lp p2) rc2] \<and> dhcp_answer p2 m r2 DHCP_MSG_ACK (requested_ip r2) lp \<and>
    leases (dhcp_state lp2) ! i = \<lparr>lease_mac = m, lease_ip = requested_ip r2, expires = now (clk e2) + 3600,
      offered = False, used = True\<rparr>"
proof -
  obtain lp1 p1 rc1 i where 1: "dhcp_server_consume e1 f1 lp = Some (True, lp1)"
    "out lp1 = out lp @ [Tx WiFi 0 (dhcp_frame lp p1) rc1]" "dhcp_answer p1 m r1 DHCP_MSG_OFFER (requested_ip r2) lp"
    "relay_ok lp1" "leases_ok (leases (dhcp_state lp1))" "config lp1 = config lp" "wifi_mac lp1 = wifi_mac lp"
    "i < length (leases (dhcp_state lp1))" "leases (dhcp_state lp1) ! i = \<lparr>lease_mac = m, lease_ip = requested_ip r2,
       expires = now (clk e1) + 120, offered = True, used = True\<rparr>"
    using offer_step [OF _ _ on(1) f1 pick free] ok by (auto simp: run_ok_def)
  have "dhcp_on e2 lp1" using on 1(6) by (simp add: dhcp_on_def config_def)
  then obtain lp2 p2 rc2 where 2: "dhcp_server_consume e2 f2 lp1 = Some (True, lp2)"
    "out lp2 = out lp1 @ [Tx WiFi 0 (dhcp_frame lp1 p2) rc2]" "dhcp_answer p2 m r2 DHCP_MSG_ACK (requested_ip r2) lp1"
    "leases (dhcp_state lp2) ! i = \<lparr>lease_mac = m, lease_ip = requested_ip r2, expires = now (clk e2) + 3600,
      offered = False, used = True\<rparr>"
    using ack_step [OF 1(4,5) _ f2 f1(4) 1(8,9) time] by auto
  have "dhcp_answer p2 m r2 DHCP_MSG_ACK (requested_ip r2) lp" "dhcp_frame lp1 p2 = dhcp_frame lp p2"
    using 2(3) dhcp_answer_cong [OF 1(6)] 1(7) by (simp_all add: dhcp_frame_def)
  then show ?thesis using 1(1-3) 2(1,2,4) by metis
qed

theorem dhcp_handshake_witness:
  "\<exists>lp1 lp2 p1 p2 rc1 rc2. dhcp_server_consume dhcp_env (client_frame console_mac [53, 1, 1, 255]) demo_started = Some (True, lp1) \<and>
    out lp1 = [Tx WiFi 0 (dhcp_frame demo_started p1) rc1] \<and>
    dhcp_server_consume dhcp_env (client_frame console_mac [53, 1, 3, 50, 4, 10, 147, 17, 5, 255]) lp1 = Some (True, lp2) \<and>
    out lp2 = [Tx WiFi 0 (dhcp_frame demo_started p1) rc1, Tx WiFi 0 (dhcp_frame demo_started p2) rc2]"
proof -
  have "dhcp_on dhcp_env demo_started" "dhcp_server (options dhcp_env)" "is_nintendo_mac console_mac"
    by (simp_all add: dhcp_on_def dhcp_env_def demo_started_def console_mac_def NINTENDO_OUIS_def)
  moreover have "no_lease \<in> set (leases (dhcp_state (dhcp_swept dhcp_env demo_started)))" by (simp add: demo_leases)
  moreover have "mac_at (client_frame m os) 6 = m" for m os by (simp add: client_frame_def)
  moreover have "out demo_started = []" by (simp add: demo_started_def zero_relay_def)
  ultimately show ?thesis
    using dhcp_handshake [OF demo_started_ok _ _ client_discover _ _ _ client_requests, of dhcp_env dhcp_env console_mac
        console_mac 10 147 17 5 console_mac no_lease] demo_pick by fastforce
qed

text \<open>
  C24.  No two clients share a lease: in every reachable state the lease table has eight entries, and different used
  entries have different hardware addresses and different IPv4 addresses.
\<close>

theorem leases_never_shared:
  assumes "run_ok lp" "reaches lp lp'" "i < 8" "j < 8" "i \<noteq> j"
    and "used (leases (dhcp_state lp') ! i)" "used (leases (dhcp_state lp') ! j)"
  shows "length (leases (dhcp_state lp')) = 8 \<and>
    lease_mac (leases (dhcp_state lp') ! i) \<noteq> lease_mac (leases (dhcp_state lp') ! j) \<and>
    lease_ip (leases (dhcp_state lp') ! i) \<noteq> lease_ip (leases (dhcp_state lp') ! j)"
proof -
  have "leases_ok (leases (dhcp_state lp'))"
    using run_step_D [OF reaches_run_step [OF assms(2,1)]] by (simp add: run_ok_def)
  then show ?thesis using assms(3-) by (simp add: leases_ok_def)
qed

theorem leases_never_shared_witness:
  "lease_ip (leases (dhcp_state two_leases) ! 0) \<noteq> lease_ip (leases (dhcp_state two_leases) ! 1)"
proof -
  have "used (leases (dhcp_state two_leases) ! 0)" "used (leases (dhcp_state two_leases) ! 1)"
    by (simp_all add: two_leases_def set_leases_def nth_Cons')
  then show ?thesis using leases_never_shared [OF two_leases_ok reaches.here, of 0 1] by simp
qed

text \<open>An address of the pool that nobody has: not the gateway's, the relay's, the console's, a known neighbour's or a
  client's.\<close>

definition pool_free :: "env \<Rightarrow> lan_play \<Rightarrow> u32 \<Rightarrow> bool" where
  "pool_free e lp c \<longleftrightarrow> c \<noteq> ipv4_to_u32 (ctx_ip (ctx lp)) \<and> c \<noteq> ipv4_to_u32 (zerotier_ip lp) \<and>
     \<not> (switch_seen lp \<and> u32_to_ipv4 c = switch_ip lp) \<and> \<not> arp_has_ip (arp_table (ctx lp)) (now (clk e)) (u32_to_ipv4 c) \<and>
     \<not> lease_taken (now (clk e)) (u32_to_ipv4 c) (leases (dhcp_state lp))"

text \<open>The loop returns the first free address below the broadcast address.\<close>

definition pool_pick :: "env \<Rightarrow> lan_play \<Rightarrow> u32 \<Rightarrow> u32 \<Rightarrow> nat \<Rightarrow> nat \<Rightarrow> bool" where
  "pool_pick e lp net bcast k n \<longleftrightarrow> k \<le> n \<and> n \<le> 24 \<and> net < bcast - word_of_nat n \<and> pool_free e lp (bcast - word_of_nat n) \<and>
     (\<forall>j. k \<le> j \<and> j < n \<longrightarrow> \<not> pool_free e lp (bcast - word_of_nat j))"

lemma pick_loop_highest:
  assumes "pick_loop e lp net bcast (bcast - word_of_nat k) = Some ip" "k \<le> 25"
  shows "\<exists>n. pool_pick e lp net bcast k n \<and> ip = u32_to_ipv4 (bcast - word_of_nat n)"
  using assms
proof (induction "25 - k" arbitrary: k)
  case (0 k)
  then have "k = 25" by simp
  then have "pick_loop e lp net bcast (bcast - word_of_nat k) = None" by (subst pick_loop.simps) simp
  then show ?case using "0.prems" by simp
next
  case (Suc d k)
  let ?c = "bcast - word_of_nat k :: u32"
  have "k \<le> 24" using Suc.hyps(2) by simp
  have "pick_loop e lp net bcast ?c \<noteq> None" using Suc.prems by simp
  then have net: "net < ?c \<and> bcast - ?c \<le> 24" by (subst (asm) pick_loop.simps) (auto split: if_splits)
  note step = pick_loop.simps [of e lp net bcast ?c, unfolded Let_def if_P [OF net]]
  show ?case
  proof (cases "pool_free e lp ?c")
    case True
    then have "pick_loop e lp net bcast ?c = Some (u32_to_ipv4 ?c)" unfolding step by (auto simp: pool_free_def)
    then show ?thesis using True net \<open>k \<le> 24\<close> Suc.prems(1) by (intro exI [of _ k]) (auto simp: pool_pick_def)
  next
    case False
    have "?c - 1 = bcast - word_of_nat (Suc k)" by simp
    then have "pick_loop e lp net bcast ?c = pick_loop e lp net bcast (bcast - word_of_nat (Suc k))"
      using False unfolding step pool_free_def by (simp only:) auto
    then have next_ip: "pick_loop e lp net bcast (bcast - word_of_nat (Suc k)) = Some ip" using Suc.prems(1) by (simp only:)
    have "d = 25 - Suc k" "Suc k \<le> 25" using Suc.hyps(2) by linarith+
    from Suc.hyps(1) [OF this(1) next_ip this(2)]
    obtain n where n: "pool_pick e lp net bcast (Suc k) n" "ip = u32_to_ipv4 (bcast - word_of_nat n)" by blast
    moreover have "\<not> pool_free e lp (bcast - word_of_nat j)" if "k \<le> j" "j < n" for j
      using that False n(1) unfolding pool_pick_def by (cases "j = k") simp_all
    ultimately show ?thesis by (intro exI [of _ n]) (auto simp: pool_pick_def)
  qed
qed

text \<open>
  C26.  The server picks safe addresses.  Whatever it picks is not leased to another client; and it is the client's own
  unexpired lease, or the relay's overlay address when no neighbour answers for it and no console with another address is
  known, or the highest of the 24 addresses below the broadcast address of the overlay, the broadcast address excluded,
  that is neither the gateway's nor the relay's, a known neighbour's, the known console's or another client's.
\<close>

theorem dhcp_pick_sound:
  assumes pick: "dhcp_pick_ip e m lp = Some ip" and ok: "leases_ok (leases (dhcp_state lp))"
    and live: "all_live (now (clk e)) (leases (dhcp_state lp))"
  shows "(\<forall>l \<in> set (leases (dhcp_state lp)). used l \<and> lease_mac l \<noteq> m \<longrightarrow> lease_ip l \<noteq> ip) \<and>
    ((\<exists>l \<in> set (leases (dhcp_state lp)). used l \<and> lease_mac l = m \<and> now (clk e) < expires l \<and> lease_ip l = ip) \<or>
     ip = zerotier_ip lp \<and> \<not> arp_has_ip (arp_table (ctx lp)) (now (clk e)) ip \<and> (switch_seen lp \<longrightarrow> ip = switch_ip lp) \<or>
     (\<exists>n. 1 \<le> n \<and> n \<le> 24 \<and> ipv4_to_u32 ip = ipv4_to_u32 (zerotier_broadcast_ip lp) - word_of_nat n \<and>
        ipv4_to_u32 (zerotier_ip lp) AND ipv4_to_u32 (zerotier_netmask lp) < ipv4_to_u32 ip \<and> pool_free e lp (ipv4_to_u32 ip) \<and>
        (\<forall>j. 1 \<le> j \<and> j < n \<longrightarrow> \<not> pool_free e lp (ipv4_to_u32 (zerotier_broadcast_ip lp) - word_of_nat j))))"
proof (cases "\<exists>i. dhcp_find_mac m (leases (dhcp_state lp)) = Some i \<and> now (clk e) < expires (leases (dhcp_state lp) ! i)")
  case True
  then obtain i where i: "dhcp_find_mac m (leases (dhcp_state lp)) = Some i" "ip = lease_ip (leases (dhcp_state lp) ! i)"
    "now (clk e) < expires (leases (dhcp_state lp) ! i)" using pick by (auto simp: dhcp_pick_ip_def Let_def)
  then have "\<exists>l \<in> set (leases (dhcp_state lp)). used l \<and> lease_mac l = m \<and> now (clk e) < expires l \<and> lease_ip l = ip"
    using dhcp_find_mac_Some [OF i(1)] nth_mem by blast
  then show ?thesis using dhcp_pick_free [OF pick ok live] by blast
next
  case False
  let ?net = "ipv4_to_u32 (zerotier_ip lp) AND ipv4_to_u32 (zerotier_netmask lp)" and ?b = "ipv4_to_u32 (zerotier_broadcast_ip lp)"
  from False have "(case dhcp_find_mac m (leases (dhcp_state lp)) of
      Some i \<Rightarrow> if now (clk e) < expires (leases (dhcp_state lp) ! i) then Some (lease_ip (leases (dhcp_state lp) ! i)) else None
    | None \<Rightarrow> None) = None" by (auto split: option.splits)
  with pick have "ip = zerotier_ip lp \<and> \<not> arp_has_ip (arp_table (ctx lp)) (now (clk e)) ip \<and> (switch_seen lp \<longrightarrow> ip = switch_ip lp) \<or>
      pick_loop e lp ?net ?b (?b - word_of_nat 1) = Some ip"
    unfolding dhcp_pick_ip_def Let_def by (auto split: if_splits)
  then show ?thesis
  proof
    assume "pick_loop e lp ?net ?b (?b - word_of_nat 1) = Some ip"
    from pick_loop_highest [OF this] obtain n where "pool_pick e lp ?net ?b 1 n" "ipv4_to_u32 ip = ?b - word_of_nat n" by auto
    then show ?thesis using dhcp_pick_free [OF pick ok live] by (auto simp: pool_pick_def)
  qed (use dhcp_pick_free [OF pick ok live] in blast)
qed

theorem dhcp_pick_sound_witness:
  "dhcp_pick_ip dhcp_env (MAC 1 2 3 4 5 6) two_leases = Some (IP4 10 147 17 5) \<and>
   lease_ip (leases (dhcp_state two_leases) ! 1) \<noteq> IP4 10 147 17 5"
proof -
  have pick: "dhcp_pick_ip dhcp_env (MAC 1 2 3 4 5 6) two_leases = Some (IP4 10 147 17 5)"
    by (simp add: dhcp_pick_ip_def dhcp_find_mac_def two_leases_def set_leases_def dhcp_env_def demo_env_def)
  have "leases_ok (leases (dhcp_state two_leases))" using two_leases_ok by (simp add: run_ok_def)
  moreover have "all_live (now (clk dhcp_env)) (leases (dhcp_state two_leases))"
    by (simp add: all_live_def two_leases_def set_leases_def dhcp_env_def demo_env_def)
  moreover have "leases (dhcp_state two_leases) ! 1 \<in> set (leases (dhcp_state two_leases))"
    "used (leases (dhcp_state two_leases) ! 1)" "lease_mac (leases (dhcp_state two_leases) ! 1) \<noteq> MAC 1 2 3 4 5 6"
    by (simp_all add: two_leases_def set_leases_def)
  ultimately show ?thesis using dhcp_pick_sound [OF pick] pick by blast
qed

text \<open>
  Only Nintendo hardware is served.  A request from any other hardware address is consumed and counted, but not
  answered, and no lease is given or changed; only expired leases go.
\<close>

theorem dhcp_ignores_others:
  assumes "dhcp_on e lp" "dhcp_parse f = Some (Some req)" "\<not> is_nintendo_mac (mac_at f 6)"
  shows "\<exists>lp'. dhcp_server_consume e f lp = Some (True, lp') \<and> out lp' = out lp \<and>
    leases (dhcp_state lp') = dhcp_sweep_expired (now (clk e)) (leases (dhcp_state lp)) \<and>
    ignored_non_nintendo (dhcp_state lp') = ignored_non_nintendo (dhcp_state lp) + 1"
  using consume_request [OF assms(1,2)] assms(3) by (simp add: upd_dhcp_def dhcp_swept_def set_leases_def)

theorem dhcp_ignores_others_witness:
  "\<exists>lp'. dhcp_server_consume dhcp_env (client_frame (MAC 2 0 0 0 0 9) [53, 1, 1, 255]) demo_started = Some (True, lp') \<and> out lp' = []"
proof -
  have "dhcp_on dhcp_env demo_started" "\<not> is_nintendo_mac (mac_at (client_frame (MAC 2 0 0 0 0 9) [53, 1, 1, 255]) 6)"
    "out demo_started = []"
    by (simp_all add: dhcp_on_def dhcp_env_def client_frame_def demo_started_def zero_relay_def NINTENDO_OUIS_def)
  then show ?thesis using dhcp_ignores_others [OF _ client_discover] by metis
qed

text \<open>
  The parser needs the \<^verbatim>\<open>END\<close> option.  Its bound for the options is too large by the length of the IP header, so it
  reads a frame without fault when an \<^verbatim>\<open>END\<close> option closes the options inside the frame, and reads behind the
  frame, for instance, on a complete and well-formed message whose only option is the message type.
\<close>

theorem dhcp_parse_needs_end:
  shows "(dhcp_closed f \<longrightarrow> (\<exists>r. dhcp_parse f = Some r)) \<and> dhcp_parse (client_frame m [53, 1, t]) = None"
  using dhcp_parse_total client_unclosed by blast

theorem dhcp_parse_needs_end_witness:
  "dhcp_closed (client_frame console_mac [53, 1, 1, 255]) \<and>
   (\<exists>r. dhcp_parse (client_frame console_mac [53, 1, 1, 255]) = Some r) \<and> dhcp_parse (client_frame console_mac [53, 1, 1]) = None"
  using dhcp_parse_needs_end [of "client_frame console_mac [53, 1, 1, 255]" console_mac 1] client_closed by blast

end
