(* ===== verification/Console_Session.thy ===== *)
theory Console_Session
  imports Example
begin

text \<open>
  The relay and its console: how the console becomes known, how the relay answers for the peers on the overlay, and
  the probe that tests the way to the console.
\<close>

section \<open>ARP\<close>

lemma arp_body_parts:
  "length (arp_body op sm si tm ti) = 28" "be16 (arp_body op sm si tm ti ! 0) (arp_body op sm si tm ti ! 1) = 1"
  "be16 (arp_body op sm si tm ti ! 2) (arp_body op sm si tm ti ! 3) = ETHER_TYPE_IPV4"
  "arp_body op sm si tm ti ! 4 = 6" "arp_body op sm si tm ti ! 5 = 4"
  "be16 (arp_body op sm si tm ti ! 6) (arp_body op sm si tm ti ! 7) = op"
  "mac_at (arp_body op sm si tm ti) 8 = sm" "ip_at (arp_body op sm si tm ti) 14 = si"
  "mac_at (arp_body op sm si tm ti) 18 = tm" "ip_at (arp_body op sm si tm ti) 24 = ti"
  by (cases sm; cases si; cases tm; cases ti; simp add: arp_body_def net16_def mac_at_def ip_at_def)+

lemma parse_arp_body:
  "parse_arp \<lparr>raw = ether_bytes d s t (arp_body op sm si tm ti), raw_len = n, ether_dst = d, ether_src = s, ether_type = t\<rparr> =
     Some \<lparr>hardware_type = 1, protocol_type = ETHER_TYPE_IPV4, hardware_size = 6, protocol_size = 4, opcode = op,
       sender_mac = sm, sender_ip = si, target_mac = tm, target_ip = ti\<rparr>"
  by (simp add: parse_arp_def ether_payload_def checked_access arp_body_parts [simplified])

lemma arp_request_answered:
  assumes ok: "relay_ok lp" and m: "ctx_mac (ctx lp) = Some m" and w: "\<not> ingress_zerotier lp" "zerotier_if (options e) \<noteq> None"
    and a: "IS_SUBNET (target_ip a) (subnet_net (ctx lp)) (subnet_mask (ctx lp))" "target_ip a \<noteq> sender_ip a" "sender_ip a \<noteq> NONE_IP"
  shows "\<exists>r lp'. arp_request e a lp = Some (r, lp') \<and> sent WiFi (ether_bytes (sender_mac a) (wifi_mac lp) ETHER_TYPE_ARP
    (arp_body ARP_OPCODE_REPLY m (target_ip a) (sender_mac a) (sender_ip a))) r lp lp'"
proof -
  let ?b = "arp_body ARP_OPCODE_REPLY m (target_ip a) (sender_mac a) (sender_ip a)"
  have "io_ok lp" "42 < buffer_len (ctx lp)" using ok by (simp_all add: relay_ok_def)
  then have "\<exists>r lp'. send_ether e (sender_mac a) ETHER_TYPE_ARP [part ?b] lp = Some (r, lp') \<and>
      sent WiFi (ether_bytes (sender_mac a) (wifi_mac lp) ETHER_TYPE_ARP ?b) r lp lp'"
    using send_ether_sent [of lp m "[part ?b]" e "sender_mac a" ETHER_TYPE_ARP] m by simp
  then show ?thesis using w a m by (auto simp: arp_request_def send_arp_def send_arp_ex_def)
qed

section \<open>The probe\<close>

text \<open>An echo reply from the console for the probe sent in the environment \<open>e\<close>.\<close>

definition echo_reply :: "env \<Rightarrow> lan_play \<Rightarrow> byte list \<Rightarrow> bool" where
  "echo_reply e lp f \<longleftrightarrow> (\<exists>h c icmp. f = ether_bytes (wifi_mac lp) (switch_mac lp) ETHER_TYPE_IPV4 (h @ icmp) \<and> length h = 20 \<and>
     h ! 0 = 0x45 \<and> be16 (h ! 2) (h ! 3) = 44 \<and> h ! 9 = 1 \<and> \<not> is_fragment (be16 (h ! 6) (h ! 7)) \<and>
     ip_at h 12 = switch_ip lp \<and> ip_at h 16 = probe_source lp \<and> ipv4_header_checksum h = 0 \<and>
     icmp = [0, 0] @ net16 c @ net16 0x5a4c @ net16 1 @ probe_tag @ le64 (hrtime (clk e)) \<and> ipv4_header_checksum icmp = 0)"

lemma ip_at_prefix: "i + 4 \<le> length h \<Longrightarrow> ip_at (h @ t) i = ip_at h i"
  by (simp add: ip_at_def nth_append)

lemma consume_echo:
  assumes echo: "echo_reply e lp f" and lp: "wifi_delivery_probe_sent lp'" "wifi_delivery_probe_mac lp' = switch_mac lp"
    "wifi_delivery_probe_ip lp' = switch_ip lp" "wifi_delivery_probe_payload lp' = probe_tag @ le64 (hrtime (clk e))"
    "wifi_mac lp' = wifi_mac lp" "probe_source lp' = probe_source lp"
  shows "consume_wifi_delivery_reply f lp' = Some (True, lp'\<lparr>wifi_delivery_probe_replied := True\<rparr>)"
proof -
  obtain h c icmp where f: "f = ether_bytes (wifi_mac lp) (switch_mac lp) ETHER_TYPE_IPV4 (h @ icmp)" "length h = 20"
    and h: "h ! 0 = 0x45" "be16 (h ! 2) (h ! 3) = 44" "h ! 9 = 1" "\<not> is_fragment (be16 (h ! 6) (h ! 7))"
      "ip_at h 12 = switch_ip lp" "ip_at h 16 = probe_source lp" "ipv4_header_checksum h = 0"
    and i: "icmp = [0, 0] @ net16 c @ net16 0x5a4c @ net16 1 @ probe_tag @ le64 (hrtime (clk e))" "ipv4_header_checksum icmp = 0"
    using echo unfolding echo_reply_def by blast
  have len: "length icmp = 24" by (simp add: i(1) probe_tag_def)
  have ic: "icmp ! 0 = 0" "icmp ! Suc 0 = 0" "be16 (icmp ! 4) (icmp ! 5) = 0x5a4c" "be16 (icmp ! 6) (icmp ! 7) = 1"
    "window icmp 8 16 = probe_tag @ le64 (hrtime (clk e))"
    by (simp_all add: i(1) net16_def window_def probe_tag_def)
  have w: "window (h @ icmp) 20 24 = icmp" "window (h @ icmp) 0 20 = h" using f(2) len by (simp_all add: window_def)
  have hd: "header_len 0x45 = 20" "ip_version 0x45 = 4" by (simp_all add: header_len_def ip_version_def)
  show ?thesis
    unfolding consume_wifi_delivery_reply_def f(1) using lp h i(2)
    by (simp add: checked_access f(2) len nth_append ip_at_prefix hd ic w)
qed

text \<open>The echo reply of the example's console.\<close>

definition demo_header :: "byte list" where
  "demo_header = [0x45, 0, 0, 44, 0, 1, 0, 0, 64, 1, 0, 0, 10, 147, 17, 77, 10, 147, 17, 1]"

definition demo_icmp :: "byte list" where
  "demo_icmp = [0, 0, 0, 0] @ net16 0x5a4c @ net16 1 @ probe_tag @ le64 5"

definition demo_echo :: "byte list" where
  "demo_echo = ether_bytes wlan_mac console_mac ETHER_TYPE_IPV4
     (patch demo_header 10 (net16 (ipv4_header_checksum demo_header)) @
      patch demo_icmp 2 (net16 (ipv4_header_checksum demo_icmp)))"

lemma demo_echo_reply: "echo_reply demo_env demo_relay demo_echo"
proof -
  let ?h = "patch demo_header 10 (net16 (ipv4_header_checksum demo_header))"
  let ?i = "patch demo_icmp 2 (net16 (ipv4_header_checksum demo_icmp))"
  have z: "patch demo_header 10 [0, 0] = demo_header" "patch demo_icmp 2 [0, 0] = demo_icmp"
    by (simp_all add: patch_def demo_header_def demo_icmp_def)
  have "ipv4_header_checksum ?h = 0" "ipv4_header_checksum ?i = 0"
    using header_cks.field_verifies [of demo_header 10] header_cks.field_verifies [of demo_icmp 2]
    by (simp_all add: z) (simp_all add: demo_header_def demo_icmp_def probe_tag_def)
  moreover have "wifi_mac demo_relay = wlan_mac" "switch_mac demo_relay = console_mac" "switch_ip demo_relay = console_ip"
    "probe_source demo_relay = IP4 10 147 17 1"
    by (simp_all add: demo_defs probe_source_def packet_init_def)
  moreover have "length ?h = 20" "?h ! 0 = 0x45" "be16 (?h ! 2) (?h ! 3) = 44" "?h ! 9 = 1"
    "\<not> is_fragment (be16 (?h ! 6) (?h ! 7))" "ip_at ?h 12 = console_ip" "ip_at ?h 16 = IP4 10 147 17 1"
    by (simp_all add: demo_header_def patch_def net16_def be16_def is_fragment_def ip_at_def console_ip_def)
  moreover have "?i = [0, 0] @ net16 (ipv4_header_checksum demo_icmp) @ net16 0x5a4c @ net16 1 @ probe_tag @ le64 (hrtime (clk demo_env))"
    by (simp add: demo_icmp_def patch_def demo_env_def)
  ultimately show ?thesis unfolding echo_reply_def demo_echo_def by metis
qed

section \<open>Properties\<close>

text \<open>A probe that was sent is not sent again.\<close>

lemma probe_never_again:
  assumes "run_ok lp" "wifi_delivery_probe_sent lp" "reaches lp lp'"
  shows "probe_wifi_delivery e lp' = Some lp'"
  using reaches_run_step [OF assms(3,1)] assms(2) by (simp add: run_step_def advance_def probe_wifi_delivery_def)

text \<open>
  C32.  The delivery probe is sent once and answered by its echo.  The first probe is one frame to the console with valid
  checksums; when the console answers it with an echo reply, the Wi-Fi path consumes the reply and records the success;
  and in no state that the relay reaches from there, answered or not, is a probe sent again.
\<close>

theorem probe_round_trip:
  assumes ok: "run_ok lp" "\<not> wifi_delivery_probe_sent lp" and echo: "echo_reply e lp f"
  shows "\<exists>q r lp1 lp2. probe_wifi_delivery e lp = Some lp1 \<and>
    out lp1 = out lp @ [Tx WiFi 0 (ether_bytes (switch_mac lp) (wifi_mac lp) ETHER_TYPE_IPV4 q) r] \<and>
    translated_ok (probe_request e lp) (probe_source lp) (switch_ip lp) q \<and>
    consume_wifi_delivery_reply f lp1 = Some (True, lp2) \<and> wifi_delivery_probe_replied lp2 \<and>
    (\<forall>lp' e'. reaches lp1 lp' \<or> reaches lp2 lp' \<longrightarrow> probe_wifi_delivery e' lp' = Some lp')"
proof -
  have io: "relay_ok lp" "io_ok lp" using ok(1) by (simp_all add: run_ok_def relay_ok_def)
  obtain q r lp1 where 1: "translated_ok (probe_request e lp) (probe_source lp) (switch_ip lp) q"
    "probe_wifi_delivery e lp = Some lp1"
    and s: "sent WiFi (ether_bytes (switch_mac lp) (wifi_mac lp) ETHER_TYPE_IPV4 q) r (mark_probe e lp) lp1"
    using probe_sent [OF io(2) ok(2)] by blast
  have c: "core lp1 = core (mark_probe e lp)" using s by (simp add: sent_def)
  have "run_step lp lp1" using probe_progress [OF io(1), of e] 1(2) run_step_progress [OF ok(1)] by auto
  then have r1: "run_ok lp1" by (rule run_step_D)
  have c1: "consume_wifi_delivery_reply f lp1 = Some (True, lp1\<lparr>wifi_delivery_probe_replied := True\<rparr>)"
    using core_fields [OF c] ctx_fields [OF c] by (intro consume_echo [OF echo]) (simp_all add: mark_probe_def probe_source_def)
  note c1
  moreover have "out lp1 = out lp @ [Tx WiFi 0 (ether_bytes (switch_mac lp) (wifi_mac lp) ETHER_TYPE_IPV4 q) r]"
    using s by (simp add: sent_def mark_probe_def)
  moreover have "run_ok (lp1\<lparr>wifi_delivery_probe_replied := True\<rparr>)" using run_consume [OF r1, of f] c1 run_step_D by auto
  moreover have "wifi_delivery_probe_sent lp1" using core_fields [OF c] by (simp add: mark_probe_def)
  ultimately show ?thesis using 1 probe_never_again r1
    by (intro exI [of _ q] exI [of _ r] exI [of _ lp1] exI [of _ "lp1\<lparr>wifi_delivery_probe_replied := True\<rparr>"]) auto
qed

theorem probe_round_trip_witness:
  "\<exists>lp1 lp2. probe_wifi_delivery demo_env demo_relay = Some lp1 \<and> length (out lp1) = 1 \<and>
    consume_wifi_delivery_reply demo_echo lp1 = Some (True, lp2) \<and> wifi_delivery_probe_replied lp2"
proof -
  have "\<not> wifi_delivery_probe_sent demo_relay" "out demo_relay = []" by (simp_all add: demo_defs)
  from probe_round_trip [OF demo_relay_ok this(1) demo_echo_reply] this(2) show ?thesis by auto
qed

text \<open>
  The relay answers for the overlay.  An ARP request that reaches the local stack from the Wi-Fi side, for any
  address of the subnet other than the asking one, gets exactly one reply: the address is at the relay's own
  adapter, so that the console sends its packets for all peers to the relay.
\<close>

theorem proxy_arp_answers:
  assumes ok: "relay_ok lp" and m: "ctx_mac (ctx lp) = Some m" "m \<noteq> sm"
    and w: "\<not> ingress_zerotier lp" "zerotier_if (options e) \<noteq> None"
    and a: "IS_SUBNET ti (subnet_net (ctx lp)) (subnet_mask (ctx lp))" "ti \<noteq> si" "si \<noteq> NONE_IP"
  shows "\<exists>lp' r. get_packet e (ether_bytes d sm ETHER_TYPE_ARP (arp_body ARP_OPCODE_REQUEST sm si tm ti)) 42 lp = Some lp' \<and>
    out lp' = out lp @ [Tx WiFi 0 (ether_bytes sm (wifi_mac lp) ETHER_TYPE_ARP (arp_body ARP_OPCODE_REPLY m ti sm si)) r]"
proof -
  let ?f = "ether_bytes d sm ETHER_TYPE_ARP (arp_body ARP_OPCODE_REQUEST sm si tm ti)"
  let ?a = "\<lparr>hardware_type = 1, protocol_type = ETHER_TYPE_IPV4, hardware_size = 6, protocol_size = 4, opcode = ARP_OPCODE_REQUEST,
       sender_mac = sm, sender_ip = si, target_mac = tm, target_ip = ti\<rparr>"
  define lp1 where "lp1 = ctx_arp_set e sm si (lp\<lparr>ctx := (ctx lp)\<lparr>download_packet := download_packet (ctx lp) + 1,
      download_byte := download_byte (ctx lp) + 42\<rparr>\<rparr>)"
  have c: "ctx_mac (ctx lp1) = Some m" "\<not> ingress_zerotier lp1" "subnet_net (ctx lp1) = subnet_net (ctx lp)"
    "subnet_mask (ctx lp1) = subnet_mask (ctx lp)" "wifi_mac lp1 = wifi_mac lp" "out lp1 = out lp" "relay_ok lp1"
    using m w ok by (simp_all add: lp1_def ctx_arp_set_def relay_ok_def)
  obtain r lp' where r: "arp_request e ?a lp1 = Some (r, lp')"
    "sent WiFi (ether_bytes sm (wifi_mac lp) ETHER_TYPE_ARP (arp_body ARP_OPCODE_REPLY m ti sm si)) r lp1 lp'"
    using arp_request_answered [OF c(7,1,2) w(2), of ?a] a c by auto
  have l: "length ?f = 42" by (simp add: arp_body_parts(1))
  have "process_ether e ?f 42 (lp\<lparr>ctx := (ctx lp)\<lparr>download_packet := download_packet (ctx lp) + 1,
      download_byte := download_byte (ctx lp) + 42\<rparr>\<rparr>) = Some (r, lp')"
    using m r(1) by (simp add: process_ether_def parse_ether_def checked_access process_arp_def parse_arp_body flip: lp1_def)
  then have "get_packet e ?f 42 lp = Some lp'"
    using l by (simp add: get_packet_def print_packet_def read_bytes_Some Let_def)
  then show ?thesis using r(2) c(6) by (auto simp: sent_def)
qed

theorem proxy_arp_answers_witness:
  "\<exists>lp' r m. get_packet demo_env (ether_bytes BROADCAST_MAC console_mac ETHER_TYPE_ARP
      (arp_body ARP_OPCODE_REQUEST console_mac console_ip NONE_MAC (IP4 10 147 17 9))) 42 (packet_set_mac wlan_mac demo_relay) = Some lp' \<and>
    out lp' = [Tx WiFi 0 (ether_bytes console_mac wlan_mac ETHER_TYPE_ARP
      (arp_body ARP_OPCODE_REPLY wlan_mac (IP4 10 147 17 9) console_mac console_ip)) r]"
proof -
  let ?lp = "packet_set_mac wlan_mac demo_relay"
  have "relay_ok ?lp" using progress_ok [OF progress_set_mac] demo_relay_ok by (simp add: run_ok_def)
  moreover have "ctx_mac (ctx ?lp) = Some wlan_mac" "\<not> ingress_zerotier ?lp" "out ?lp = []" "wifi_mac ?lp = wlan_mac"
    by (simp_all add: packet_set_mac_def demo_defs)
  moreover have "zerotier_if (options demo_env) \<noteq> None" by (simp add: demo_env_def)
  moreover have "IS_SUBNET (IP4 10 147 17 9) (subnet_net (ctx ?lp)) (subnet_mask (ctx ?lp))" "wlan_mac \<noteq> console_mac"
    "IP4 10 147 17 9 \<noteq> console_ip" "console_ip \<noteq> NONE_IP"
    by (simp_all add: IS_SUBNET_def packet_set_mac_def demo_defs packet_init_def NONE_IP_def)
  ultimately show ?thesis using proxy_arp_answers by fastforce
qed

text \<open>
  C23.  How the console is learnt.  A frame that claims a legal address for its sender makes it the console when none is
  known; when the same address is known, a new hardware address is taken over only from ARP or a
  broadcast, and only while none has been confirmed that way; a claim to another address is refused.  In every other case the console stays.
\<close>

theorem console_learning:
  assumes ok: "relay_ok lp" and claim: "switch_claim f lp = Some (Some (ip, direct))" "console_address lp ip (mac_at f 6)"
  shows "\<exists>lp'. learn_local_switch e f lp = Some (\<not> (switch_seen lp \<and> ip \<noteq> switch_ip lp), lp') \<and>
    console lp' = (if switch_seen lp \<and> (ip \<noteq> switch_ip lp \<or> mac_at f 6 \<noteq> switch_mac lp \<and> (switch_mac_confirmed lp \<or> \<not> direct))
      then console lp else (True, ip, mac_at f 6, switch_mac_confirmed lp \<or> direct))"
proof (cases "switch_seen lp \<and> ip \<noteq> switch_ip lp")
  case True
  then show ?thesis using learn_none [OF claim(1)] by auto
next
  case False
  then show ?thesis using learn_some [OF ok claim(1,2) False, of e] by (auto split: if_splits)
qed

theorem console_learning_witness:
  "\<exists>lp'. learn_local_switch demo_env game_broadcast demo_started = Some (True, lp') \<and> switch_seen lp' \<and>
    switch_ip lp' = console_ip \<and> switch_mac lp' = console_mac"
proof -
  have "relay_ok demo_started" "\<not> switch_seen demo_started"
    using demo_started_ok by (simp_all add: run_ok_def) (simp add: demo_started_def zero_relay_def)
  moreover have "switch_claim game_broadcast demo_started = Some (Some (console_ip, True))"
    unfolding switch_claim_def game_broadcast_bytes
    by (simp add: checked_access header_defs demo_defs NONE_MAC_def BROADCAST_MAC_def)
  moreover have m: "mac_at game_broadcast 6 = console_mac" by (simp add: game_broadcast_def)
  moreover have "console_address demo_started console_ip (mac_at game_broadcast 6)"
    unfolding console_address_def m
    by (simp add: demo_defs wifi_dest_def is_zerotier_destination_def ip_in_subnet_def dhcp_candidate_def packet_init_def NONE_IP_def)
  ultimately show ?thesis using console_learning [of demo_started game_broadcast console_ip True demo_env] by (auto simp: console_def)
qed

text \<open>
  Frames from the overlay are not checked before they are parsed: a frame of 14 to 41 bytes that announces ARP
  makes the overlay handler read behind its end, whatever the state of the relay.
\<close>

theorem short_overlay_arp_faults:
  assumes "14 \<le> length f" "length f < 42" "be16 (f ! 12) (f ! 13) = ETHER_TYPE_ARP" "mac_at f 6 \<noteq> zerotier_mac lp"
  shows "relay_step e (ZeroTierFrame f) lp = None"
proof -
  obtain c where c: "peer_claim f = Some c" using peer_claim_total [OF assms(1)] by blast
  have fault: "get_packet e f (length f) (packet_set_mac (zerotier_mac lp) lp') = None" for lp'
    using assms by (simp add: get_packet_def process_ether_def parse_ether_def checked_access packet_set_mac_def process_arp_def
        parse_arp_def ether_payload_def CPY_IPV4_def Let_def bind_eq_None_conv)
  show ?thesis using assms c fault
    by (simp add: lan_play_zerotier_pcap_handler_def checked_access learn_peer_def diagnostic_count_rx_def Let_def split: option.splits)
qed

theorem short_overlay_arp_faults_witness:
  "relay_step demo_env (ZeroTierFrame [255, 255, 255, 255, 255, 255, 2, 0, 0, 0, 0, 9, 8, 6]) demo_relay = None"
  using short_overlay_arp_faults [of "[255, 255, 255, 255, 255, 255, 2, 0, 0, 0, 0, 9, 8, 6]" demo_relay demo_env]
  by (simp add: be16_def mac_at_def demo_defs)

end
