(* ===== verification/Desktop_Model.thy ===== *)
theory Desktop_Model
  imports Address
begin

text \<open>
  The model of the desktop application, \<^verbatim>\<open>desktop/model.cpp\<close>: the adapters it finds, the user's preferences, their
  validation, the command line of the relay, and the quoting of that command line.  A text is the list of the bytes of
  its UTF-8 encoding; every comparison, search and replacement below is with ASCII text, and adapter identifiers and
  network identifiers are ASCII.  What the code asks Qt and the operating system is the record \<open>platform\<close>.
\<close>

section \<open>Text\<close>

definition to_lower :: "string \<Rightarrow> string" where
  "to_lower s = map lower s"

definition to_upper :: "string \<Rightarrow> string" where
  "to_upper s = map (\<lambda>c. if 97 \<le> (of_char c :: nat) \<and> (of_char c :: nat) \<le> 122 then char_of (of_char c - 32 :: nat) else c) s"

definition starts_with :: "string \<Rightarrow> string \<Rightarrow> bool" where
  "starts_with p s \<longleftrightarrow> take (length p) s = p"

fun has_infix :: "string \<Rightarrow> string \<Rightarrow> bool" where
  "has_infix p [] \<longleftrightarrow> p = []"
| "has_infix p (c # s) \<longleftrightarrow> starts_with p (c # s) \<or> has_infix p s"

definition contains_ci :: "string \<Rightarrow> string \<Rightarrow> bool" where
  "contains_ci p s \<longleftrightarrow> has_infix (to_lower p) (to_lower s)"

definition replace_char :: "char \<Rightarrow> string \<Rightarrow> string \<Rightarrow> string" where
  "replace_char c r s = concat (map (\<lambda>x. if x = c then r else [x]) s)"

section \<open>The platform and the adapters\<close>

text \<open>
  \<open>parse_host\<close> is \<^verbatim>\<open>QHostAddress(s).toIPv4Address(&ok)\<close>, \<open>host_text\<close> is \<^verbatim>\<open>QHostAddress(n).toString()\<close>, \<open>resolve_guid\<close> is
  \<^verbatim>\<open>nativeWindowsGuid\<close> or the resolver given to \<^verbatim>\<open>windowsCaptureName\<close>, \<open>is_executable\<close> is \<^verbatim>\<open>QFileInfo(s).isExecutable()\<close>,
  and \<open>networks\<close> is the parsed output of \<^verbatim>\<open>zerotier-cli -j listnetworks\<close>, if there was any.
\<close>

record platform =
  on_windows :: bool
  parse_host :: "string \<Rightarrow> u32 option"
  host_text :: "u32 \<Rightarrow> string"
  resolve_guid :: "string \<Rightarrow> string"
  is_executable :: "string \<Rightarrow> bool"
  networks :: "(string \<times> string list) list option"

record qt_interface =
  qi_name :: string
  qi_label :: string
  qi_loopback :: bool
  qi_up :: bool
  qi_wifi :: bool
  qi_entries :: "(bool \<times> u32 \<times> u32) list"

record adapter =
  ad_name :: string
  ad_label :: string
  ad_ip :: string
  ad_mask :: string
  ad_subnet :: string
  ad_gateway :: string
  ad_overlay :: bool
  ad_wifi :: bool
  ad_up :: bool
  ad_hotspot :: bool

definition no_adapter :: adapter where
  "no_adapter = \<lparr>ad_name = [], ad_label = [], ad_ip = [], ad_mask = [], ad_subnet = [], ad_gateway = [], ad_overlay = False,
     ad_wifi = False, ad_up = False, ad_hotspot = False\<rparr>"

text \<open>\<^verbatim>\<open>for (quint32 n = bits; n; n <<= 1) ++prefix\<close>\<close>

function shift_count :: "u32 \<Rightarrow> nat" where
  "shift_count n = (if n = 0 then 0 else Suc (shift_count (push_bit 1 n)))"
  by pat_completeness auto
termination
proof (relation "measure (\<lambda>n. LEAST j. push_bit j n = 0)")
  fix n :: u32
  assume "n \<noteq> 0"
  let ?m = "LEAST j. push_bit j n = 0"
  have "push_bit 32 n = 0" by (rule bit_word_eqI) (simp add: bit_simps)
  then have m: "push_bit ?m n = 0" by (rule LeastI)
  then have pos: "0 < ?m" using \<open>n \<noteq> 0\<close> by (cases "?m = 0") (simp_all add: push_bit_0_id)
  then have "push_bit (?m - 1) (push_bit 1 n) = 0" using m by (simp only: push_bit_push_bit) simp
  then have "(LEAST j. push_bit j (push_bit 1 n) = 0) \<le> ?m - 1" by (rule Least_le)
  then show "(push_bit 1 n, n) \<in> measure (\<lambda>n. LEAST j. push_bit j n = 0)" using pos by simp
qed simp

declare shift_count.simps [simp del]

definition subnetFor :: "platform \<Rightarrow> string \<Rightarrow> string \<Rightarrow> string" where
  "subnetFor pf ip netmask =
     (case (parse_host pf ip, parse_host pf netmask) of
        (Some addr, Some bits) \<Rightarrow>
          if bits = 0 \<or> NOT bits AND (NOT bits + 1) \<noteq> 0 then []
          else host_text pf (addr AND bits) @ ''/'' @ show_nat (shift_count bits)
      | _ \<Rightarrow> [])"

definition make_adapter :: "platform \<Rightarrow> qt_interface \<Rightarrow> adapter" where
  "make_adapter pf i =
     (let both = qi_name i @ '' '' @ qi_label i;
          a = no_adapter\<lparr>ad_name := qi_name i, ad_label := qi_label i, ad_up := qi_up i, ad_wifi := qi_wifi i,
                ad_overlay := contains_ci ''zerotier'' both \<or> starts_with ''zt'' (qi_name i) \<or> starts_with ''feth'' (qi_name i)\<rparr>;
          b = (case find fst (qi_entries i) of
                 None \<Rightarrow> a
               | Some (_, ip, bits) \<Rightarrow>
                   a\<lparr>ad_ip := host_text pf ip, ad_mask := host_text pf bits,
                     ad_subnet := subnetFor pf (host_text pf ip) (host_text pf bits),
                     ad_gateway := host_text pf ((ip AND bits) + 1)\<rparr>)
      in b\<lparr>ad_hotspot := contains_ci ''Wi-Fi Direct'' both \<or> ad_ip b = ''192.168.137.1''\<rparr>)"

definition discoverAdapters :: "platform \<Rightarrow> qt_interface list \<Rightarrow> adapter list" where
  "discoverAdapters pf all =
     filter (\<lambda>a. ad_ip a \<noteq> []) (map (make_adapter pf) (filter (\<lambda>i. \<not> qi_loopback i) all))"

section \<open>Capture names\<close>

definition is_hex :: "char \<Rightarrow> bool" where
  "is_hex c \<longleftrightarrow> is_digit c \<or> 97 \<le> (of_char (lower c) :: nat) \<and> (of_char (lower c) :: nat) \<le> 102"

definition guid_shape :: "string \<Rightarrow> bool" where
  "guid_shape g \<longleftrightarrow> length g = 38 \<and> g ! 0 = CHR ''{'' \<and> g ! 37 = CHR ''}'' \<and>
     list_all (\<lambda>i. if i \<in> set [9, 14, 19, 24] then g ! i = CHR ''-'' else is_hex (g ! i)) [1..<37]"

definition device_prefix :: string where
  "device_prefix = [CHR 0x5C] @ ''Device'' @ [CHR 0x5C] @ ''NPF_''"

text \<open>The captured group of the regular expression; \<^verbatim>\<open>$\<close> also matches before a final line break.\<close>

definition guid_match :: "string \<Rightarrow> string option" where
  "guid_match s =
     (let t = (if to_lower (take (length device_prefix) s) = to_lower device_prefix then drop (length device_prefix) s else s);
          g = take 38 t
      in if guid_shape g \<and> (drop 38 t = [] \<or> drop 38 t = [CHR 0x0A]) then Some g else None)"

definition windowsCaptureName :: "platform \<Rightarrow> string \<Rightarrow> string" where
  "windowsCaptureName pf name =
     (case (case guid_match name of None \<Rightarrow> guid_match (resolve_guid pf name) | m \<Rightarrow> m) of
        Some g \<Rightarrow> device_prefix @ to_upper g
      | None \<Rightarrow> [])"

section \<open>Preferences\<close>

record preferences =
  localInterface :: string
  overlayInterface :: string
  pref_gateway :: string
  relayPath :: string
  pref_diagnostics :: bool
  pref_capture :: bool
  pref_discover :: bool
  pref_dhcp :: bool

text \<open>\<^verbatim>\<open>getZeroTierNetworkIPs\<close>: the assigned addresses of the network, without their prefix lengths.\<close>

definition getZeroTierNetworkIPs :: "platform \<Rightarrow> string \<Rightarrow> string list" where
  "getZeroTierNetworkIPs pf networkId =
     (case networks pf of
        None \<Rightarrow> []
      | Some nets \<Rightarrow>
          filter (\<lambda>ip. ip \<noteq> [])
            (concat (map (\<lambda>(i, as). if to_lower i = to_lower networkId then map (takeWhile (\<lambda>c. c \<noteq> CHR ''/'')) as else []) nets)))"

definition autoSelectOverlayAdapter :: "platform \<Rightarrow> adapter list \<Rightarrow> string \<Rightarrow> preferences \<Rightarrow> preferences" where
  "autoSelectOverlayAdapter pf adapters networkId p =
     (let ips = getZeroTierNetworkIPs pf networkId
      in case find (\<lambda>a. ad_ip a \<in> set ips) adapters of
           Some a \<Rightarrow> p\<lparr>overlayInterface := ad_name a\<rparr>
         | None \<Rightarrow> (case find ad_overlay adapters of
               Some a \<Rightarrow> p\<lparr>overlayInterface := ad_name a\<rparr>
             | None \<Rightarrow> p))"

definition default_network :: string where
  "default_network = ''8bd5124fd68185ec''"

definition refreshAdapters :: "platform \<Rightarrow> qt_interface list \<Rightarrow> string \<Rightarrow> preferences \<Rightarrow> adapter list \<times> preferences" where
  "refreshAdapters pf all networkId p =
     (let adapters = discoverAdapters pf all in (adapters, autoSelectOverlayAdapter pf adapters networkId p))"

text \<open>The settings store: texts and truth values, with the conversions \<^verbatim>\<open>toString\<close> and \<^verbatim>\<open>toBool\<close> of a stored value.\<close>

datatype setting = SText string | SBool bool

type_synonym settings = "string \<Rightarrow> setting option"

definition setting_text :: "setting option \<Rightarrow> string" where
  "setting_text v = (case v of None \<Rightarrow> [] | Some (SText s) \<Rightarrow> s | Some (SBool b) \<Rightarrow> (if b then ''true'' else ''false''))"

definition setting_bool :: "bool \<Rightarrow> setting option \<Rightarrow> bool" where
  "setting_bool d v =
     (case v of
        None \<Rightarrow> d
      | Some (SBool b) \<Rightarrow> b
      | Some (SText s) \<Rightarrow> \<not> (s = [] \<or> s = ''0'' \<or> to_lower s = ''false''))"

definition load :: "platform \<Rightarrow> qt_interface list \<Rightarrow> settings \<Rightarrow> preferences" where
  "load pf all s =
     autoSelectOverlayAdapter pf (discoverAdapters pf all) default_network
       \<lparr>localInterface = setting_text (s ''network/local''), overlayInterface = setting_text (s ''network/overlay''),
        pref_gateway = setting_text (s ''network/gateway''), relayPath = setting_text (s ''advanced/relay''),
        pref_diagnostics = setting_bool False (s ''advanced/diagnostics''), pref_capture = setting_bool False (s ''advanced/capture''),
        pref_discover = setting_bool True (s ''advanced/discover''), pref_dhcp = setting_bool False (s ''network/dhcp'')\<rparr>"

definition save :: "preferences \<Rightarrow> settings \<Rightarrow> settings" where
  "save p s = s(''network/local'' \<mapsto> SText (localInterface p), ''network/overlay'' \<mapsto> SText (overlayInterface p),
     ''network/gateway'' \<mapsto> SText (pref_gateway p), ''advanced/relay'' \<mapsto> SText (relayPath p),
     ''advanced/diagnostics'' \<mapsto> SBool (pref_diagnostics p), ''advanced/capture'' \<mapsto> SBool (pref_capture p),
     ''network/dhcp'' \<mapsto> SBool (pref_dhcp p), ''advanced/discover'' \<mapsto> SBool (pref_discover p))"

definition overlay :: "adapter list \<Rightarrow> preferences \<Rightarrow> adapter" where
  "overlay all p = (case find (\<lambda>a. ad_name a = overlayInterface p) all of Some a \<Rightarrow> a | None \<Rightarrow> no_adapter)"

text \<open>One value for each message of \<^verbatim>\<open>validate\<close>, in the order of the code; \<open>Fine\<close> is the empty message.\<close>

datatype verdict =
    Fine | ChooseAdapters | SameAdapter | LocalUnavailable | HotspotOff | OverlayUnavailable | LocalUnresolved
  | OverlayUnresolved | NotSlash24 | GatewayUnusable | RelayMissing

definition chosen_gateway :: "adapter list \<Rightarrow> preferences \<Rightarrow> string" where
  "chosen_gateway all p = (if pref_gateway p = [] then ad_gateway (overlay all p) else pref_gateway p)"

definition validate :: "platform \<Rightarrow> adapter list \<Rightarrow> preferences \<Rightarrow> verdict" where
  "validate pf all p =
     (let a = overlay all p; g = chosen_gateway all p
      in if localInterface p = [] \<or> overlayInterface p = [] then ChooseAdapters
         else if localInterface p = overlayInterface p then SameAdapter
         else if \<not> list_ex (\<lambda>a. ad_name a = localInterface p \<and> ad_up a) all then LocalUnavailable
         else if on_windows pf \<and> pref_dhcp p \<and> \<not> list_ex (\<lambda>a. ad_hotspot a \<and> ad_up a) all then HotspotOff
         else if \<not> ad_up a \<or> ad_ip a = [] then OverlayUnavailable
         else if on_windows pf \<and> windowsCaptureName pf (localInterface p) = [] then LocalUnresolved
         else if on_windows pf \<and> windowsCaptureName pf (overlayInterface p) = [] then OverlayUnresolved
         else if ad_mask a \<noteq> ''255.255.255.0'' then NotSlash24
         else if (case parse_host pf g of
                    None \<Rightarrow> True
                  | Some v \<Rightarrow> subnetFor pf g (ad_mask a) \<noteq> ad_subnet a \<or> v AND 255 = 0 \<or> v AND 255 = 255 \<or> g = ad_ip a)
           then GatewayUnusable
         else if \<not> is_executable pf (relayPath p) then RelayMissing
         else Fine)"

definition arguments :: "platform \<Rightarrow> adapter list \<Rightarrow> string \<Rightarrow> preferences \<Rightarrow> string list" where
  "arguments pf all prefix p =
     (let a = overlay all p;
          localName = (if on_windows pf then windowsCaptureName pf (localInterface p) else localInterface p);
          overlayName = (if on_windows pf then windowsCaptureName pf (overlayInterface p) else overlayInterface p)
      in [''--netif'', localName, ''--zerotier-if'', overlayName, ''--subnet'', ad_subnet a, ''--gateway'',
          chosen_gateway all p, ''--status-events''] @
         (if pref_diagnostics p then [''--diagnostics''] else []) @
         (if \<not> pref_discover p then [''--no-discover-switch''] else []) @
         (if pref_dhcp p then [''--dhcp''] else []) @
         (if pref_capture p then [''--capture-prefix'', prefix] else []))"

section \<open>Quoting\<close>

definition shellQuote :: "string \<Rightarrow> string" where
  "shellQuote s = [CHR 0x27] @ replace_char (CHR 0x27) [CHR 0x27, CHR 0x22, CHR 0x27, CHR 0x22, CHR 0x27] s @ [CHR 0x27]"

definition appleScriptQuote :: "string \<Rightarrow> string" where
  "appleScriptQuote s =
     [CHR 0x22] @
     replace_char (CHR 0x0D) [CHR 0x5C, CHR ''r'']
       (replace_char (CHR 0x0A) [CHR 0x5C, CHR ''n'']
         (replace_char (CHR 0x22) [CHR 0x5C, CHR 0x22]
           (replace_char (CHR 0x5C) [CHR 0x5C, CHR 0x5C] s))) @
     [CHR 0x22]"

fun join_spaces :: "string list \<Rightarrow> string" where
  "join_spaces [] = []"
| "join_spaces [w] = w"
| "join_spaces (w # ws) = w @ '' '' @ join_spaces ws"

text \<open>
  How the quoted text is read again.  A POSIX shell splits it into words: inside single quotes every character stands for
  itself, inside double quotes all but the dollar sign, the backquote and the backslash do, and outside of quotes this
  reader refuses everything but the space between words.  An AppleScript literal ends at the next quote that no
  backslash precedes.
\<close>

datatype sh_mode = Bare | Single | Double

fun sh_read :: "sh_mode \<Rightarrow> string option \<Rightarrow> string \<Rightarrow> string list option" where
  "sh_read Bare w [] = Some (case w of None \<Rightarrow> [] | Some x \<Rightarrow> [x])"
| "sh_read Single w [] = None"
| "sh_read Double w [] = None"
| "sh_read Bare w (c # s) =
     (let x = (case w of None \<Rightarrow> [] | Some x \<Rightarrow> x)
      in if c = CHR 0x27 then sh_read Single (Some x) s
         else if c = CHR 0x22 then sh_read Double (Some x) s
         else if c = CHR '' '' then map_option (\<lambda>ws. (case w of None \<Rightarrow> ws | Some x \<Rightarrow> x # ws)) (sh_read Bare None s)
         else None)"
| "sh_read Single w (c # s) =
     (if c = CHR 0x27 then sh_read Bare w s else sh_read Single (map_option (\<lambda>x. x @ [c]) w) s)"
| "sh_read Double w (c # s) =
     (if c = CHR 0x22 then sh_read Bare w s
      else if c \<in> set [CHR ''$'', CHR 0x60, CHR 0x5C] then None
      else sh_read Double (map_option (\<lambda>x. x @ [c]) w) s)"

definition as_unescape :: "char \<Rightarrow> char option" where
  "as_unescape c =
     (if c = CHR 0x5C then Some c else if c = CHR 0x22 then Some c else if c = CHR ''n'' then Some (CHR 0x0A)
      else if c = CHR ''r'' then Some (CHR 0x0D) else if c = CHR ''t'' then Some (CHR 0x09) else None)"

fun as_read :: "string \<Rightarrow> (string \<times> string) option" where
  "as_read [] = None"
| "as_read [c] = (if c = CHR 0x22 then Some ([], []) else None)"
| "as_read (c # d # s) =
     (if c = CHR 0x22 then Some ([], d # s)
      else if c = CHR 0x5C
      then (case as_unescape d of None \<Rightarrow> None | Some x \<Rightarrow> map_option (\<lambda>(t, r). (x # t, r)) (as_read s))
      else map_option (\<lambda>(t, r). (c # t, r)) (as_read (d # s)))"

section \<open>Quoted text is read back\<close>

lemma replace_char_simps [simp]:
  "replace_char c r [] = []"
  "replace_char c r (x # s) = (if x = c then r else [x]) @ replace_char c r s"
  by (simp_all add: replace_char_def)

lemma replace_char_append [simp]: "replace_char c r (s @ t) = replace_char c r s @ replace_char c r t"
  by (simp add: replace_char_def)

lemma sh_read_quoted:
  "sh_read Single (Some w) (replace_char (CHR 0x27) [CHR 0x27, CHR 0x22, CHR 0x27, CHR 0x22, CHR 0x27] s @ CHR 0x27 # rest) =
   sh_read Bare (Some (w @ s)) rest"
  by (induction s arbitrary: w) auto

lemma sh_read_shellQuote:
  "sh_read Bare None (shellQuote s @ rest) = sh_read Bare (Some s) rest"
  using sh_read_quoted [of "[]" s rest] by (simp add: shellQuote_def)

lemma sh_read_words: "sh_read Bare None (join_spaces (map shellQuote ws)) = Some ws"
proof (induction ws rule: join_spaces.induct)
  case (2 w)
  then show ?case using sh_read_shellQuote [of w "[]"] by simp
next
  case (3 w v ws)
  then show ?case using sh_read_shellQuote [of w "'' '' @ join_spaces (map shellQuote (v # ws))"] by simp
qed simp

definition as_escape :: "char \<Rightarrow> string" where
  "as_escape c =
     (if c = CHR 0x5C then [c, c] else if c = CHR 0x22 then [CHR 0x5C, c] else if c = CHR 0x0A then [CHR 0x5C, CHR ''n'']
      else if c = CHR 0x0D then [CHR 0x5C, CHR ''r''] else [c])"

lemma appleScriptQuote_escape: "appleScriptQuote s = CHR 0x22 # concat (map as_escape s) @ [CHR 0x22]"
proof -
  have "replace_char (CHR 0x0D) [CHR 0x5C, CHR ''r'']
       (replace_char (CHR 0x0A) [CHR 0x5C, CHR ''n'']
         (replace_char (CHR 0x22) [CHR 0x5C, CHR 0x22]
           (replace_char (CHR 0x5C) [CHR 0x5C, CHR 0x5C] s))) = concat (map as_escape s)"
    by (induction s) (auto simp: as_escape_def)
  then show ?thesis by (simp add: appleScriptQuote_def)
qed

lemma as_read_Cons:
  "c \<noteq> CHR 0x22 \<Longrightarrow> c \<noteq> CHR 0x5C \<Longrightarrow> s \<noteq> [] \<Longrightarrow> as_read (c # s) = map_option (\<lambda>(t, r). (c # t, r)) (as_read s)"
  by (cases s) auto

lemma as_read_end: "as_read (CHR 0x22 # rest) = Some ([], rest)"
  by (cases rest) simp_all

lemma as_read_escaped: "as_read (concat (map as_escape s) @ CHR 0x22 # rest) = Some (s, rest)"
proof (induction s)
  case (Cons c s)
  then show ?case by (auto simp: as_escape_def as_unescape_def as_read_Cons)
qed (simp add: as_read_end)

text \<open>
  C30.  The privileged launch runs exactly the intended command.  Whatever characters the adapter names, paths and options
  contain, the AppleScript literal of the quoted command line is read back as that command line and ends where the
  literal ends, and a POSIX shell splits the command line into exactly the given words, with no expansion.
\<close>

theorem launch_command_quoted:
  "\<exists>body. appleScriptQuote (join_spaces (map shellQuote ws)) @ rest = CHR 0x22 # body \<and>
     as_read body = Some (join_spaces (map shellQuote ws), rest) \<and>
     sh_read Bare None (join_spaces (map shellQuote ws)) = Some ws"
  using as_read_escaped [of "join_spaces (map shellQuote ws)" rest] sh_read_words [of ws]
  by (simp add: appleScriptQuote_escape)

section \<open>Settings\<close>

lemma find_in: "find P xs = Some a \<Longrightarrow> a \<in> set xs \<and> P a"
  by (auto simp: find_Some_iff)

lemma autoSelect_overlay:
  "\<exists>n. autoSelectOverlayAdapter pf as networkId p = p\<lparr>overlayInterface := n\<rparr> \<and>
     (n = overlayInterface p \<or> n \<in> ad_name ` set as)"
proof (cases "find (\<lambda>a. ad_ip a \<in> set (getZeroTierNetworkIPs pf networkId)) as")
  case None
  then show ?thesis
    by (cases "find ad_overlay as")
      (auto simp: autoSelectOverlayAdapter_def dest: find_in intro: exI [of _ "overlayInterface p"])
next
  case (Some a)
  then show ?thesis by (auto simp: autoSelectOverlayAdapter_def dest: find_in)
qed

lemma load_save: "load pf all (save p s) = autoSelectOverlayAdapter pf (discoverAdapters pf all) default_network p"
  by (cases p) (simp add: load_def save_def setting_text_def setting_bool_def)

text \<open>
  Preferences survive saving and loading, except for the overlay adapter: it is the saved one or one that is
  present now.
\<close>

theorem preferences_round_trip:
  "\<exists>n. load pf all (save p s) = p\<lparr>overlayInterface := n\<rparr> \<and>
     (n = overlayInterface p \<or> n \<in> ad_name ` set (discoverAdapters pf all))"
  unfolding load_save by (rule autoSelect_overlay)

text \<open>
  A saved overlay adapter that is missing is replaced.  If any adapter that looks like a ZeroTier adapter is
  present, loading the preferences selects one of those present, so the saved name of a missing adapter is lost.
\<close>

theorem saved_overlay_replaced:
  assumes "overlayInterface p \<notin> ad_name ` set (discoverAdapters pf all)" "a \<in> set (discoverAdapters pf all)" "ad_overlay a"
  shows "overlayInterface (load pf all (save p s)) \<noteq> overlayInterface p"
proof -
  let ?as = "discoverAdapters pf all"
  have "find ad_overlay ?as \<noteq> None" using assms(2,3) by (auto simp: find_None_iff)
  then have "overlayInterface (autoSelectOverlayAdapter pf ?as default_network p) \<in> ad_name ` set ?as"
    by (auto simp: autoSelectOverlayAdapter_def Let_def dest: find_in split: option.splits)
  then show ?thesis using assms(1) unfolding load_save by metis
qed

text \<open>A Linux desktop with one wired adapter and one ZeroTier adapter; addresses are read and printed in dotted form.\<close>

definition demo_platform :: platform where
  "demo_platform = \<lparr>on_windows = False, parse_host = (\<lambda>s. map_option ipv4_to_u32 (inet_pton s)),
     host_text = (\<lambda>v. show_ip (u32_to_ipv4 v)), resolve_guid = (\<lambda>_. []), is_executable = (\<lambda>_. True), networks = None\<rparr>"

definition demo_interfaces :: "qt_interface list" where
  "demo_interfaces =
     [\<lparr>qi_name = ''wlan0'', qi_label = ''wlan0'', qi_loopback = False, qi_up = True, qi_wifi = True,
       qi_entries = [(True, 0xC0A8010A, 0xFFFFFF00)]\<rparr>,
      \<lparr>qi_name = ''zt0'', qi_label = ''zt0'', qi_loopback = False, qi_up = True, qi_wifi = False,
       qi_entries = [(True, 0x0A931105, 0xFFFFFF00)]\<rparr>]"

lemma show_ip_nonempty [simp]: "show_ip ip \<noteq> []"
  by (cases ip) simp

lemma demo_adapters: "map ad_name (discoverAdapters demo_platform demo_interfaces) = [''wlan0'', ''zt0'']"
  by (simp add: discoverAdapters_def demo_interfaces_def make_adapter_def demo_platform_def no_adapter_def Let_def)

theorem saved_overlay_replaced_witness:
  "overlayInterface (load demo_platform demo_interfaces (save
     \<lparr>localInterface = ''wlan0'', overlayInterface = ''zt9'', pref_gateway = [], relayPath = [], pref_diagnostics = False,
      pref_capture = False, pref_discover = True, pref_dhcp = False\<rparr> (\<lambda>_. None))) \<noteq> ''zt9''"
proof -
  let ?p = "\<lparr>localInterface = ''wlan0'', overlayInterface = ''zt9'', pref_gateway = [], relayPath = [], pref_diagnostics = False,
      pref_capture = False, pref_discover = True, pref_dhcp = False\<rparr>"
  let ?a = "make_adapter demo_platform (demo_interfaces ! 1)"
  have "?a \<in> set (discoverAdapters demo_platform demo_interfaces)" "ad_overlay ?a"
    by (simp_all add: discoverAdapters_def demo_interfaces_def make_adapter_def demo_platform_def no_adapter_def starts_with_def Let_def)
  moreover have "ad_name ` set (discoverAdapters demo_platform demo_interfaces) = {''wlan0'', ''zt0''}"
    using arg_cong [OF demo_adapters, of set] by simp
  ultimately show ?thesis using saved_overlay_replaced [of ?p demo_platform demo_interfaces ?a "\<lambda>_. None"] by simp
qed

end
