(* ===== verification/Desktop_Control.thy ===== *)
theory Desktop_Control
  imports Desktop_Model
begin

text \<open>
  Running the relay from the desktop application: \<^verbatim>\<open>RelayController\<close> of \<^verbatim>\<open>desktop/controller.cpp\<close> as it is compiled on
  Linux and macOS, and the privileged helper \<^verbatim>\<open>desktop/posix-supervisor.cpp\<close>.  The results of the system calls are
  arguments.  The lines the controller reads are ASCII.
\<close>

section \<open>The controller\<close>

datatype control_state = Idle | Authorizing | Starting | Running | Stopping

datatype control_message =
    NotValid verdict | LauncherMissing | CopyFailed | NoReportDirectory | NoLog | NoControlConnection | NoPkexec string
  | ApprovePrompt | StartingRelay | RelayRunning | SubnetMismatch | LogLine string | NotReady | RelayStopped | Cancelled
  | NoAgent string | RelayExited | ErrorText string

datatype control_event =
    Message control_message | LineReceived string | SwitchDetected string | StateChanged control_state
  | Launch "string list" | WriteStop | Terminate

record controller =
  current :: control_state
  socket :: bool
  listening :: bool
  timer :: bool
  ready :: bool
  pending :: string
  lastError :: string
  manualCommand :: string
  log_text :: "string option"
  events :: "control_event list"

definition emit :: "control_event list \<Rightarrow> controller \<Rightarrow> controller" where
  "emit es c = c\<lparr>events := events c @ es\<rparr>"

definition setState :: "control_state \<Rightarrow> controller \<Rightarrow> controller" where
  "setState s c = emit [StateChanged s] (c\<lparr>current := s\<rparr>)"

definition new_controller :: controller where
  "new_controller = \<lparr>current = Idle, socket = False, listening = False, timer = False, ready = False, pending = [],
     lastError = [], manualCommand = [], log_text = None, events = []\<rparr>"

definition busy :: "controller \<Rightarrow> bool" where
  "busy c \<longleftrightarrow> current c \<noteq> Idle"

text \<open>
  What \<^verbatim>\<open>start\<close> asks the system: the launcher, the copies out of an AppImage, the report directory, the log, the control
  socket with its name, the user id, \<^verbatim>\<open>pkexec\<close>, and whether this is Linux.
\<close>

record launch_calls =
  helper :: string
  helper_executable :: bool
  copies :: "(string \<times> string) option option"
  report_ok :: bool
  log_ok :: bool
  listen_ok :: bool
  server_name :: string
  uid :: string
  pkexec :: "string option"
  report :: string
  linux :: bool

definition osascript_text :: "string list \<Rightarrow> string" where
  "osascript_text command =
     ''with timeout of 604800 seconds'' @ [CHR 0x0A] @ '' do shell script '' @
     appleScriptQuote (join_spaces (map shellQuote command)) @ '' with administrator privileges'' @ [CHR 0x0A] @ ''end timeout''"

definition start_relay :: "platform \<Rightarrow> launch_calls \<Rightarrow> preferences \<Rightarrow> adapter list \<Rightarrow> controller \<Rightarrow> controller" where
  "start_relay pf l p adapters c =
     (if busy c then c
      else let c = c\<lparr>lastError := []\<rparr>
      in if validate pf adapters p \<noteq> Fine then emit [Message (NotValid (validate pf adapters p))] c
      else if \<not> helper_executable l then emit [Message LauncherMissing] c
      else if linux l \<and> copies l = Some None then emit [Message CopyFailed] c
      else if \<not> report_ok l then emit [Message NoReportDirectory] c
      else if \<not> log_ok l then emit [Message NoLog] c
      else if \<not> listen_ok l then emit [Message NoControlConnection] c
      else
        let (h, relay) = (case copies l of Some (Some paths) \<Rightarrow> if linux l then paths else (helper l, relayPath p)
                            | _ \<Rightarrow> (helper l, relayPath p));
            args = arguments pf adapters (report l @ ''/packets'') p;
            command = [h, server_name l, uid l, relay] @ args;
            manual = ''sudo '' @ join_spaces (map shellQuote (relay # args));
            c = c\<lparr>log_text := Some [], pending := [], ready := False\<rparr>
        in if linux l
           then (case pkexec l of
                   None \<Rightarrow> emit [Message (NoPkexec manual)] (c\<lparr>manualCommand := manual, log_text := None\<rparr>)
                 | Some pk \<Rightarrow> emit [Message ApprovePrompt, Launch (pk # command)]
                     (setState Authorizing (c\<lparr>manualCommand := manual, listening := True\<rparr>)))
           else emit [Message ApprovePrompt, Launch [''/usr/bin/osascript'', ''-e'', osascript_text command]]
                  (setState Authorizing (c\<lparr>listening := True\<rparr>)))"

text \<open>One complete line of the relay's output.\<close>

definition trimmed :: "string \<Rightarrow> string" where
  "trimmed s = rev (dropWhile is_space (rev (dropWhile is_space s)))"

fun after_marker :: "string \<Rightarrow> string \<Rightarrow> string option" where
  "after_marker m [] = (if m = [] then Some [] else None)"
| "after_marker m (c # s) = (if starts_with m (c # s) then Some (drop (length m) (c # s)) else after_marker m s)"

definition on_line :: "string \<Rightarrow> controller \<Rightarrow> controller" where
  "on_line line c =
     (let c = emit [LineReceived line] c;
          c = (if starts_with ''Relay started (PID '' line \<and> current c \<noteq> Stopping
               then emit [Message RelayRunning] (setState Running (c\<lparr>ready := True, timer := False\<rparr>)) else c);
          c = (case after_marker ''Detected local Switch candidate: '' line of
                 None \<Rightarrow> c | Some r \<Rightarrow> emit [SwitchDetected r] c);
          c = (if has_infix ''LAN broadcast mismatch:'' line then emit [Message SubnetMismatch] c else c)
      in if has_infix ''[ERROR]'' line \<or> starts_with ''Failed to start'' line
         then emit [Message (LogLine line)] (c\<lparr>lastError := line\<rparr>) else c)"

lemma on_line_fields [simp]:
  "pending (on_line line c) = pending c" "socket (on_line line c) = socket c" "listening (on_line line c) = listening c"
  "log_text (on_line line c) = log_text c" "manualCommand (on_line line c) = manualCommand c"
  by (simp_all add: on_line_def emit_def setState_def Let_def split: option.splits)

lemma split_line:
  "CHR 0x0A \<in> set p \<Longrightarrow> \<exists>l r. p = l @ CHR 0x0A # r \<and> CHR 0x0A \<notin> set l \<and>
     takeWhile (\<lambda>x. x \<noteq> CHR 0x0A) p = l \<and> tl (dropWhile (\<lambda>x. x \<noteq> CHR 0x0A) p) = r"
proof -
  assume "CHR 0x0A \<in> set p"
  then obtain l r where "p = l @ CHR 0x0A # r" "CHR 0x0A \<notin> set l" by (metis split_list_first)
  then show ?thesis by (auto simp: takeWhile_append dropWhile_append)
qed

function receive_lines :: "controller \<Rightarrow> controller" where
  "receive_lines c =
     (if CHR 0x0A \<in> set (pending c)
      then receive_lines (on_line (trimmed (takeWhile (\<lambda>x. x \<noteq> CHR 0x0A) (pending c)))
             (c\<lparr>pending := tl (dropWhile (\<lambda>x. x \<noteq> CHR 0x0A) (pending c))\<rparr>))
      else c)"
  by pat_completeness auto
termination
proof (relation "measure (\<lambda>c. length (pending c))")
  fix c :: controller
  assume "CHR 0x0A \<in> set (pending c)"
  then show "(on_line (trimmed (takeWhile (\<lambda>x. x \<noteq> CHR 0x0A) (pending c)))
      (c\<lparr>pending := tl (dropWhile (\<lambda>x. x \<noteq> CHR 0x0A) (pending c))\<rparr>), c) \<in> measure (\<lambda>c. length (pending c))"
    using length_dropWhile_le [of "\<lambda>x. x \<noteq> CHR 0x0A" "pending c"]
    by (cases "pending c") (auto simp: less_Suc_eq_le)
qed simp

declare receive_lines.simps [simp del]

abbreviation (input) MAX_PENDING :: nat where "MAX_PENDING \<equiv> 65536"

definition receive :: "string \<Rightarrow> controller \<Rightarrow> controller" where
  "receive bytes c =
     (let c = c\<lparr>log_text := map_option (\<lambda>t. if length t < 16 * 1024 * 1024 then t @ bytes else t) (log_text c),
                pending := pending c @ bytes\<rparr>;
          c = receive_lines c
      in if length (pending c) > MAX_PENDING then c\<lparr>pending := drop (length (pending c) - MAX_PENDING) (pending c)\<rparr> else c)"

text \<open>A connection on the control socket; \<open>root\<close> is what the kernel says of the peer, \<open>bytes\<close> is what it sent already.\<close>

definition new_connection :: "bool \<Rightarrow> string \<Rightarrow> controller \<Rightarrow> controller" where
  "new_connection root bytes c =
     (if \<not> root \<or> socket c \<or> current c = Stopping then c
      else receive bytes (emit [Message StartingRelay] (setState Starting (c\<lparr>socket := True\<rparr>))\<lparr>timer := True\<rparr>))"

definition stop_relay :: "controller \<Rightarrow> controller" where
  "stop_relay c =
     (if \<not> busy c \<or> current c = Stopping then c
      else let c = setState Stopping (c\<lparr>timer := False\<rparr>)
           in if socket c then emit [WriteStop] c else emit [Terminate] (c\<lparr>listening := False\<rparr>))"

definition startup_timeout :: "controller \<Rightarrow> controller" where
  "startup_timeout c = stop_relay (emit [Message NotReady] (c\<lparr>timer := False\<rparr>))"

text \<open>\<^verbatim>\<open>finish\<close>: the exit code, whether the process crashed, what was left in the socket, and the standard error.\<close>

definition finish :: "bool \<Rightarrow> int \<Rightarrow> bool \<Rightarrow> string \<Rightarrow> string \<Rightarrow> controller \<Rightarrow> controller" where
  "finish is_linux code crashed rest stderr c =
     (let c = c\<lparr>timer := False\<rparr>;
          requested = (current c = Stopping);
          c = (if socket c then (receive rest c)\<lparr>socket := False\<rparr> else c);
          c = c\<lparr>listening := False\<rparr>;
          err = trimmed stderr;
          c = (if err \<noteq> [] then receive (err @ [CHR 0x0A]) c else c);
          c = setState Idle (c\<lparr>log_text := None\<rparr>)
      in emit [Message
           (if requested then RelayStopped
            else if \<not> ready c \<or> code \<noteq> 0 \<or> crashed
            then (if is_linux \<and> \<not> ready c \<and> code = 126 then Cancelled
                  else if is_linux \<and> \<not> ready c \<and> code = 127 then NoAgent (manualCommand c)
                  else if has_infix ''-128'' err then Cancelled
                  else if err = [] then RelayExited else ErrorText err)
            else RelayStopped)] c)"

definition start_failed :: "bool \<Rightarrow> string \<Rightarrow> controller \<Rightarrow> controller" where
  "start_failed is_linux err c = finish is_linux 1 True [] [] (emit [Message (ErrorText err)] (c\<lparr>lastError := err\<rparr>))"

text \<open>
  The events of the application.  A connection can only arrive while the server listens, the timer only fires while it
  runs, data only comes from an accepted peer, and the process only ends if it was started.
\<close>

inductive control_step :: "controller \<Rightarrow> controller \<Rightarrow> bool" where
  start: "control_step c (start_relay pf l p adapters c)"
| connection: "listening c \<Longrightarrow> control_step c (new_connection root bytes c)"
| data: "socket c \<Longrightarrow> control_step c (receive bytes c)"
| stop: "control_step c (stop_relay c)"
| timeout: "timer c \<Longrightarrow> control_step c (startup_timeout c)"
| finished: "busy c \<Longrightarrow> control_step c (finish is_linux code crashed rest stderr c)"
| failed: "busy c \<Longrightarrow> control_step c (start_failed is_linux err c)"

inductive control_reaches :: "controller \<Rightarrow> bool" where
  control_new: "control_reaches new_controller"
| control_next: "control_reaches c \<Longrightarrow> control_step c c' \<Longrightarrow> control_reaches c'"

section \<open>The supervisor\<close>

datatype read_result = Data string | Eof | Again | ReadError

datatype send_result = Sent nat | SendAgain | SendError

datatype wait_result = StillRunning | ChildExited int | WaitInterrupted | WaitFailed

datatype signal = SIGINT | SIGKILL

record supervisor =
  interrupted :: bool
  stopping :: bool
  connected :: bool
  logOpen :: bool
  sup_output :: string
  commands :: string
  deadline :: "int option"
  kills :: "signal list"
  sent_out :: string

definition new_supervisor :: supervisor where
  "new_supervisor = \<lparr>interrupted = False, stopping = False, connected = True, logOpen = True, sup_output = [], commands = [],
     deadline = None, kills = [], sent_out = []\<rparr>"

text \<open>One turn of the loop: what the system answers in it.\<close>

record turn =
  signalled :: bool
  clock1 :: int
  clock2 :: int
  conn_event :: bool
  conn_read :: read_result
  log_event :: bool
  log_reads :: "string list"
  log_end :: read_result
  send_answer :: send_result
  wait_answer :: wait_result

definition sup_kill :: "turn \<Rightarrow> supervisor \<Rightarrow> supervisor" where
  "sup_kill t s =
     (let s = s\<lparr>interrupted := interrupted s \<or> signalled t\<rparr>;
          s = (if interrupted s \<and> \<not> stopping s
               then s\<lparr>kills := kills s @ [SIGINT], stopping := True, deadline := Some (clock1 t + 5)\<rparr> else s)
      in if stopping s \<and> (case deadline s of None \<Rightarrow> False | Some d \<Rightarrow> clock2 t > d) then s\<lparr>kills := kills s @ [SIGKILL]\<rparr> else s)"

definition sup_command :: "turn \<Rightarrow> supervisor \<Rightarrow> supervisor" where
  "sup_command t s =
     (if connected s \<and> conn_event t
      then (case conn_read t of
              Data d \<Rightarrow>
                (let s = s\<lparr>commands := commands s @ d\<rparr>
                 in if has_infix (''STOP'' @ [CHR 0x0A]) (commands s) \<or> length (commands s) > 64 then s\<lparr>interrupted := True\<rparr> else s)
            | Again \<Rightarrow> s
            | _ \<Rightarrow> s\<lparr>connected := False, interrupted := True\<rparr>)
      else s)"

definition sup_append :: "string \<Rightarrow> supervisor \<Rightarrow> supervisor" where
  "sup_append d s =
     (let s = (if connected s then s\<lparr>sup_output := sup_output s @ d\<rparr> else s)
      in if length (sup_output s) > 4 * 1024 * 1024 then s\<lparr>connected := False, interrupted := True, sup_output := []\<rparr> else s)"

definition sup_log :: "turn \<Rightarrow> supervisor \<Rightarrow> supervisor" where
  "sup_log t s =
     (if logOpen s \<and> log_event t
      then (let s = fold sup_append (log_reads t) s in if log_end t = Eof then s\<lparr>logOpen := False\<rparr> else s)
      else s)"

definition sup_send :: "send_result \<Rightarrow> supervisor \<Rightarrow> supervisor" where
  "sup_send r s =
     (if connected s \<and> sup_output s \<noteq> []
      then (case r of
              Sent n \<Rightarrow> s\<lparr>sent_out := sent_out s @ take n (sup_output s), sup_output := drop n (sup_output s)\<rparr>
            | SendAgain \<Rightarrow> s
            | SendError \<Rightarrow> s\<lparr>connected := False, interrupted := True\<rparr>)
      else s)"

definition sup_turn :: "turn \<Rightarrow> supervisor \<Rightarrow> supervisor" where
  "sup_turn t s = sup_send (send_answer t) (sup_log t (sup_command t (sup_kill t s)))"

text \<open>
  After the turn in which the child is found to have exited, the rest of its output is read and up to twenty sends are
  tried, and the helper's exit status is the child's.
\<close>

fun drain :: "send_result list \<Rightarrow> supervisor \<Rightarrow> supervisor" where
  "drain [] s = s"
| "drain (r # rs) s =
     (if connected s \<and> sup_output s \<noteq> []
      then drain rs (case r of
                       Sent n \<Rightarrow> s\<lparr>sent_out := sent_out s @ take n (sup_output s), sup_output := drop n (sup_output s)\<rparr>
                     | _ \<Rightarrow> s)
      else s)"

definition sup_exit :: "string \<Rightarrow> send_result list \<Rightarrow> supervisor \<Rightarrow> supervisor" where
  "sup_exit rest tries s = drain (take 20 tries) (s\<lparr>sup_output := sup_output s @ rest\<rparr>)"

datatype sup_result = Continues supervisor | Exits int supervisor

fun sup_run :: "string \<Rightarrow> send_result list \<Rightarrow> turn list \<Rightarrow> supervisor \<Rightarrow> sup_result" where
  "sup_run rest tries [] s = Continues s"
| "sup_run rest tries (t # ts) s =
     (let s' = sup_turn t s
      in case wait_answer t of
           ChildExited status \<Rightarrow> Exits status (sup_exit rest tries s')
         | WaitFailed \<Rightarrow> Exits 0 s'
         | _ \<Rightarrow> sup_run rest tries ts s')"

section \<open>Lines of the controller\<close>

lemma emit_fields [simp]:
  "current (emit es c) = current c" "socket (emit es c) = socket c" "listening (emit es c) = listening c" "timer (emit es c) = timer c"
  "ready (emit es c) = ready c" "pending (emit es c) = pending c" "log_text (emit es c) = log_text c"
  "manualCommand (emit es c) = manualCommand c"
  by (simp_all add: emit_def)

lemma setState_fields [simp]:
  "current (setState s c) = s" "socket (setState s c) = socket c" "listening (setState s c) = listening c"
  "timer (setState s c) = timer c" "ready (setState s c) = ready c" "pending (setState s c) = pending c"
  "log_text (setState s c) = log_text c" "manualCommand (setState s c) = manualCommand c"
  by (simp_all add: setState_def)

lemma emit_update:
  "emit es (c\<lparr>pending := p\<rparr>) = (emit es c)\<lparr>pending := p\<rparr>" "emit es (c\<lparr>log_text := l\<rparr>) = (emit es c)\<lparr>log_text := l\<rparr>"
  by (simp_all add: emit_def)

lemma setState_update:
  "setState s (c\<lparr>pending := p\<rparr>) = (setState s c)\<lparr>pending := p\<rparr>" "setState s (c\<lparr>log_text := l\<rparr>) = (setState s c)\<lparr>log_text := l\<rparr>"
  "setState s (c\<lparr>pending := p, ready := r, timer := t\<rparr>) = (setState s (c\<lparr>ready := r, timer := t\<rparr>))\<lparr>pending := p\<rparr>"
  "setState s (c\<lparr>log_text := l, ready := r, timer := t\<rparr>) = (setState s (c\<lparr>ready := r, timer := t\<rparr>))\<lparr>log_text := l\<rparr>"
  by (simp_all add: setState_def emit_def)

lemma error_update:
  "emit es (c\<lparr>pending := p, lastError := e\<rparr>) = (emit es (c\<lparr>lastError := e\<rparr>))\<lparr>pending := p\<rparr>"
  "emit es (c\<lparr>log_text := l, lastError := e\<rparr>) = (emit es (c\<lparr>lastError := e\<rparr>))\<lparr>log_text := l\<rparr>"
  by (simp_all add: emit_def)

lemmas on_line_update = emit_update setState_update error_update

lemma on_line_pending: "on_line line (c\<lparr>pending := p\<rparr>) = (on_line line c)\<lparr>pending := p\<rparr>"
  unfolding on_line_def Let_def by (cases "after_marker ''Detected local Switch candidate: '' line") (simp_all add: on_line_update)

lemma on_line_log: "on_line line (c\<lparr>log_text := l\<rparr>) = (on_line line c)\<lparr>log_text := l\<rparr>"
  unfolding on_line_def Let_def by (cases "after_marker ''Detected local Switch candidate: '' line") (simp_all add: on_line_update)

lemma receive_lines_log: "receive_lines (c\<lparr>log_text := l\<rparr>) = (receive_lines c)\<lparr>log_text := l\<rparr>"
proof (induction c rule: receive_lines.induct)
  case (1 c)
  show ?case
  proof (cases "CHR 0x0A \<in> set (pending c)")
    case True
    have "on_line x (c\<lparr>log_text := l, pending := y\<rparr>) = on_line x (c\<lparr>pending := y\<rparr>)\<lparr>log_text := l\<rparr>" for x y
      by (simp add: on_line_pending on_line_log)
    then show ?thesis using 1 [OF True] True by (subst (1 2) receive_lines.simps) simp
  next
    case False
    then show ?thesis by (subst (1 2) receive_lines.simps) simp
  qed
qed

text \<open>Lines that are complete are handled the same whether more bytes have arrived behind them or not.\<close>

lemma receive_lines_append:
  "receive_lines (c\<lparr>pending := pending c @ b\<rparr>) =
   receive_lines ((receive_lines c)\<lparr>pending := pending (receive_lines c) @ b\<rparr>)"
proof (induction c rule: receive_lines.induct)
  case (1 c)
  show ?case
  proof (cases "CHR 0x0A \<in> set (pending c)")
    case True
    then obtain l r where p: "pending c = l @ CHR 0x0A # r" "CHR 0x0A \<notin> set l" using split_line by blast
    have cut: "takeWhile (\<lambda>x. x \<noteq> CHR 0x0A) (l @ CHR 0x0A # q) = l" "tl (dropWhile (\<lambda>x. x \<noteq> CHR 0x0A) (l @ CHR 0x0A # q)) = q" for q
      using p(2) by (auto simp: takeWhile_append dropWhile_append)
    let ?c = "on_line (trimmed l) (c\<lparr>pending := r\<rparr>)"
    have "receive_lines c = receive_lines ?c" using p(1) cut by (subst receive_lines.simps) simp
    moreover have "receive_lines (c\<lparr>pending := pending c @ b\<rparr>) = receive_lines (?c\<lparr>pending := pending ?c @ b\<rparr>)"
      using cut by (subst receive_lines.simps) (simp add: p(1) on_line_pending)
    ultimately show ?thesis using 1 [OF True] by (simp add: p(1) cut)
  next
    case False
    then have "receive_lines c = c" by (subst receive_lines.simps) simp
    then show ?thesis by simp
  qed
qed

text \<open>What \<^verbatim>\<open>receive\<close> does apart from writing the log.\<close>

definition absorb :: "string \<Rightarrow> controller \<Rightarrow> controller" where
  "absorb bytes c =
     (let c = receive_lines (c\<lparr>pending := pending c @ bytes\<rparr>)
      in if length (pending c) > MAX_PENDING then c\<lparr>pending := drop (length (pending c) - MAX_PENDING) (pending c)\<rparr> else c)"

lemma receive_absorb:
  "receive bytes c =
     (absorb bytes c)\<lparr>log_text := map_option (\<lambda>t. if length t < 16 * 1024 * 1024 then t @ bytes else t) (log_text c)\<rparr>"
proof -
  have "c\<lparr>log_text := l, pending := p\<rparr> = c\<lparr>pending := p\<rparr>\<lparr>log_text := l\<rparr>" for l p by simp
  then show ?thesis unfolding receive_def absorb_def Let_def by (simp only: receive_lines_log) simp
qed

lemma absorb_log: "absorb b (c\<lparr>log_text := l\<rparr>) = (absorb b c)\<lparr>log_text := l\<rparr>"
proof -
  have "c\<lparr>log_text := l, pending := pending (c\<lparr>log_text := l\<rparr>) @ b\<rparr> = c\<lparr>pending := pending c @ b\<rparr>\<lparr>log_text := l\<rparr>" by simp
  then show ?thesis unfolding absorb_def Let_def by (simp only: receive_lines_log) simp
qed

text \<open>What is left is the line that is not finished yet.\<close>

definition unfinished :: "string \<Rightarrow> string" where
  "unfinished s = rev (takeWhile (\<lambda>x. x \<noteq> CHR 0x0A) (rev s))"

lemma unfinished_none: "CHR 0x0A \<notin> set s \<Longrightarrow> unfinished s = s"
  unfolding unfinished_def by (subst takeWhile_eq_all_conv [THEN iffD2]) auto

lemma unfinished_line: "unfinished (l @ CHR 0x0A # r) = unfinished r"
proof (cases "CHR 0x0A \<in> set r")
  case True
  then show ?thesis unfolding unfinished_def by simp
next
  case False
  then have "takeWhile (\<lambda>x. x \<noteq> CHR 0x0A) (rev r @ CHR 0x0A # rev l) = rev r"
    by (subst takeWhile_append2) auto
  then show ?thesis using unfinished_none [OF False] by (simp add: unfinished_def)
qed

lemma receive_lines_pending: "pending (receive_lines c) = unfinished (pending c)"
proof (induction c rule: receive_lines.induct)
  case (1 c)
  show ?case
  proof (cases "CHR 0x0A \<in> set (pending c)")
    case True
    then obtain l r where p: "pending c = l @ CHR 0x0A # r" "CHR 0x0A \<notin> set l" using split_line by blast
    have cut: "takeWhile (\<lambda>x. x \<noteq> CHR 0x0A) (pending c) = l" "tl (dropWhile (\<lambda>x. x \<noteq> CHR 0x0A) (pending c)) = r"
      using p by (auto simp: takeWhile_append dropWhile_append)
    have "receive_lines c = receive_lines (on_line (trimmed l) (c\<lparr>pending := r\<rparr>))"
      using True cut by (subst receive_lines.simps) simp
    moreover have "unfinished (l @ CHR 0x0A # r) = unfinished r" by (rule unfinished_line)
    ultimately show ?thesis using 1 [OF True] unfolding cut by (simp add: p(1))
  next
    case False
    then have "receive_lines c = c" by (subst receive_lines.simps) simp
    then show ?thesis using unfinished_none [OF False] by simp
  qed
qed

lemma absorb_append:
  assumes "length (unfinished (pending c @ a)) \<le> MAX_PENDING"
  shows "absorb b (absorb a c) = absorb (a @ b) c"
proof -
  let ?c = "c\<lparr>pending := pending c @ a\<rparr>"
  have "length (pending (receive_lines ?c)) \<le> MAX_PENDING" using receive_lines_pending [of ?c] assms by simp
  then have "absorb a c = receive_lines ?c" by (simp add: absorb_def)
  then show ?thesis using receive_lines_append [of ?c b] by (simp add: absorb_def)
qed

text \<open>
  C31.  The controller's view of the relay does not depend on how its output is cut into reads: two reads have the same
  effect as one, on its state, its messages and the part of a line that is left, unless the line that the first
  read leaves unfinished is longer than 65536 bytes.  The log of the report is left out: its limit of 16 MiB is tested
  once for each read, so where it is cut depends on the reads.
\<close>

theorem output_chunking:
  assumes "length (unfinished (pending c @ a)) \<le> 65536"
  shows "(receive b (receive a c))\<lparr>log_text := None\<rparr> = (receive (a @ b) c)\<lparr>log_text := None\<rparr>"
  using absorb_append [OF assms, of b] by (simp add: receive_absorb absorb_log)

theorem output_chunking_witness:
  "(receive ''ted (PID 7)'' (receive ''Relay star'' new_controller))\<lparr>log_text := None\<rparr> =
   (receive ''Relay started (PID 7)'' new_controller)\<lparr>log_text := None\<rparr>"
  using output_chunking [of new_controller "''Relay star''" "''ted (PID 7)''"] by (simp add: new_controller_def unfinished_def)

section \<open>The controller's states\<close>

definition control_ok :: "controller \<Rightarrow> bool" where
  "control_ok c \<longleftrightarrow> (current c = Idle \<longrightarrow> \<not> socket c \<and> \<not> listening c) \<and> (current c = Authorizing \<longrightarrow> \<not> socket c) \<and>
     (current c = Starting \<or> current c = Running \<longrightarrow> socket c) \<and> (current c = Running \<longrightarrow> ready c) \<and>
     (timer c \<longrightarrow> current c = Starting)"

text \<open>Reading output leaves the state, or announces that the relay runs.\<close>

lemma on_line_state:
  "current (on_line l c) = current c \<and> ready (on_line l c) = ready c \<and> timer (on_line l c) = timer c \<or>
   current c \<noteq> Stopping \<and> current (on_line l c) = Running \<and> ready (on_line l c) \<and> \<not> timer (on_line l c)"
  by (simp add: on_line_def Let_def split: option.splits)

lemma receive_lines_state:
  "socket (receive_lines c) = socket c \<and> listening (receive_lines c) = listening c \<and>
   (current (receive_lines c) = current c \<and> ready (receive_lines c) = ready c \<and> timer (receive_lines c) = timer c \<or>
    current c \<noteq> Stopping \<and> current (receive_lines c) = Running \<and> ready (receive_lines c) \<and> \<not> timer (receive_lines c))"
proof (induction c rule: receive_lines.induct)
  case (1 c)
  show ?case
  proof (cases "CHR 0x0A \<in> set (pending c)")
    case True
    let ?l = "trimmed (takeWhile (\<lambda>x. x \<noteq> CHR 0x0A) (pending c))"
    let ?c = "c\<lparr>pending := tl (dropWhile (\<lambda>x. x \<noteq> CHR 0x0A) (pending c))\<rparr>"
    have "receive_lines c = receive_lines (on_line ?l ?c)" using True by (subst receive_lines.simps) simp
    then show ?thesis using 1 [OF True] on_line_state [of ?l ?c] by auto
  next
    case False
    then have "receive_lines c = c" by (subst receive_lines.simps) simp
    then show ?thesis by simp
  qed
qed

lemma receive_state:
  "socket (receive b c) = socket c \<and> listening (receive b c) = listening c \<and>
   (current (receive b c) = current c \<and> ready (receive b c) = ready c \<and> timer (receive b c) = timer c \<or>
    current c \<noteq> Stopping \<and> current (receive b c) = Running \<and> ready (receive b c) \<and> \<not> timer (receive b c))"
  using receive_lines_state [of "c\<lparr>log_text := map_option (\<lambda>t. if length t < 16 * 1024 * 1024 then t @ b else t) (log_text c),
    pending := pending c @ b\<rparr>"]
  by (simp add: receive_def Let_def)

lemma finish_state:
  "current (finish is_linux code crashed rest err c) = Idle" "\<not> socket (finish is_linux code crashed rest err c)"
  "\<not> listening (finish is_linux code crashed rest err c)" "\<not> timer (finish is_linux code crashed rest err c)"
proof -
  have t: "\<not> timer c \<Longrightarrow> \<not> timer (receive b c)" for b c using receive_state [of b c] by auto
  have l: "listening (receive b c) = listening c" "socket (receive b c) = socket c" for b c using receive_state [of b c] by auto
  show "current (finish is_linux code crashed rest err c) = Idle" "\<not> socket (finish is_linux code crashed rest err c)"
    "\<not> listening (finish is_linux code crashed rest err c)" "\<not> timer (finish is_linux code crashed rest err c)"
    by (simp_all add: finish_def Let_def l t)
qed

lemma new_connection_state:
  assumes "control_ok c" "listening c"
  shows "control_ok (new_connection root bytes c)"
proof -
  let ?c = "(emit [Message StartingRelay] (setState Starting (c\<lparr>socket := True\<rparr>)))\<lparr>timer := True\<rparr>"
  show ?thesis using assms receive_state [of bytes ?c] by (auto simp: new_connection_def control_ok_def)
qed

lemma stop_relay_ok: "control_ok c \<Longrightarrow> control_ok (stop_relay c)"
  by (auto simp: stop_relay_def control_ok_def busy_def Let_def)

lemma start_relay_state:
  "current (start_relay pf l p adapters c) = current c \<and> socket (start_relay pf l p adapters c) = socket c \<and>
     timer (start_relay pf l p adapters c) = timer c \<and> listening (start_relay pf l p adapters c) = listening c \<and>
     (current c = Running \<longrightarrow> ready (start_relay pf l p adapters c) = ready c) \<or>
   current c = Idle \<and> current (start_relay pf l p adapters c) = Authorizing \<and> socket (start_relay pf l p adapters c) = socket c \<and>
     timer (start_relay pf l p adapters c) = timer c"
  by (auto simp: start_relay_def busy_def Let_def split: option.splits prod.splits)

lemma control_step_ok: "control_step c c' \<Longrightarrow> control_ok c \<Longrightarrow> control_ok c'"
proof (induction rule: control_step.induct)
  case (start c pf l p adapters)
  then show ?case using start_relay_state [of pf l p adapters c] by (auto simp: control_ok_def)
next
  case (data c bytes)
  then show ?case using receive_state [of bytes c] by (auto simp: control_ok_def)
next
  case (timeout c)
  then show ?case unfolding startup_timeout_def by (intro stop_relay_ok) (auto simp: control_ok_def)
next
  case (connection c root bytes)
  then show ?case by (simp add: new_connection_state)
next
  case (stop c)
  then show ?case by (rule stop_relay_ok)
qed (simp_all add: control_ok_def finish_state start_failed_def)

lemma control_reaches_ok: "control_reaches c \<Longrightarrow> control_ok c"
proof (induction rule: control_reaches.induct)
  case (control_next c c')
  then show ?case by (blast intro: control_step_ok)
qed (simp add: control_ok_def new_controller_def)

text \<open>The socket is only set by a root peer, and stopping only ends with the process.\<close>

lemma control_step_socket:
  assumes "control_step c c'" "\<not> socket c" "socket c'"
  shows "\<exists>bytes. c' = new_connection True bytes c"
  using assms(1)
proof (cases rule: control_step.cases)
  case (start pf l p adapters)
  then show ?thesis using assms(2,3) start_relay_state [of pf l p adapters c] by auto
next
  case (connection root bytes)
  then show ?thesis using assms(2,3) by (cases root) (auto simp: new_connection_def)
qed (use assms(2,3) in \<open>auto simp: finish_state start_failed_def startup_timeout_def stop_relay_def Let_def split: if_splits\<close>)

lemma control_step_stopping:
  assumes "control_step c c'" "current c = Stopping"
  shows "current c' = Stopping \<or> current c' = Idle"
  using assms(1)
proof (cases rule: control_step.cases)
  case (start pf l p adapters)
  then show ?thesis using assms(2) start_relay_state [of pf l p adapters c] by auto
next
  case (data bytes)
  then show ?thesis using assms(2) receive_state [of bytes c] by auto
qed (use assms(2) in \<open>auto simp: finish_state start_failed_def startup_timeout_def stop_relay_def new_connection_def\<close>)

section \<open>The supervisor's promises\<close>

lemma sup_append_fields [simp]:
  "kills (sup_append d s) = kills s" "stopping (sup_append d s) = stopping s" "deadline (sup_append d s) = deadline s"
  "sent_out (sup_append d s) = sent_out s" "logOpen (sup_append d s) = logOpen s"
  by (simp_all add: sup_append_def Let_def)

lemma sup_append_interrupted: "interrupted s \<Longrightarrow> interrupted (sup_append d s)"
  by (simp add: sup_append_def Let_def)

lemma fold_sup_append_fields [simp]:
  "kills (fold sup_append ds s) = kills s" "stopping (fold sup_append ds s) = stopping s"
  "deadline (fold sup_append ds s) = deadline s" "sent_out (fold sup_append ds s) = sent_out s"
  "logOpen (fold sup_append ds s) = logOpen s"
  by (induction ds arbitrary: s) simp_all

lemma fold_sup_append_interrupted: "interrupted s \<Longrightarrow> interrupted (fold sup_append ds s)"
  by (induction ds arbitrary: s) (simp_all add: sup_append_interrupted)

text \<open>The signals of a run: none before it is interrupted, then one \<^verbatim>\<open>SIGINT\<close>, then \<^verbatim>\<open>SIGKILL\<close> after the deadline.\<close>

definition signals_ok :: "supervisor \<Rightarrow> bool" where
  "signals_ok s \<longleftrightarrow> (if stopping s then interrupted s \<and> deadline s \<noteq> None \<and> (\<exists>n. kills s = SIGINT # replicate n SIGKILL) else kills s = [])"

lemma sup_kill_signals: "signals_ok s \<Longrightarrow> signals_ok (sup_kill t s) \<and> (interrupted (sup_kill t s) = stopping (sup_kill t s))"
proof -
  have snoc: "\<exists>m. SIGINT # replicate n SIGKILL @ [SIGKILL] = SIGINT # replicate m SIGKILL" for n
    by (intro exI [of _ "Suc n"]) (simp add: replicate_append_same)
  have one: "\<exists>m. [SIGINT, SIGKILL] = SIGINT # replicate m SIGKILL" "\<exists>m. [SIGINT] = SIGINT # replicate m SIGKILL"
    by (intro exI [of _ 1], simp) (intro exI [of _ 0], simp)
  assume "signals_ok s"
  then show ?thesis using snoc one by (auto simp: signals_ok_def sup_kill_def Let_def split: if_splits option.splits)
qed

lemma sup_turn_fields:
  "kills (sup_turn t s) = kills (sup_kill t s)" "stopping (sup_turn t s) = stopping (sup_kill t s)"
  "deadline (sup_turn t s) = deadline (sup_kill t s)" "interrupted (sup_kill t s) \<Longrightarrow> interrupted (sup_turn t s)"
  by (auto simp: sup_turn_def sup_send_def sup_log_def sup_command_def Let_def fold_sup_append_interrupted
      split: send_result.splits read_result.splits)

lemma sup_turn_signals: "signals_ok s \<Longrightarrow> signals_ok (sup_turn t s)"
  using sup_kill_signals [of s t] sup_turn_fields [of t s] by (auto simp: signals_ok_def)

text \<open>What the child wrote, as far as the supervisor has read it, and what the application got of it.\<close>

definition turn_log :: "turn \<Rightarrow> supervisor \<Rightarrow> string" where
  "turn_log t s = (if logOpen s \<and> log_event t then concat (log_reads t) else [])"

fun run_log :: "string \<Rightarrow> turn list \<Rightarrow> supervisor \<Rightarrow> string" where
  "run_log rest [] s = []"
| "run_log rest (t # ts) s =
     turn_log t s @ (case wait_answer t of ChildExited _ \<Rightarrow> rest | WaitFailed \<Rightarrow> [] | _ \<Rightarrow> run_log rest ts (sup_turn t s))"

definition relays :: "string \<Rightarrow> supervisor \<Rightarrow> bool" where
  "relays w s \<longleftrightarrow> (if connected s then w = sent_out s @ sup_output s else \<exists>r. w = sent_out s @ r)"

lemma relays_append: "relays w s \<Longrightarrow> relays (w @ d) (sup_append d s)"
  by (auto simp: relays_def sup_append_def Let_def)

lemma relays_fold: "relays w s \<Longrightarrow> relays (w @ concat ds) (fold sup_append ds s)"
proof (induction ds arbitrary: w s)
  case (Cons d ds)
  then show ?case using Cons.IH [OF relays_append [OF Cons.prems, of d]] by simp
qed simp

lemma relays_turn: "relays w s \<Longrightarrow> relays (w @ turn_log t s) (sup_turn t s)"
proof -
  assume "relays w s"
  then have "relays w (sup_command t (sup_kill t s))"
    by (auto simp: relays_def sup_command_def sup_kill_def Let_def split: read_result.splits)
  moreover have "logOpen (sup_command t (sup_kill t s)) = logOpen s"
    by (auto simp: sup_command_def sup_kill_def Let_def split: read_result.splits)
  ultimately have "relays (w @ turn_log t s) (sup_log t (sup_command t (sup_kill t s)))" (is "relays ?w ?s")
    using relays_fold [of w "sup_command t (sup_kill t s)" "log_reads t"]
    by (auto simp: sup_log_def turn_log_def Let_def relays_def)
  then have "relays ?w (sup_send (send_answer t) ?s)"
    by (auto simp: relays_def sup_send_def split: send_result.splits)
  then show ?thesis by (simp add: sup_turn_def)
qed

lemma relays_drain: "relays w s \<Longrightarrow> relays w (drain tries s)"
proof (induction tries s rule: drain.induct)
  case (2 r rs s)
  then show ?case by (cases r) (auto simp: relays_def)
qed simp

lemma relays_exit: "relays w s \<Longrightarrow> relays (w @ rest) (sup_exit rest tries s)"
  unfolding sup_exit_def by (rule relays_drain) (auto simp: relays_def)

definition final :: "sup_result \<Rightarrow> supervisor" where
  "final r = (case r of Continues s \<Rightarrow> s | Exits _ s \<Rightarrow> s)"

lemma drain_signals: "signals_ok (drain tries s) = signals_ok s"
  by (induction tries s rule: drain.induct) (auto simp: signals_ok_def split: send_result.splits)

lemma sup_exit_signals: "signals_ok (sup_exit rest tries s) = signals_ok s"
  unfolding sup_exit_def drain_signals by (simp add: signals_ok_def)

lemma sup_run_signals: "signals_ok s \<Longrightarrow> signals_ok (final (sup_run rest tries ts s))"
proof (induction rest tries ts s rule: sup_run.induct)
  case (2 rest tries t ts s)
  then show ?case using sup_turn_signals [OF 2(3), of t]
    by (auto simp: final_def Let_def sup_exit_signals split: wait_result.splits)
qed (simp add: final_def)

lemma sup_run_relays: "relays w s \<Longrightarrow> relays (w @ run_log rest ts s) (final (sup_run rest tries ts s))"
proof (induction rest tries ts s arbitrary: w rule: sup_run.induct)
  case (2 rest tries t ts s)
  note turn = relays_turn [OF 2(3), of t]
  show ?case
  proof (cases "wait_answer t")
    case (ChildExited status)
    then show ?thesis using relays_exit [OF turn, of rest tries] by (simp add: final_def Let_def)
  next
    case WaitFailed
    then show ?thesis using turn by (simp add: final_def Let_def)
  next
    case StillRunning
    then show ?thesis using 2(1) [OF refl StillRunning turn] by (simp add: Let_def)
  next
    case WaitInterrupted
    then show ?thesis using 2(2) [OF refl WaitInterrupted turn] by (simp add: Let_def)
  qed
qed (simp add: final_def)

section \<open>Properties\<close>

text \<open>
  C21.  The helper stops its child, and nothing else makes it.  At every point of every run the signals sent to the relay
  are none if nothing has interrupted the helper, and otherwise one \<^verbatim>\<open>SIGINT\<close> followed by \<^verbatim>\<open>SIGKILL\<close>s; an interruption,
  which a signal, \<^verbatim>\<open>STOP\<close>, a lost connection or an overflow causes, leads to the \<^verbatim>\<open>SIGINT\<close> in the next turn; and a
  \<^verbatim>\<open>SIGKILL\<close> is only sent after the deadline.
\<close>

theorem supervisor_stops_child:
  assumes "s = final (sup_run rest tries ts new_supervisor)"
  shows "\<exists>n. kills s = (if stopping s then SIGINT # replicate n SIGKILL else []) \<and> (stopping s \<longrightarrow> interrupted s) \<and>
    (interrupted s \<longrightarrow> kills (sup_turn t s) \<noteq> [] \<and> hd (kills (sup_turn t s)) = SIGINT) \<and>
    (stopping s \<and> kills (sup_turn t s) \<noteq> kills s \<longrightarrow> (\<exists>d. deadline s = Some d \<and> d < clock2 t))"
proof -
  have "signals_ok new_supervisor" by (simp add: signals_ok_def new_supervisor_def)
  then have s: "signals_ok s" unfolding assms by (rule sup_run_signals)
  have "stopping (sup_turn t s)" if "interrupted s"
    using that by (simp add: sup_turn_fields sup_kill_def Let_def)
  moreover have "deadline s = Some d \<Longrightarrow> stopping s \<Longrightarrow> kills (sup_turn t s) \<noteq> kills s \<Longrightarrow> d < clock2 t" for d
    by (auto simp: sup_turn_fields sup_kill_def Let_def split: if_splits option.splits)
  ultimately show ?thesis using s sup_turn_signals [OF s, of t] by (auto simp: signals_ok_def split: if_splits)
qed

definition stop_turn :: turn where
  "stop_turn = \<lparr>signalled = False, clock1 = 3, clock2 = 3, conn_event = True, conn_read = Data (''STOP'' @ [CHR 0x0A]),
     log_event = True, log_reads = [''ab'', ''c''], log_end = Again, send_answer = Sent 2, wait_answer = StillRunning\<rparr>"

theorem supervisor_stops_child_witness:
  "kills (sup_turn stop_turn (final (sup_run [] [] [stop_turn] new_supervisor))) = [SIGINT]"
proof -
  let ?s = "final (sup_run [] [] [stop_turn] new_supervisor)"
  have s: "?s = sup_turn stop_turn new_supervisor" by (simp add: final_def Let_def stop_turn_def)
  have "interrupted ?s" "\<not> stopping ?s"
    unfolding s by (simp_all add: sup_turn_def sup_kill_def sup_command_def sup_log_def sup_append_def sup_send_def stop_turn_def
        new_supervisor_def Let_def starts_with_def)
  then have "kills (sup_turn stop_turn ?s) \<noteq> []" "hd (kills (sup_turn stop_turn ?s)) = SIGINT" "kills ?s = []"
    using supervisor_stops_child [OF refl, of "[]" "[]" "[stop_turn]" stop_turn] by auto
  moreover have "length (kills (sup_turn stop_turn ?s)) \<le> 1" using \<open>kills ?s = []\<close>
    by (simp add: sup_turn_fields sup_kill_def Let_def stop_turn_def split: option.splits)
  ultimately show ?thesis by (cases "kills (sup_turn stop_turn ?s)") auto
qed

text \<open>
  C22.  The application sees the relay's output.  What the helper has sent is at every point the beginning of what the
  relay wrote, in order and without gaps, and while the connection stands nothing of it is missing: sent and buffered
  bytes together are all that was read.
\<close>

theorem supervisor_relays_output:
  assumes "s = final (sup_run rest tries ts new_supervisor)"
  shows "(\<exists>missing. run_log rest ts new_supervisor = sent_out s @ missing) \<and>
    (connected s \<longrightarrow> run_log rest ts new_supervisor = sent_out s @ sup_output s)"
proof -
  have "relays [] new_supervisor" by (simp add: relays_def new_supervisor_def)
  then have "relays (run_log rest ts new_supervisor) s" unfolding assms using sup_run_relays [of "[]"] by fastforce
  then show ?thesis by (auto simp: relays_def split: if_splits)
qed

theorem supervisor_relays_output_witness:
  "sent_out (final (sup_run [] [] [stop_turn] new_supervisor)) @ sup_output (final (sup_run [] [] [stop_turn] new_supervisor)) = ''abc''"
proof -
  let ?s = "final (sup_run [] [] [stop_turn] new_supervisor)"
  have "connected ?s"
    by (simp add: final_def Let_def sup_turn_def sup_kill_def sup_command_def sup_log_def sup_append_def sup_send_def stop_turn_def
        new_supervisor_def starts_with_def)
  moreover have "run_log [] [stop_turn] new_supervisor = ''abc''"
    by (simp add: turn_log_def stop_turn_def new_supervisor_def)
  ultimately show ?thesis using supervisor_relays_output [OF refl, of "[]" "[stop_turn]" "[]"] by simp
qed

end
