(* ===== verification/Desktop_Session.thy ===== *)
theory Desktop_Session
  imports Example Desktop_Control
begin

text \<open>
  The desktop application and the relay: the command line that the application builds from validated preferences is the
  one the relay's parser and start-up accept, and the application's account of the relay it has launched.
\<close>

section \<open>Validated preferences\<close>

text \<open>What the documentation of \<^verbatim>\<open>QHostAddress\<close> says of an IPv4 address: it is printed in dotted form, and read back.\<close>

definition dotted_hosts :: "platform \<Rightarrow> bool" where
  "dotted_hosts pf \<longleftrightarrow> (\<forall>v. host_text pf v = show_ip (u32_to_ipv4 v) \<and> parse_host pf (host_text pf v) = Some v)"

lemma show_ip_inject [simp]: "show_ip a = show_ip b \<longleftrightarrow> a = b"
  by (metis inet_pton_show_ip option.inject)

lemma u32_to_ipv4_inject [simp]: "u32_to_ipv4 v = u32_to_ipv4 w \<longleftrightarrow> v = w"
  by (metis ipv4_to_u32_to_ipv4)

abbreviation (input) slash24 :: u32 where "slash24 \<equiv> 0xFFFFFF00"

lemma slash24_text: "show_ip (u32_to_ipv4 slash24) = ''255.255.255.0''"
  by (simp add: u32_to_ipv4_def show_nat.simps char_of_def bit_Suc_0_iff)

lemma shift_count_24: "shift_count slash24 = 24"
  by code_simp

lemma show_24: "show_nat 24 = ''24''"
  by (simp add: show_nat.simps char_of_def bit_Suc_0_iff)

lemma subnetFor_24:
  assumes "dotted_hosts pf"
  shows "subnetFor pf (host_text pf v) ''255.255.255.0'' = show_ip (u32_to_ipv4 (v AND slash24)) @ ''/24''"
proof -
  have "parse_host pf ''255.255.255.0'' = Some slash24"
    using assms unfolding dotted_hosts_def slash24_text [symmetric] by metis
  moreover have "parse_host pf (host_text pf v) = Some v" "host_text pf w = show_ip (u32_to_ipv4 w)" for w
    using assms unfolding dotted_hosts_def by blast+
  ultimately show ?thesis unfolding subnetFor_def by (simp add: shift_count_24 show_24)
qed






lemma parse_desktop_arguments:
  "\<exists>o1. parse_arguments None (prog # arguments pf all prefix p) = Some o1 \<and>
     netif o1 = Some (arguments pf all prefix p ! 1) \<and> zerotier_if o1 = Some (arguments pf all prefix p ! 3) \<and>
     opt_subnet o1 = Some (ad_subnet (overlay all p)) \<and> gateway_ip o1 = Some (chosen_gateway all p) \<and> status_events o1 \<and>
     diagnostics o1 = (pref_diagnostics p \<or> pref_capture p) \<and> discover_switch o1 = pref_discover p \<and> dhcp_server o1 = pref_dhcp p \<and>
     capture_prefix o1 = (if pref_capture p then Some prefix else None) \<and> relay_server_addr o1 = None \<and> relay_password o1 = None \<and> socks5_server_addr o1 = None"
  by (simp add: parse_arguments_def arguments_def Let_def parse_flag_def parse_param_def default_options_def credentials_ok_def)


text \<open>
  A validated launch can be refused.  If the subnet in CIDR notation has sixteen or more characters, as every /24
  whose first three numbers have nine digits and more, the relay's start-up fails on the command line that the
  application has validated.
\<close>

theorem desktop_launch_refused:
  assumes "validate pf (discoverAdapters pf ifs) p = Fine" "16 \<le> length (ad_subnet (overlay (discoverAdapters pf ifs) p))"
    "parse_arguments None (prog # arguments pf (discoverAdapters pf ifs) prefix p) = Some (options e)"
  shows "lan_play_init e calls lp = Inl BadSubnet"
proof -
  have "opt_subnet (options e) = Some (ad_subnet (overlay (discoverAdapters pf ifs) p))" "relay_server_addr (options e) = None" "relay_password (options e) = None"
    using parse_desktop_arguments [of prog pf "discoverAdapters pf ifs" prefix p] assms(3) by auto
  then show ?thesis using assms(2)
    by (simp add: lan_play_init_def init_login_def bindE_def init_subnet_def orE_def parse_subnet_def Let_def)
qed

definition demo_preferences :: preferences where
  "demo_preferences = \<lparr>localInterface = ''wlan0'', overlayInterface = ''zt0'', pref_gateway = [], relayPath = ''relay'',
     pref_diagnostics = False, pref_capture = False, pref_discover = True, pref_dhcp = True\<rparr>"

lemma demo_dotted: "dotted_hosts demo_platform"
  by (simp add: dotted_hosts_def demo_platform_def inet_pton_show_ip)

lemma adapter_24:
  assumes "dotted_hosts pf" "find fst (qi_entries i) = Some (x, v, slash24)"
  shows "ad_ip (make_adapter pf i) = host_text pf v \<and> ad_mask (make_adapter pf i) = ''255.255.255.0'' \<and>
    ad_subnet (make_adapter pf i) = show_ip (u32_to_ipv4 (v AND slash24)) @ ''/24'' \<and>
    ad_gateway (make_adapter pf i) = host_text pf ((v AND slash24) + 1) \<and> ad_name (make_adapter pf i) = qi_name i \<and>
    ad_up (make_adapter pf i) = qi_up i"
  using assms subnetFor_24 [OF assms(1), of v] slash24_text
  by (simp add: make_adapter_def no_adapter_def Let_def dotted_hosts_def)

text \<open>Two adapters with a /24 network each, the second one with the address \<open>v\<close>.\<close>

definition two_interfaces :: "u32 \<Rightarrow> qt_interface list" where
  "two_interfaces v =
     [\<lparr>qi_name = ''wlan0'', qi_label = ''wlan0'', qi_loopback = False, qi_up = True, qi_wifi = True,
       qi_entries = [(True, 0xC0A8010A, slash24)]\<rparr>,
      \<lparr>qi_name = ''zt0'', qi_label = ''zt0'', qi_loopback = False, qi_up = True, qi_wifi = False,
       qi_entries = [(True, v, slash24)]\<rparr>]"

lemma two_interfaces_valid:
  assumes "(v AND slash24) + 1 \<noteq> v" "((v AND slash24) + 1) AND 255 = 1" "((v AND slash24) + 1) AND slash24 = v AND slash24"
  shows "validate demo_platform (discoverAdapters demo_platform (two_interfaces v)) demo_preferences = Fine"
    "ad_subnet (overlay (discoverAdapters demo_platform (two_interfaces v)) demo_preferences) = show_ip (u32_to_ipv4 (v AND slash24)) @ ''/24''"
proof -
  let ?w = "make_adapter demo_platform (two_interfaces v ! 0)" and ?z = "make_adapter demo_platform (two_interfaces v ! 1)"
  have dotted: "host_text demo_platform x = show_ip (u32_to_ipv4 x)" "parse_host demo_platform (show_ip (u32_to_ipv4 x)) = Some x"
    "\<not> on_windows demo_platform" "is_executable demo_platform r" for x r
    by (simp_all add: demo_platform_def inet_pton_show_ip)
  have w: "ad_ip ?w \<noteq> []" "ad_name ?w = ''wlan0''" "ad_up ?w"
    using adapter_24 [OF demo_dotted, of "two_interfaces v ! 0" True "0xC0A8010A"] by (simp_all add: two_interfaces_def dotted)
  have z: "ad_ip ?z = show_ip (u32_to_ipv4 v)" "ad_mask ?z = ''255.255.255.0''" "ad_name ?z = ''zt0''" "ad_up ?z"
    "ad_subnet ?z = show_ip (u32_to_ipv4 (v AND slash24)) @ ''/24''" "ad_gateway ?z = show_ip (u32_to_ipv4 ((v AND slash24) + 1))"
    using adapter_24 [OF demo_dotted, of "two_interfaces v ! 1" True v] by (simp_all add: two_interfaces_def dotted)
  have all: "discoverAdapters demo_platform (two_interfaces v) = [?w, ?z]"
    using w(1) z(1) by (simp add: discoverAdapters_def two_interfaces_def)
  have o: "overlay [?w, ?z] demo_preferences = ?z" using w(2) z(3) by (simp add: overlay_def demo_preferences_def)
  have g: "chosen_gateway [?w, ?z] demo_preferences = show_ip (u32_to_ipv4 ((v AND slash24) + 1))"
    unfolding chosen_gateway_def o z(6) by (simp add: demo_preferences_def)
  have "subnetFor demo_platform (show_ip (u32_to_ipv4 ((v AND slash24) + 1))) ''255.255.255.0'' = ad_subnet ?z"
    using subnetFor_24 [OF demo_dotted, of "(v AND slash24) + 1"] assms(3) z(5) by (simp add: dotted)
  then show "validate demo_platform (discoverAdapters demo_platform (two_interfaces v)) demo_preferences = Fine"
    using w z assms unfolding all validate_def Let_def o g by (simp add: dotted demo_preferences_def)
  show "ad_subnet (overlay (discoverAdapters demo_platform (two_interfaces v)) demo_preferences) = show_ip (u32_to_ipv4 (v AND slash24)) @ ''/24''"
    unfolding all o by (rule z(5))
qed


theorem desktop_launch_refused_witness:
  "\<exists>e. parse_arguments None (''relay'' # arguments demo_platform (discoverAdapters demo_platform (two_interfaces 0xC0A8BF05))
      [] demo_preferences) = Some (options e) \<and> lan_play_init e demo_calls zero_relay = Inl BadSubnet"
proof -
  have t: "show_ip (u32_to_ipv4 (0xC0A8BF05 AND slash24)) @ ''/24'' = ''192.168.191.0/24''"
    by (simp add: u32_to_ipv4_def show_nat.simps char_of_def bit_Suc_0_iff)
  let ?args = "''relay'' # arguments demo_platform (discoverAdapters demo_platform (two_interfaces 0xC0A8BF05)) [] demo_preferences"
  obtain o1 where o1: "parse_arguments None ?args = Some o1" using parse_desktop_arguments by blast
  let ?e = "demo_env\<lparr>options := o1\<rparr>"
  have "lan_play_init ?e demo_calls zero_relay = Inl BadSubnet"
    using desktop_launch_refused [OF two_interfaces_valid(1) [of "0xC0A8BF05"], of "''relay''" "[]" ?e demo_calls zero_relay] o1
      two_interfaces_valid(2) [of "0xC0A8BF05"] unfolding t by simp
  then show ?thesis using o1 by (intro exI [of _ ?e]) simp
qed

section \<open>A session\<close>

definition demo_launch :: launch_calls where
  "demo_launch = \<lparr>helper = ''sup'', helper_executable = True, copies = None, report_ok = True, log_ok = True, listen_ok = True,
     server_name = ''/tmp/c'', uid = ''1000'', pkexec = Some ''pkexec'', report = ''/r'', linux = True\<rparr>"

abbreviation (input) demo_all :: "adapter list" where
  "demo_all \<equiv> discoverAdapters demo_platform (two_interfaces 0x0A931105)"

text \<open>The session of a user who starts the relay and approves the prompt.\<close>

lemma demo_session:
  "\<exists>c. control_reaches c \<and> current c = Authorizing \<and> listening c \<and> \<not> socket c \<and> pending c = [] \<and>
     current (new_connection True (''Relay started (PID 7)'' @ [CHR 0x0A]) c) = Running"
proof -
  let ?c = "start_relay demo_platform demo_launch demo_preferences demo_all new_controller"
  have "validate demo_platform demo_all demo_preferences = Fine" by (rule two_interfaces_valid(1)) simp_all
  then have c: "current ?c = Authorizing" "listening ?c" "\<not> socket ?c" "pending ?c = []"
    by (simp_all add: start_relay_def busy_def new_controller_def demo_launch_def Let_def)
  have "control_reaches ?c" by (rule control_next [OF control_new control_step.start])
  moreover have "current (new_connection True (''Relay started (PID 7)'' @ [CHR 0x0A]) ?c) = Running"
    using c by (simp add: new_connection_def receive_def Let_def receive_lines.simps on_line_def starts_with_def trimmed_def is_space_def)
  ultimately show ?thesis using c by blast
qed

text \<open>
  C20.  The application reports a running relay only on the word of a root helper.  In every session, in every state the
  controller reaches, it is in the running state only while it is connected to a peer that the kernel identified as root
  and that announced the relay; a connection of a peer that is not root changes nothing, and where a step connects the
  controller it is the connection of a root peer and not of any other; once the user has stopped the relay it
  stays stopping until the process has ended; and when it is idle nothing is left open.
\<close>

theorem relay_runs_under_root:
  assumes "control_reaches c" "control_step c c'"
  shows "(current c' = Running \<longrightarrow> socket c' \<and> ready c') \<and>
    (\<forall>bytes. new_connection False bytes c = c) \<and>
    (\<not> socket c \<and> socket c' \<longrightarrow> (\<exists>bytes. c' = new_connection True bytes c) \<and> (\<forall>bytes. c' \<noteq> new_connection False bytes c)) \<and>
    (current c = Stopping \<longrightarrow> current c' = Stopping \<or> current c' = Idle) \<and>
    (\<not> busy c' \<longrightarrow> \<not> socket c' \<and> \<not> listening c' \<and> \<not> timer c')"
proof -
  have "control_ok c'" using control_reaches_ok [OF control_next [OF assms]] .
  then show ?thesis using control_step_socket [OF assms(2)] control_step_stopping [OF assms(2)]
    by (auto simp: control_ok_def busy_def new_connection_def)
qed

theorem relay_runs_under_root_witness:
  "\<exists>c. control_reaches c \<and> current c = Running \<and> socket c \<and> ready c"
proof -
  obtain c where c: "control_reaches c" "listening c" "\<not> socket c" "pending c = []"
    "current (new_connection True (''Relay started (PID 7)'' @ [CHR 0x0A]) c) = Running" using demo_session by blast
  let ?c = "new_connection True (''Relay started (PID 7)'' @ [CHR 0x0A]) c"
  have step: "control_step c ?c" using c(2) by (rule control_step.connection)
  then show ?thesis using relay_runs_under_root [OF c(1) step] control_next [OF c(1) step] c(5) by blast
qed

end
