(* ===== verification/Rpc_Codec.thy ===== *)
theory Rpc_Codec
  imports Sha1 Init
begin

text \<open>
  The encodings of the remote control: \<^verbatim>\<open>src/rpc/base64.hpp\<close>, the line splitter \<^verbatim>\<open>src/rpc/read-line.hpp\<close> and the chunked
  buffer \<^verbatim>\<open>src/rpc/buffer-list.hpp\<close>.  A \<^verbatim>\<open>std::string\<close> is the list of its bytes; \<open>text_bytes\<close> gives those of a literal.
  \<^term>\<open>None\<close> is an access outside of its object, or an exception that nobody catches.
\<close>

section \<open>Base64\<close>

definition base64_chars :: "byte list" where
  "base64_chars = text_bytes ''ABCDEFGHIJKLMNOPQRSTUVWXYZabcdefghijklmnopqrstuvwxyz0123456789+/''"

definition is_base64 :: "byte \<Rightarrow> bool" where
  "is_base64 c \<longleftrightarrow> 48 \<le> c \<and> c \<le> 57 \<or> 65 \<le> c \<and> c \<le> 90 \<or> 97 \<le> c \<and> c \<le> 122 \<or> c = 43 \<or> c = 47"

text \<open>The four sextets of three bytes, and the three bytes of four sextets.\<close>

definition char_array_4 :: "byte \<Rightarrow> byte \<Rightarrow> byte \<Rightarrow> byte list" where
  "char_array_4 a b c =
     [drop_bit 2 (a AND 0xfc), push_bit 4 (a AND 0x03) + drop_bit 4 (b AND 0xf0),
      push_bit 2 (b AND 0x0f) + drop_bit 6 (c AND 0xc0), c AND 0x3f]"

definition char_array_3 :: "byte \<Rightarrow> byte \<Rightarrow> byte \<Rightarrow> byte \<Rightarrow> byte list" where
  "char_array_3 a b c d =
     [push_bit 2 a + drop_bit 4 (b AND 0x30), push_bit 4 (b AND 0xf) + drop_bit 2 (c AND 0x3c), push_bit 6 (c AND 0x3) + d]"

definition b64 :: "byte \<Rightarrow> byte" where
  "b64 s = base64_chars ! unat s"

fun base64_encode :: "byte list \<Rightarrow> byte list" where
  "base64_encode (a # b # c # bs) = map b64 (char_array_4 a b c) @ base64_encode bs"
| "base64_encode [a, b] = map b64 (take 3 (char_array_4 a b 0)) @ [61]"
| "base64_encode [a] = map b64 (take 2 (char_array_4 a 0 0)) @ [61, 61]"
| "base64_encode [] = []"

text \<open>\<^verbatim>\<open>base64_chars.find(c) & 0xff\<close>; it is only asked for characters of the alphabet.\<close>

definition b64_index :: "byte \<Rightarrow> byte" where
  "b64_index c = word_of_nat (length (takeWhile (\<lambda>x. x \<noteq> c) base64_chars))"

fun decode_groups :: "byte list \<Rightarrow> byte list" where
  "decode_groups (a # b # c # d # cs) = char_array_3 (b64_index a) (b64_index b) (b64_index c) (b64_index d) @ decode_groups cs"
| "decode_groups [a, b, c] = take 2 (char_array_3 (b64_index a) (b64_index b) (b64_index c) 0)"
| "decode_groups [a, b] = take 1 (char_array_3 (b64_index a) (b64_index b) 0 0)"
| "decode_groups _ = []"

definition base64_decode :: "byte list \<Rightarrow> byte list" where
  "base64_decode s = decode_groups (takeWhile (\<lambda>c. c \<noteq> 61 \<and> is_base64 c) s)"

section \<open>Lines\<close>

text \<open>
  \<^verbatim>\<open>ReadLine::feed\<close>: the buffer and the state that the callback changes.  \<^verbatim>\<open>line[len - 1]\<close> of an empty line is outside of
  the string.
\<close>

function feed_lines :: "(byte list \<Rightarrow> 's \<Rightarrow> 's option) \<Rightarrow> byte list \<Rightarrow> 's \<Rightarrow> (byte list \<times> 's) option" where
  "feed_lines callback buffer st =
     (if 10 \<in> set buffer
      then (let line = takeWhile (\<lambda>x. x \<noteq> 10) buffer; rest = tl (dropWhile (\<lambda>x. x \<noteq> 10) buffer)
            in if line = [] then None
               else Option.bind (callback (if last line = 13 then butlast line else line) st) (feed_lines callback rest))
      else Some (buffer, st))"
  by pat_completeness auto
termination
proof (relation "measure (\<lambda>(callback, buffer, st). length buffer)")
  fix callback :: "byte list \<Rightarrow> 's \<Rightarrow> 's option" and buffer line rest :: "byte list" and st s' :: 's
  assume "10 \<in> set buffer" "rest = tl (dropWhile (\<lambda>x. x \<noteq> 10) buffer)"
  then show "((callback, rest, s'), callback, buffer, st) \<in> measure (\<lambda>(callback, buffer, st). length buffer)"
    using length_dropWhile_le [of "\<lambda>x. x \<noteq> 10" buffer] by (cases buffer) (auto simp: less_Suc_eq_le)
qed simp

declare feed_lines.simps [simp del]

definition readline_feed :: "(byte list \<Rightarrow> 's \<Rightarrow> 's option) \<Rightarrow> byte list \<Rightarrow> byte list \<times> 's \<Rightarrow> (byte list \<times> 's) option" where
  "readline_feed callback data st = feed_lines callback (fst st @ data) (snd st)"

section \<open>The chunked buffer\<close>

record buffer_list =
  bl_list :: "byte list list"
  bl_total :: nat
  bl_offset :: nat

definition bl_new :: buffer_list where
  "bl_new = \<lparr>bl_list = [], bl_total = 0, bl_offset = 0\<rparr>"

definition bl_size :: "buffer_list \<Rightarrow> nat" where
  "bl_size b = bl_total b - bl_offset b"

definition bl_add :: "byte list \<Rightarrow> buffer_list \<Rightarrow> buffer_list" where
  "bl_add d b = b\<lparr>bl_list := bl_list b @ [d], bl_total := bl_total b + length d\<rparr>"

text \<open>The loop of \<^verbatim>\<open>get\<close>: the comparison is \<^verbatim>\<open>left + len >= actId\<close>, so the byte behind a chunk is taken from that chunk.\<close>

fun bl_find :: "nat \<Rightarrow> nat \<Rightarrow> byte list list \<Rightarrow> byte option" where
  "bl_find left act [] = None"
| "bl_find left act (d # ds) = (if left + length d \<ge> act then read8 d (act - left) else bl_find (left + length d) act ds)"

definition bl_get :: "nat \<Rightarrow> buffer_list \<Rightarrow> byte option" where
  "bl_get k b = bl_find 0 (k + bl_offset b) (bl_list b)"

text \<open>
  The loop of \<^verbatim>\<open>advance\<close> reads \<^verbatim>\<open>sizeList[0]\<close> also when the last chunk has been removed, an access outside of the empty vector.
\<close>

fun bl_trim :: "nat \<Rightarrow> byte list list \<Rightarrow> nat \<Rightarrow> (byte list list \<times> nat \<times> nat) option" where
  "bl_trim tot [] off = None"
| "bl_trim tot (d # ds) off = (if off \<ge> length d then bl_trim (tot - length d) ds (off - length d) else Some (d # ds, tot, off))"

definition bl_advance :: "nat \<Rightarrow> buffer_list \<Rightarrow> buffer_list option" where
  "bl_advance n b =
     map_option (\<lambda>(ds, tot, off). \<lparr>bl_list = ds, bl_total = tot, bl_offset = off\<rparr>) (bl_trim (bl_total b) (bl_list b) (bl_offset b + n))"

fun bl_copyTo :: "nat \<Rightarrow> nat \<Rightarrow> buffer_list \<Rightarrow> byte list option" where
  "bl_copyTo k 0 b = Some []"
| "bl_copyTo k (Suc n) b = do { x \<leftarrow> bl_get k b; xs \<leftarrow> bl_copyTo (Suc k) n b; Some (x # xs) }"

section \<open>Lemmas\<close>

lemma base64_chars_codes:
  "base64_chars = [65, 66, 67, 68, 69, 70, 71, 72, 73, 74, 75, 76, 77, 78, 79, 80, 81, 82, 83, 84, 85, 86, 87, 88, 89, 90,
     97, 98, 99, 100, 101, 102, 103, 104, 105, 106, 107, 108, 109, 110, 111, 112, 113, 114, 115, 116, 117, 118, 119, 120, 121, 122,
     48, 49, 50, 51, 52, 53, 54, 55, 56, 57, 43, 47]"
  by (simp add: base64_chars_def text_bytes_def)

lemma base64_chars_facts: "length base64_chars = 64" "distinct base64_chars" "\<forall>c \<in> set base64_chars. c \<noteq> 61 \<and> is_base64 c"
  by (simp_all add: base64_chars_codes is_base64_def)

lemma takeWhile_distinct: "distinct xs \<Longrightarrow> i < length xs \<Longrightarrow> takeWhile (\<lambda>x. x \<noteq> xs ! i) xs = take i xs"
  by (rule takeWhile_eq_take_P_nth) (auto simp: nth_eq_iff_index_eq)

lemma b64_index_b64: "s < 64 \<Longrightarrow> b64_index (b64 s) = s"
proof -
  assume "s < 64"
  then have "unat s < 64" by (simp add: word_less_nat_alt)
  then show ?thesis using takeWhile_distinct [OF base64_chars_facts(2), of "unat s"] base64_chars_facts(1)
    by (simp add: b64_index_def b64_def)
qed

lemma b64_alphabet: "s < 64 \<Longrightarrow> b64 s \<noteq> 61 \<and> is_base64 (b64 s)"
proof -
  assume "s < 64"
  then have "base64_chars ! unat s \<in> set base64_chars" by (intro nth_mem) (simp add: word_less_nat_alt base64_chars_facts)
  then show ?thesis using base64_chars_facts(3) by (simp add: b64_def)
qed

text \<open>Bytes as bits: the value of a field, and of two fields side by side.\<close>

lemma unat_field: "unat (drop_bit k (a AND push_bit k (mask n)) :: byte) = unat a div 2 ^ k mod 2 ^ n"
proof -
  have "drop_bit k (a AND push_bit k (mask n)) = take_bit n (drop_bit k a)"
    by (rule bit_word_eqI) (auto simp: bit_simps dest: bit_imp_le_length)
  moreover have "take_bit 8 (unat a) = unat a" by (simp add: take_bit_nat_eq_self)
  ultimately have "unat (drop_bit k (a AND push_bit k (mask n))) = take_bit n (drop_bit k (unat a))"
    by (simp only: unsigned_take_bit_eq unsigned_drop_bit_eq) simp
  then show ?thesis by (simp only: take_bit_eq_mod drop_bit_eq_div)
qed

lemma unat_fields:
  fixes a :: byte
  shows "unat (drop_bit 2 (a AND 0xfc)) = unat a div 4" "unat (a AND 0x03) = unat a mod 4" "unat (drop_bit 4 (a AND 0xf0)) = unat a div 16"
    "unat (a AND 0x0f) = unat a mod 16" "unat (drop_bit 6 (a AND 0xc0)) = unat a div 64" "unat (a AND 0x3f) = unat a mod 64"
    "unat (drop_bit 4 (a AND 0x30)) = unat a div 16 mod 4" "unat (drop_bit 2 (a AND 0x3c)) = unat a div 4 mod 16"
proof -
  have masks: "(0xfc :: byte) = push_bit 2 (mask 6)" "(0x03 :: byte) = push_bit 0 (mask 2)" "(0xf0 :: byte) = push_bit 4 (mask 4)"
    "(0x0f :: byte) = push_bit 0 (mask 4)" "(0xc0 :: byte) = push_bit 6 (mask 2)" "(0x3f :: byte) = push_bit 0 (mask 6)"
    "(0x30 :: byte) = push_bit 4 (mask 2)" "(0x3c :: byte) = push_bit 2 (mask 4)"
    by (simp_all add: mask_eq_exp_minus_1 push_bit_eq_mult)
  have lt: "unat a div 4 < 64" "unat a div 16 < 16" "unat a div 64 < 4"
    using unat_byte_less [of a] by (simp_all add: div_less_iff_less_mult)
  note f = unat_field [of _ a]
  show "unat (drop_bit 2 (a AND 0xfc)) = unat a div 4" using f [of 2 6] lt(1) unfolding masks(1) [symmetric] by simp
  show "unat (a AND 0x03) = unat a mod 4" using f [of 0 2] unfolding masks(2) [symmetric] by simp
  show "unat (drop_bit 4 (a AND 0xf0)) = unat a div 16" using f [of 4 4] lt(2) unfolding masks(3) [symmetric] by simp
  show "unat (a AND 0x0f) = unat a mod 16" using f [of 0 4] unfolding masks(4) [symmetric] by simp
  show "unat (drop_bit 6 (a AND 0xc0)) = unat a div 64" using f [of 6 2] lt(3) unfolding masks(5) [symmetric] by simp
  show "unat (a AND 0x3f) = unat a mod 64" using f [of 0 6] unfolding masks(6) [symmetric] by simp
  show "unat (drop_bit 4 (a AND 0x30)) = unat a div 16 mod 4" using f [of 4 2] unfolding masks(7) [symmetric] by simp
  show "unat (drop_bit 2 (a AND 0x3c)) = unat a div 4 mod 16" using f [of 2 4] unfolding masks(8) [symmetric] by simp
qed

lemma unat_push_add:
  fixes x y :: byte
  assumes "unat x * 2 ^ n + unat y < 256"
  shows "unat (push_bit n x + y) = unat x * 2 ^ n + unat y"
proof -
  have "push_bit n x + y = word_of_nat (unat x * 2 ^ n + unat y)" by (simp add: push_bit_eq_mult)
  then show ?thesis using assms by (simp only: unat_of_nat) simp
qed

lemma sextets:
  "unat (drop_bit 2 (a AND 0xfc) :: byte) = unat a div 4"
  "unat (push_bit 4 (a AND 0x03) + drop_bit 4 (b AND 0xf0) :: byte) = unat a mod 4 * 16 + unat b div 16"
  "unat (push_bit 2 (b AND 0x0f) + drop_bit 6 (c AND 0xc0) :: byte) = unat b mod 16 * 4 + unat c div 64"
  "unat (c AND 0x3f :: byte) = unat c mod 64"
proof -
  have lt: "unat x div 16 < 16" "unat x div 64 < 4" for x :: byte
    using unat_byte_less [of x] by (simp_all add: div_less_iff_less_mult)
  have m: "unat x mod 4 < 4" "unat x mod 16 < 16" for x :: byte by simp_all
  have "unat (a AND 0x03) * 2 ^ 4 + unat (drop_bit 4 (b AND 0xf0)) < 256"
    unfolding unat_fields using lt(1) [of b] m(1) [of a] by simp
  from unat_push_add [OF this]
  show "unat (push_bit 4 (a AND 0x03) + drop_bit 4 (b AND 0xf0) :: byte) = unat a mod 4 * 16 + unat b div 16"
    unfolding unat_fields by simp
  have "unat (b AND 0x0f) * 2 ^ 2 + unat (drop_bit 6 (c AND 0xc0)) < 256"
    unfolding unat_fields using lt(2) [of c] m(2) [of b] by simp
  from unat_push_add [OF this]
  show "unat (push_bit 2 (b AND 0x0f) + drop_bit 6 (c AND 0xc0) :: byte) = unat b mod 16 * 4 + unat c div 64"
    unfolding unat_fields by simp
qed (simp_all only: unat_fields)

lemma sextets_below: "\<forall>s \<in> set (char_array_4 a b c). s < 64"
proof -
  have "unat a div 4 < 64" "unat b div 16 < 16" "unat c div 64 < 4" "unat a mod 4 < 4" "unat b mod 16 < 16" "unat c mod 64 < 64"
    using unat_byte_less [of a] unat_byte_less [of b] unat_byte_less [of c] by (simp_all add: div_less_iff_less_mult)
  then have "unat a mod 4 * 16 + unat b div 16 < 64" "unat b mod 16 * 4 + unat c div 64 < 64" by linarith+
  then show ?thesis using \<open>unat a div 4 < 64\<close> \<open>unat c mod 64 < 64\<close>
    by (simp only: char_array_4_def list.set ball_simps word_less_nat_alt sextets) simp
qed

lemma unat_eqI: "unat x = unat y \<Longrightarrow> x = y" for x y :: byte
  by (rule word_unat_eq_iff [THEN iffD2])

lemma char_array_inverse:
  assumes "char_array_4 a b c = [w, x, y, z]"
  shows "char_array_3 w x y z = [a, b, c]"
proof -
  have u: "unat w = unat a div 4" "unat x = unat a mod 4 * 16 + unat b div 16" "unat y = unat b mod 16 * 4 + unat c div 64"
    "unat z = unat c mod 64" using assms unfolding char_array_4_def list.inject by (auto simp only: sextets)
  have lt: "unat b div 16 < 16" "unat c div 64 < 4" using unat_byte_less [of b] unat_byte_less [of c] by (simp_all add: div_less_iff_less_mult)
  have f: "unat x div 16 mod 4 = unat a mod 4" "unat x mod 16 = unat b div 16" "unat y div 4 mod 16 = unat b mod 16" "unat y mod 4 = unat c div 64"
    using lt by (simp_all add: u)
  have "unat w * 2 ^ 2 + unat (drop_bit 4 (x AND 0x30)) = unat a" unfolding unat_fields f u(1) by simp
  then have 1: "push_bit 2 w + drop_bit 4 (x AND 0x30) = a" using unat_push_add [of w 2] by (intro unat_eqI) simp
  have "unat (x AND 0xf) * 2 ^ 4 + unat (drop_bit 2 (y AND 0x3c)) = unat b" unfolding unat_fields f by simp
  then have 2: "push_bit 4 (x AND 0xf) + drop_bit 2 (y AND 0x3c) = b" using unat_push_add [of "x AND 0xf" 4] by (intro unat_eqI) simp
  have "unat (y AND 0x3) * 2 ^ 6 + unat z = unat c" unfolding unat_fields f u(4) by simp
  then have 3: "push_bit 6 (y AND 0x3) + z = c" using unat_push_add [of "y AND 0x3" 6 z] by (intro unat_eqI) simp
  show ?thesis unfolding char_array_3_def 1 2 3 ..
qed

lemma takeWhile_b64:
  "\<forall>s \<in> set ss. s < 64 \<Longrightarrow> takeWhile (\<lambda>c. c \<noteq> 61 \<and> is_base64 c) (map b64 ss @ r) =
   map b64 ss @ takeWhile (\<lambda>c. c \<noteq> 61 \<and> is_base64 c) r"
  by (induction ss) (simp_all add: b64_alphabet)

lemma base64_inverse: "base64_decode (base64_encode bs) = bs"
proof (induction bs rule: base64_encode.induct)
  case (1 a b c bs)
  obtain w x y z where q: "char_array_4 a b c = [w, x, y, z]" by (simp add: char_array_4_def)
  have lt: "w < 64" "x < 64" "y < 64" "z < 64" using sextets_below [of a b c] by (simp_all add: q)
  have "base64_decode (base64_encode (a # b # c # bs)) = char_array_3 w x y z @ base64_decode (base64_encode bs)"
    using takeWhile_b64 [of "[w, x, y, z]" "base64_encode bs"] lt by (simp add: base64_decode_def q b64_index_b64)
  then show ?case using 1 char_array_inverse [OF q] by simp
next
  case (2 a b)
  obtain w x y z where q: "char_array_4 a b 0 = [w, x, y, z]" by (simp add: char_array_4_def)
  have z: "z = 0" using q by (auto simp: char_array_4_def)
  have lt: "w < 64" "x < 64" "y < 64" using sextets_below [of a b 0] by (simp_all add: q)
  have "base64_decode (base64_encode [a, b]) = take 2 (char_array_3 w x y 0)"
    using takeWhile_b64 [of "[w, x, y]" "[61]"] lt by (simp add: base64_decode_def q b64_index_b64)
  then show ?case using char_array_inverse [OF q] by (simp add: z)
next
  case (3 a)
  obtain w x y z where q: "char_array_4 a 0 0 = [w, x, y, z]" by (simp add: char_array_4_def)
  have z: "z = 0" "y = 0" using q by (auto simp: char_array_4_def)
  have lt: "w < 64" "x < 64" using sextets_below [of a 0 0] by (simp_all add: q)
  have "base64_decode (base64_encode [a]) = take 1 (char_array_3 w x 0 0)"
    using takeWhile_b64 [of "[w, x]" "[61, 61]"] lt by (simp add: base64_decode_def q b64_index_b64)
  then show ?case using char_array_inverse [OF q] by (simp add: z)
qed (simp add: base64_decode_def)

lemma base64_length: "length (base64_encode bs) = 4 * ((length bs + 2) div 3)"
proof (induction bs rule: base64_encode.induct)
  case (1 a b c bs)
  have "(length (a # b # c # bs) + 2) div 3 = Suc ((length bs + 2) div 3)" by simp
  then show ?case using 1 by (simp only: base64_encode.simps length_append length_map) (simp add: char_array_4_def)
qed (simp_all add: char_array_4_def)

lemma cut_line:
  assumes "(10 :: byte) \<notin> set l"
  shows "takeWhile (\<lambda>x. x \<noteq> 10) (l @ 10 # r) = l" "tl (dropWhile (\<lambda>x. x \<noteq> 10) (l @ 10 # r)) = r"
  using assms by (auto simp: takeWhile_append dropWhile_append)

lemma feed_lines_line:
  assumes "10 \<notin> set l"
  shows "feed_lines cb (l @ 10 # r) st =
    (if l = [] then None else Option.bind (cb (if last l = 13 then butlast l else l) st) (feed_lines cb r))"
  using cut_line [OF assms, of r] by (subst feed_lines.simps) (simp add: Let_def)

lemma feed_lines_none: "10 \<notin> set p \<Longrightarrow> feed_lines cb p st = Some (p, st)"
  by (subst feed_lines.simps) simp

lemma feed_lines_append:
  "feed_lines cb (p @ b) st = Option.bind (feed_lines cb p st) (\<lambda>(r, s). feed_lines cb (r @ b) s)"
proof (induction "length p" arbitrary: p st rule: less_induct)
  case less
  show ?case
  proof (cases "10 \<in> set p")
    case True
    then obtain l r where p: "p = l @ 10 # r" "10 \<notin> set l" by (metis split_list_first)
    have "feed_lines cb (r @ b) s = Option.bind (feed_lines cb r s) (\<lambda>(r, s). feed_lines cb (r @ b) s)" for s
      using less [of r s] by (simp add: p(1))
    then show ?thesis using feed_lines_line [OF p(2), of cb r st] feed_lines_line [OF p(2), of cb "r @ b" st]
      by (cases "cb (if last l = 13 then butlast l else l) st") (simp_all add: p(1))
  next
    case False
    then show ?thesis by (simp add: feed_lines_none)
  qed
qed

text \<open>The buffer with one chunk, as it is when a frame arrives in one read.\<close>

definition bl_one :: "byte list \<Rightarrow> nat \<Rightarrow> buffer_list" where
  "bl_one d off = \<lparr>bl_list = [d], bl_total = length d, bl_offset = off\<rparr>"

lemma bl_one_get: "off + k < length d \<Longrightarrow> bl_get k (bl_one d off) = Some (d ! (off + k))"
  by (simp add: bl_one_def bl_get_def read8_def add.commute)

lemma bl_one_size [simp]: "bl_size (bl_one d off) = length d - off"
  by (simp add: bl_one_def bl_size_def)

lemma bl_one_advance: "bl_advance n (bl_one d off) = (if off + n < length d then Some (bl_one d (off + n)) else None)"
  by (simp add: bl_one_def bl_advance_def)

lemma bl_one_copyTo: "off + k + n \<le> length d \<Longrightarrow> bl_copyTo k n (bl_one d off) = Some (take n (drop (off + k) d))"
proof (induction n arbitrary: k)
  case (Suc n)
  then have "drop (off + k) d = d ! (off + k) # drop (off + Suc k) d" by (simp add: Cons_nth_drop_Suc)
  then show ?case using Suc.IH [of "Suc k"] Suc.prems bl_one_get [of off k d] by simp
qed simp

section \<open>Properties\<close>

text \<open>
  C38.  Base64 is decoded to what was encoded, for every byte string, and the encoded text has four characters for every
  three bytes or part of three.
\<close>

theorem base64_round_trip:
  "base64_decode (base64_encode bs) = bs \<and> length (base64_encode bs) = 4 * ((length bs + 2) div 3)"
  by (simp add: base64_inverse base64_length)

text \<open>
  The lines of a connection do not depend on how TCP cuts the stream: feeding two pieces one after the other has the
  same effect as feeding them at once, whatever the callback does.
\<close>

theorem readline_chunking:
  "readline_feed cb (a @ b) st = Option.bind (readline_feed cb a st) (readline_feed cb b)"
  using feed_lines_append [of cb "fst st @ a" b "snd st"] by (simp add: readline_feed_def [abs_def] split_def)

text \<open>
  The byte behind a chunk is read outside of it.  When the data of a frame arrives in two reads, the first byte of
  the second read is looked up behind the end of the first one.
\<close>

theorem buffer_overreads_boundary:
  assumes "bl_list b = d # ds" "bl_offset b \<le> length d"
  shows "bl_get (length d - bl_offset b) b = None"
  using assms by (simp add: bl_get_def read8_def)

theorem buffer_overreads_boundary_witness:
  "bl_get 2 (bl_add [7, 8] (bl_add [5, 6] bl_new)) = None"
  using buffer_overreads_boundary [of "bl_add [7, 8] (bl_add [5, 6] bl_new)" "[5, 6]" "[[7, 8]]"]
  by (simp add: bl_add_def bl_new_def numeral_2_eq_2)

text \<open>Taking everything out of the buffer, as the end of a frame at the end of a read does, looks at the size of a chunk that is gone.\<close>

theorem buffer_emptied_faults:
  "bl_advance n b = None \<longleftrightarrow> sum_list (map length (bl_list b)) \<le> bl_offset b + n"
proof -
  have "bl_trim tot ds off = None \<longleftrightarrow> sum_list (map length ds) \<le> off" for tot ds off
    by (induction ds arbitrary: tot off) auto
  then show ?thesis by (simp add: bl_advance_def)
qed

end
