(* ===== verification/Rpc_Server.thy ===== *)
theory Rpc_Server
  imports Rpc_Codec Example "HOL-Library.Sublist"
begin

text \<open>
  The remote control of the relay: \<^verbatim>\<open>LanPlay\<close> of \<^verbatim>\<open>src/rpc/lan-play.cpp\<close>, the commands of \<^verbatim>\<open>src/rpc/rpc-server.cpp\<close> and
  the line protocol of \<^verbatim>\<open>src/rpc/rpc-tcp-server.hpp\<close>.  Starting and stopping the relay are \<open>lan_play_init\<close> and
  \<open>lan_play_close\<close>; the texts of their errors, the state that a failed start leaves behind, the list of interfaces and the
  clock are arguments.  The result \<^term>\<open>None\<close>
  of a command is the end of the process by an exception that nobody catches.
\<close>

section \<open>Printing\<close>

function stringReplace :: "byte list \<Rightarrow> byte list \<Rightarrow> byte list \<Rightarrow> byte list" where
  "stringReplace src dst str =
     (if str = [] \<or> src = [] then str
      else if take (length src) str = src then dst @ stringReplace src dst (drop (length src) str)
      else hd str # stringReplace src dst (tl str))"
  by pat_completeness auto
termination by (relation "measure (\<lambda>(src, dst, str). length str)") auto

declare stringReplace.simps [simp del]

abbreviation (input) QUOTE :: byte where "QUOTE \<equiv> 34"
abbreviation (input) BACKSLASH :: byte where "BACKSLASH \<equiv> 92"
abbreviation (input) NEWLINE :: byte where "NEWLINE \<equiv> 10"

definition rpc_escape :: "byte list \<Rightarrow> byte list" where
  "rpc_escape v = [QUOTE] @ stringReplace [QUOTE] [BACKSLASH, QUOTE] v @ [QUOTE]"

definition kv :: "string \<Rightarrow> byte list \<Rightarrow> byte list" where
  "kv k v = text_bytes k @ text_bytes ''='' @ rpc_escape v @ [NEWLINE]"

definition kv_bool :: "string \<Rightarrow> bool \<Rightarrow> byte list" where
  "kv_bool k v = text_bytes k @ text_bytes (if v then ''=true'' else ''=false'') @ [NEWLINE]"

definition show_int :: "int \<Rightarrow> string" where
  "show_int i = (if i < 0 then ''-'' @ show_nat (nat (- i)) else show_nat (nat i))"

definition kv_int :: "string \<Rightarrow> int \<Rightarrow> byte list" where
  "kv_int k v = text_bytes k @ text_bytes ''='' @ text_bytes (show_int v) @ [NEWLINE]"

definition kv_u64 :: "string \<Rightarrow> u64 \<Rightarrow> byte list" where
  "kv_u64 k v = text_bytes k @ text_bytes ''='' @ text_bytes (show_nat (unat v)) @ [NEWLINE]"

definition rpc_error :: "byte list \<Rightarrow> byte list" where
  "rpc_error v = kv ''error'' v"

section \<open>The relay as an object\<close>

datatype lanplay_status = StatusNone | StatusRunning

record lanplay_config =
  relayServer :: "byte list"
  socks5Server :: "byte list"
  cfg_fakeInternet :: bool
  cfg_broadcast :: bool
  cfg_pmtu :: int

definition new_config :: lanplay_config where
  "new_config = \<lparr>relayServer = [], socks5Server = [], cfg_fakeInternet = False, cfg_broadcast = False, cfg_pmtu = 0\<rparr>"

record net_interface =
  ni_name :: "byte list"
  ni_description :: "byte list"
  ni_ips :: "byte list list"

text \<open>The object with the relay it controls and the environment, which holds the global options.\<close>

record lanplay =
  lp_config :: lanplay_config
  lp_lastConfig :: lanplay_config
  lp_status :: lanplay_status
  lp_lastError :: "byte list"
  lp_env :: env
  lp_relay :: lan_play

definition new_lanplay :: "env \<Rightarrow> lan_play \<Rightarrow> lanplay" where
  "new_lanplay e lp = \<lparr>lp_config = new_config, lp_lastConfig = new_config, lp_status = StatusNone, lp_lastError = [],
     lp_env = e, lp_relay = lp\<rparr>"

definition bytes_text :: "byte list \<Rightarrow> string" where
  "bytes_text bs = map (\<lambda>b. char_of (unat b)) bs"

text \<open>\<^verbatim>\<open>options_relay_server_addr\<close> and its like copy a C string, up to its first NUL, and keep \<^verbatim>\<open>NULL\<close> for an empty one.\<close>

definition option_text :: "byte list \<Rightarrow> string option" where
  "option_text s = (let t = takeWhile (\<lambda>c. c \<noteq> 0) s in if t = [] then None else Some (bytes_text t))"

definition applyConfig :: "lanplay \<Rightarrow> lanplay" where
  "applyConfig l =
     (let c = lp_config l; e = lp_env l; o1 = options e
      in l\<lparr>lp_env := e\<lparr>options := o1\<lparr>opt_broadcast := cfg_broadcast c, fake_internet := cfg_fakeInternet c, opt_pmtu := cfg_pmtu c,
             relay_server_addr := option_text (relayServer c), socks5_server_addr := option_text (socks5Server c)\<rparr>\<rparr>,
           lp_lastConfig := c\<rparr>)"

text \<open>What the commands ask the world.\<close>

record rpc_calls =
  rc_init :: init_calls
  rc_error_text :: "init_error \<Rightarrow> byte list"
  rc_half_started :: lan_play
  rc_client_close :: int
  rc_gateway_close :: int
  rc_close_text :: "byte list"
  rc_interfaces :: "byte list + net_interface list"
  rc_time :: u64
  rc_version :: "byte list"

definition lanplay_start :: "rpc_calls \<Rightarrow> lanplay \<Rightarrow> int \<times> lanplay" where
  "lanplay_start w l =
     (if lp_status l = StatusRunning then (-1, l\<lparr>lp_lastError := text_bytes ''Already running''\<rparr>)
      else let l = applyConfig l
           in case lan_play_init (lp_env l) (rc_init w) (lp_relay l) of
                Inr lp \<Rightarrow> (0, l\<lparr>lp_relay := lp, lp_status := StatusRunning\<rparr>)
              | Inl err \<Rightarrow> (-1, l\<lparr>lp_relay := rc_half_started w, lp_lastError := rc_error_text w err\<rparr>))"

definition lanplay_stop :: "rpc_calls \<Rightarrow> lanplay \<Rightarrow> int \<times> lanplay" where
  "lanplay_stop w l =
     (if lp_status l = StatusNone then (-1, l\<lparr>lp_lastError := text_bytes ''Already stopped''\<rparr>)
      else let (_, ret, lp) = lan_play_close (lp_env l) (rc_client_close w) (rc_gateway_close w) (lp_relay l);
               l = l\<lparr>lp_relay := lp\<rparr>
           in if ret = 0 then (ret, l\<lparr>lp_status := StatusNone\<rparr>) else (ret, l\<lparr>lp_lastError := rc_close_text w\<rparr>))"

section \<open>Commands\<close>

definition getConfig :: "string \<Rightarrow> lanplay_config \<Rightarrow> byte list" where
  "getConfig pre c =
     text_bytes ''['' @ text_bytes pre @ text_bytes '']'' @ [NEWLINE] @ kv ''relayServer'' (relayServer c) @
     kv ''socks5Server'' (socks5Server c) @ kv_int ''pmtu'' (cfg_pmtu c) @ kv_bool ''fakeInternet'' (cfg_fakeInternet c) @
     kv_bool ''broadcast'' (cfg_broadcast c)"

definition getStats :: "rpc_calls \<Rightarrow> lanplay \<Rightarrow> byte list" where
  "getStats w l =
     (let c = client (lp_relay l); p = ctx (lp_relay l)
      in text_bytes ''[stats]'' @ [NEWLINE] @ kv_u64 ''time'' (rc_time w) @
         text_bytes ''[stats.client]'' @ [NEWLINE] @ kv_u64 ''downloadByte'' (lc_download_byte c) @
         kv_u64 ''downloadPacket'' (lc_download_packet c) @ kv_u64 ''uploadByte'' (lc_upload_byte c) @
         kv_u64 ''uploadPacket'' (lc_upload_packet c) @
         text_bytes ''[stats.packet]'' @ [NEWLINE] @ kv_u64 ''downloadByte'' (download_byte p) @
         kv_u64 ''downloadPacket'' (download_packet p) @ kv_u64 ''uploadByte'' (upload_byte p) @
         kv_u64 ''uploadPacket'' (upload_packet p))"

definition list_interface :: "net_interface \<Rightarrow> byte list" where
  "list_interface i =
     text_bytes ''[[interfaces]]'' @ [NEWLINE] @ kv ''name'' (ni_name i) @ kv ''description'' (ni_description i) @
     text_bytes ''ips=['' @ [NEWLINE] @ concat (map (\<lambda>ip. text_bytes ''  '' @ rpc_escape ip @ text_bytes '','' @ [NEWLINE]) (ni_ips i)) @
     text_bytes '']'' @ [NEWLINE]"

text \<open>
  \<^verbatim>\<open>std::stoi(s, nullptr, 0)\<close>: white space, a sign, and digits in base 8, 10 or 16 by their prefix; no digit raises
  \<^verbatim>\<open>invalid_argument\<close>, a value that is no \<^verbatim>\<open>int\<close> raises \<^verbatim>\<open>out_of_range\<close>.
\<close>

datatype stoi_result = StoiInt int | InvalidArgument | OutOfRange

definition digit_of :: "byte \<Rightarrow> nat option" where
  "digit_of c =
     (if 48 \<le> c \<and> c \<le> 57 then Some (unat c - 48) else if 97 \<le> c \<and> c \<le> 122 then Some (unat c - 87)
      else if 65 \<le> c \<and> c \<le> 90 then Some (unat c - 55) else None)"

definition is_digit_in :: "nat \<Rightarrow> byte \<Rightarrow> bool" where
  "is_digit_in base c = (case digit_of c of None \<Rightarrow> False | Some d \<Rightarrow> d < base)"

definition digits_value :: "nat \<Rightarrow> byte list \<Rightarrow> int" where
  "digits_value base ds = foldl (\<lambda>a c. int base * a + int (the (digit_of c))) 0 ds"

definition stoi0 :: "byte list \<Rightarrow> stoi_result" where
  "stoi0 s =
     (let t = dropWhile (\<lambda>c. c \<in> set [32, 9, 10, 11, 12, 13]) s;
          (neg, u) = (case t of c # r \<Rightarrow> if c = 45 then (True, r) else if c = 43 then (False, r) else (False, t) | [] \<Rightarrow> (False, t));
          (base, v) = (case u of
               a # x # h # r \<Rightarrow> if a = 48 \<and> (x = 120 \<or> x = 88) \<and> is_digit_in 16 h then (16, h # r)
                               else if a = 48 then (8, u) else (10, u)
             | a # r \<Rightarrow> if a = 48 then (8, u) else (10, u)
             | [] \<Rightarrow> (10, u));
          ds = takeWhile (is_digit_in base) v;
          n = (if neg then - digits_value base ds else digits_value base ds)
      in if ds = [] then InvalidArgument else if n < - (2 ^ 31) \<or> n \<ge> 2 ^ 31 then OutOfRange else StoiInt n)"

definition split_command :: "byte list \<Rightarrow> byte list \<times> byte list" where
  "split_command message =
     (if 61 \<in> set message then (takeWhile (\<lambda>c. c \<noteq> 61) message, tl (dropWhile (\<lambda>c. c \<noteq> 61) message)) else (message, []))"

definition set_config :: "(lanplay_config \<Rightarrow> lanplay_config) \<Rightarrow> lanplay \<Rightarrow> (byte list \<times> lanplay) option" where
  "set_config f l = (let l = l\<lparr>lp_config := f (lp_config l)\<rparr> in Some (getConfig ''config'' (lp_config l), l))"

definition rpc_onMessage :: "rpc_calls \<Rightarrow> byte list \<Rightarrow> lanplay \<Rightarrow> (byte list \<times> lanplay) option" where
  "rpc_onMessage w message l =
     (let (key, value) = split_command message; is = (\<lambda>s. key = text_bytes s); truth = (value = text_bytes ''true'')
      in if is ''status'' then Some (kv ''status'' (text_bytes (case lp_status l of StatusNone \<Rightarrow> ''None'' | StatusRunning \<Rightarrow> ''Running'')), l)
         else if is ''listIf'' then
           (case rc_interfaces w of
              Inr ifs \<Rightarrow> Some (concat (map list_interface ifs), l)
            | Inl err \<Rightarrow> Some (rpc_error err, l\<lparr>lp_lastError := err\<rparr>))
         else if is ''version'' then Some (kv ''version'' (rc_version w), l)
         else if is ''start'' then
           (let (ret, l) = lanplay_start w l
            in Some (if ret = 0 then kv ''status'' (text_bytes ''Running'') else rpc_error (lp_lastError l), l))
         else if is ''stop'' then
           (let (ret, l) = lanplay_stop w l
            in Some (if ret = 0 then kv ''status'' (text_bytes ''None'') else rpc_error (lp_lastError l), l))
         else if is ''config'' then Some (getConfig ''config'' (lp_config l), l)
         else if is ''lastConfig'' then Some (getConfig ''lastConfig'' (lp_lastConfig l), l)
         else if is ''relayServer'' then set_config (\<lambda>c. c\<lparr>relayServer := value\<rparr>) l
         else if is ''socks5Server'' then set_config (\<lambda>c. c\<lparr>socks5Server := value\<rparr>) l
         else if is ''fakeInternet'' then set_config (\<lambda>c. c\<lparr>cfg_fakeInternet := truth\<rparr>) l
         else if is ''broadcast'' then set_config (\<lambda>c. c\<lparr>cfg_broadcast := truth\<rparr>) l
         else if is ''pmtu'' then
           (case stoi0 value of
              StoiInt n \<Rightarrow> set_config (\<lambda>c. c\<lparr>cfg_pmtu := n\<rparr>) l
            | InvalidArgument \<Rightarrow> Some (rpc_error (text_bytes ''stoi''), l)
            | OutOfRange \<Rightarrow> None)
         else if is ''stats'' then
           (if lp_status l = StatusNone
            then Some (rpc_error (text_bytes ''Not running''), l\<lparr>lp_lastError := text_bytes ''Not running''\<rparr>)
            else Some (getStats w l, l))
         else Some (rpc_error (text_bytes ''command not found: '' @ key), l))"

section \<open>The line protocol\<close>

record tcp_connection =
  tcp_authed :: bool
  tcp_token :: "byte list"
  tcp_out :: "byte list list"
  tcp_lanplay :: lanplay

definition tcp_line :: "rpc_calls \<Rightarrow> byte list \<Rightarrow> tcp_connection \<Rightarrow> tcp_connection option" where
  "tcp_line w line c =
     (let tail = [NEWLINE] @ text_bytes ''# end'' @ [NEWLINE]
      in if tcp_authed c
         then do { (result, l) \<leftarrow> rpc_onMessage w line (tcp_lanplay c);
                   Some (c\<lparr>tcp_lanplay := l, tcp_out := tcp_out c @ [result @ tail]\<rparr>) }
         else if line = tcp_token c
         then Some (c\<lparr>tcp_authed := True, tcp_out := tcp_out c @ [text_bytes ''success='' @ [QUOTE] @ text_bytes ''authorized'' @ [QUOTE] @ tail]\<rparr>)
         else Some (c\<lparr>tcp_out := tcp_out c @
                [text_bytes ''error='' @ [QUOTE] @ text_bytes ''authorized failed: invalid token'' @ [QUOTE] @ tail]\<rparr>))"

definition tcp_data :: "rpc_calls \<Rightarrow> byte list \<Rightarrow> byte list \<times> tcp_connection \<Rightarrow> (byte list \<times> tcp_connection) option" where
  "tcp_data w = readline_feed (tcp_line w)"

section \<open>Lemmas\<close>

lemma text_bytes_inject: "text_bytes s = text_bytes t \<longleftrightarrow> s = t"
proof -
  have "char_of (unat (of_char c :: byte)) = c" for c
    by (subst of_nat_of_char [symmetric]) (simp add: unat_of_nat)
  then have "inj (of_char :: char \<Rightarrow> byte)" by (metis injI)
  then show ?thesis unfolding text_bytes_def by (rule inj_map_eq_map)
qed

lemma stringReplace_one:
  "stringReplace [q] d [] = []"
  "stringReplace [q] d (x # s) = (if x = q then d else [x]) @ stringReplace [q] d s"
  by (subst stringReplace.simps, simp)+

text \<open>
  The reader of a basic string of the configuration language, behind its opening quote: a backslash must be followed by
  a character that can be escaped, and a line cannot end inside.
\<close>

fun toml_read :: "byte list \<Rightarrow> (byte list \<times> byte list) option" where
  "toml_read [] = None"
| "toml_read [c] = (if c = QUOTE then Some ([], []) else None)"
| "toml_read (c # d # s) =
     (if c = QUOTE then Some ([], d # s)
      else if c = NEWLINE then None
      else if c = BACKSLASH
      then (if d = QUOTE \<or> d = BACKSLASH then map_option (\<lambda>(t, r). (d # t, r)) (toml_read s) else None)
      else map_option (\<lambda>(t, r). (c # t, r)) (toml_read (d # s)))"

lemma toml_read_Cons:
  "c \<noteq> QUOTE \<Longrightarrow> c \<noteq> BACKSLASH \<Longrightarrow> c \<noteq> NEWLINE \<Longrightarrow> s \<noteq> [] \<Longrightarrow>
   toml_read (c # s) = map_option (\<lambda>(t, r). (c # t, r)) (toml_read s)"
  by (cases s) auto

lemma toml_read_end: "toml_read (QUOTE # rest) = Some ([], rest)"
  by (cases rest) simp_all

lemma toml_read_escaped:
  "BACKSLASH \<notin> set v \<Longrightarrow> NEWLINE \<notin> set v \<Longrightarrow>
   toml_read (stringReplace [QUOTE] [BACKSLASH, QUOTE] v @ QUOTE # rest) = Some (v, rest)"
proof (induction v)
  case Nil
  then show ?case using toml_read_end [of rest] by (simp add: stringReplace_one)
next
  case (Cons c v)
  then show ?case by (auto simp: stringReplace_one toml_read_Cons)
qed

lemma if_not_None: "(b \<Longrightarrow> x \<noteq> None) \<Longrightarrow> (\<not> b \<Longrightarrow> y \<noteq> None) \<Longrightarrow> (if b then x else y) \<noteq> None"
  by simp

text \<open>A feed keeps what every line of it keeps, and a line of it is a part of the stream.\<close>

lemma feed_lines_invariant:
  assumes "\<And>line s s'. sublist line buffer \<Longrightarrow> cb line s = Some s' \<Longrightarrow> P s \<Longrightarrow> P s'"
    "feed_lines cb buffer st = Some (r, st')" "P st"
  shows "P st'"
  using assms
proof (induction "length buffer" arbitrary: buffer st rule: less_induct)
  case less
  show ?case
  proof (cases "10 \<in> set buffer")
    case True
    then obtain l rest where b: "buffer = l @ 10 # rest" "10 \<notin> set l" by (metis split_list_first)
    let ?line = "if last l = 13 then butlast l else l"
    obtain s1 where s1: "cb ?line st = Some s1" "feed_lines cb rest s1 = Some (r, st')"
      using less.prems(2) feed_lines_line [OF b(2), of cb rest st] by (auto simp: b(1) bind_eq_Some_conv split: if_splits)
    have "prefix ?line buffer" using prefixeq_butlast [of l] by (auto simp: b(1) intro: prefix_prefix)
    then have "P s1" using less.prems(1,3) s1(1) prefix_imp_sublist by blast
    moreover have "sublist line buffer" if "sublist line rest" for line
      using that by (simp add: b(1) sublist_append sublist_Cons_right)
    ultimately show ?thesis
      using less.prems(1) s1(2) by (intro less.hyps [of rest s1]) (auto simp: b(1))
  next
    case False
    then show ?thesis using less.prems(2,3) by (simp add: feed_lines_none)
  qed
qed

lemma init_keeps_console:
  assumes "lan_play_init e calls lp0 = Inr lp'"
  shows "console lp' = console lp0"
  using assms
proof (rule init_phases)
  fix net nm flt ip lp1 lp2 lp3 lp4 lp5 lp6 lp7
  assume 1: "init_login calls (options e) (lp0\<lparr>zerotier_neighbors := (zerotier_neighbors lp0)\<lparr>arp_table := arp_list_init,
       arp_ttl := 30\<rparr>, dhcp_state := dhcp_server_init\<rparr>) = Inr lp1"
    and 2: "init_pcap calls (netif (options e)) flt lp1 = Inr lp2"
    and 3: "init_zerotier_pcap calls (zerotier_if (options e)) flt lp2 = Inr lp3"
    and 4: "init_wifi lp3 = Inr lp4" and 5: "init_zerotier net nm lp4 = Inr lp5"
    and 6: "init_endpoints calls (lp5\<lparr>ctx := packet_init BUFFER_SIZE ip net nm 30\<rparr>) = Inr lp6"
    and 7: "init_captures e calls lp6 = Inr lp7" and 8: "init_discovery e calls lp7 = Inr lp'"
  have "console lp5 = console lp0"
    using init_login_keeps [OF 1] init_pcap_opens [OF 2] init_zerotier_pcap_opens [OF 3] init_wifi_reads [OF 4]
      init_zerotier_reads [OF 5] by (simp add: unopened_def console_def)
  then show ?thesis
    using init_endpoints_reserve [OF 6] 7 init_discovery_starts [OF 8]
    by (auto simp: init_captures_def console_def split: prod.splits if_splits)
qed

section \<open>Properties\<close>

text \<open>
  C27.  No command without the token.  Whatever a client of the line protocol sends, in whatever pieces, the relay and its
  configuration stay as they are until the client is authorized, and it is authorized only if what it sent contains the
  token.
\<close>

theorem rpc_needs_token:
  assumes "tcp_data w bytes (buf, c) = Some (buf', c')" "\<not> tcp_authed c"
  shows "(\<not> tcp_authed c' \<longrightarrow> tcp_lanplay c' = tcp_lanplay c) \<and>
    (tcp_authed c' \<longrightarrow> sublist (tcp_token c) (buf @ bytes))"
proof -
  let ?P = "\<lambda>s. tcp_token s = tcp_token c \<and> (\<not> tcp_authed s \<longrightarrow> tcp_lanplay s = tcp_lanplay c) \<and>
    (tcp_authed s \<longrightarrow> sublist (tcp_token c) (buf @ bytes))"
  have "?P s'" if "sublist line (buf @ bytes)" "tcp_line w line s = Some s'" "?P s" for line s s'
    using that by (auto simp: tcp_line_def Let_def bind_eq_Some_conv split: if_splits)
  moreover have "feed_lines (tcp_line w) (buf @ bytes) c = Some (buf', c')"
    using assms(1) by (simp add: tcp_data_def readline_feed_def)
  ultimately have "?P c'" by (rule feed_lines_invariant [where P = ?P]) (use assms(2) in simp_all)
  then show ?thesis by blast
qed

text \<open>The remote control of the relay of the example, while it runs with a console.\<close>

definition demo_rpc :: rpc_calls where
  "demo_rpc = \<lparr>rc_init = demo_calls, rc_error_text = (\<lambda>_. []), rc_half_started = zero_relay, rc_client_close = 0,
     rc_gateway_close = 0, rc_close_text = [], rc_interfaces = Inr [], rc_time = 0, rc_version = []\<rparr>"

definition demo_lanplay :: lanplay where
  "demo_lanplay = (new_lanplay demo_env demo_relay)\<lparr>lp_status := StatusRunning\<rparr>"

definition demo_tcp :: tcp_connection where
  "demo_tcp = \<lparr>tcp_authed = False, tcp_token = [116], tcp_out = [], tcp_lanplay = demo_lanplay\<rparr>"

theorem rpc_needs_token_witness:
  "\<exists>c'. tcp_data demo_rpc [115, 116, 111, 112, 10] ([], demo_tcp) = Some ([], c') \<and> tcp_lanplay c' = demo_lanplay"
proof -
  define c' where "c' = the (tcp_line demo_rpc [115, 116, 111, 112] demo_tcp)"
  have line: "tcp_line demo_rpc [115, 116, 111, 112] demo_tcp = Some c'" and "\<not> tcp_authed c'"
    by (simp_all add: c'_def tcp_line_def demo_tcp_def)
  moreover have "tcp_data demo_rpc [115, 116, 111, 112, 10] ([], demo_tcp) = Some ([], c')"
    using feed_lines_line [of "[115, 116, 111, 112]" "tcp_line demo_rpc" "[]" demo_tcp] line
    by (simp add: tcp_data_def readline_feed_def feed_lines_none)
  ultimately show ?thesis using rpc_needs_token [of demo_rpc "[115, 116, 111, 112, 10]" "[]" demo_tcp "[]" c']
    by (simp add: demo_tcp_def)
qed

text \<open>
  Printed values are read back, as long as they contain no backslash and no line break: the value of a \<^verbatim>\<open>key="value"\<close>
  line, whatever quotes it contains, ends at the closing quote and is the value that was printed.
\<close>

theorem kv_read_back:
  assumes "BACKSLASH \<notin> set v" "NEWLINE \<notin> set v"
  shows "\<exists>body. kv k v = text_bytes k @ text_bytes ''='' @ QUOTE # body \<and> toml_read body = Some (v, [NEWLINE])"
  using toml_read_escaped [OF assms, of "[NEWLINE]"] by (simp add: kv_def rpc_escape_def)

theorem kv_read_back_witness:
  "\<exists>body. kv ''name'' [97, QUOTE, 98] = text_bytes ''name'' @ text_bytes ''='' @ QUOTE # body \<and>
     toml_read body = Some ([97, QUOTE, 98], [NEWLINE])"
  using kv_read_back [of "[97, QUOTE, 98]" "''name''"] by simp

text \<open>A value that ends in a backslash swallows the closing quote.\<close>

lemma kv_backslash: "toml_read (tl (rpc_escape [BACKSLASH]) @ [NEWLINE]) = None"
  by (simp add: rpc_escape_def stringReplace_one)

text \<open>
  A path MTU outside of the range of an \<^verbatim>\<open>int\<close> ends the process: \<^verbatim>\<open>std::stoi\<close> raises \<^verbatim>\<open>out_of_range\<close>, and only
  \<^verbatim>\<open>invalid_argument\<close> is caught; every other command returns a reply.
\<close>

theorem rpc_pmtu_out_of_range:
  "rpc_onMessage w message l = None \<longleftrightarrow>
     fst (split_command message) = text_bytes ''pmtu'' \<and> stoi0 (snd (split_command message)) = OutOfRange"
proof (cases "fst (split_command message) = text_bytes ''pmtu''")
  case True
  then show ?thesis
    by (simp add: rpc_onMessage_def set_config_def case_prod_beta text_bytes_inject Let_def split: stoi_result.split split del: if_split)
next
  case False
  then show ?thesis
    unfolding rpc_onMessage_def set_config_def case_prod_beta Let_def
    by (simp only: simp_thms) (intro if_not_None; simp split: sum.split)
qed

text \<open>
  A restart keeps the console.  When the relay is stopped and started again over the remote control, it still has
  the console of the session before, although discovery starts anew.
\<close>

theorem rpc_restart_keeps_console:
  assumes "lanplay_stop w l = (0, l1)" "lanplay_start w' l1 = (0, l2)"
  shows "console (lp_relay l2) = console (lp_relay l) \<and> lp_status l2 = StatusRunning"
proof -
  have "console (lp_relay l1) = console (lp_relay l)"
    using assms(1) by (auto simp: lanplay_stop_def lan_play_close_def console_def Let_def split: if_splits)
  moreover have "console (lp_relay l2) = console (lp_relay l1) \<and> lp_status l2 = StatusRunning"
    using assms(2) init_keeps_console
    by (auto simp: lanplay_start_def applyConfig_def Let_def split: if_splits sum.splits)
  ultimately show ?thesis by simp
qed

lemma demo_restart:
  "\<exists>l1 l2. lanplay_stop demo_rpc demo_lanplay = (0, l1) \<and> lanplay_start demo_rpc l1 = (0, l2)"
proof -
  define lp where "lp = snd (snd (lan_play_close demo_env 0 0 demo_relay))"
  have "lanplay_stop demo_rpc demo_lanplay = (0, new_lanplay demo_env lp)"
    by (simp add: lanplay_stop_def demo_rpc_def demo_lanplay_def new_lanplay_def lp_def lan_play_close_def demo_env_def
        default_options_def Let_def)
  moreover have "applyConfig (new_lanplay demo_env lp) = new_lanplay demo_env lp"
    by (simp add: applyConfig_def new_lanplay_def new_config_def option_text_def demo_env_def default_options_def Let_def)
  moreover have "\<exists>lp'. lan_play_init demo_env demo_calls lp = Inr lp'"
    unfolding lan_play_init_def Let_def
    by (simp add: demo_env_def demo_calls_def default_options_def init_login_def bindE_def orE_def init_subnet_def
        init_gateway_ip_def demo_addresses init_pcap_def init_zerotier_pcap_def demo_opens init_wifi_def
        init_zerotier_def uv_pcap_get_mac_def uv_pcap_get_ipv4_def demo_handle_def
        wlan_mac_def zt_mac_def NONE_MAC_def init_endpoints_def native_udp_guard_create_def
        native_udp_guard_reserve_def init_captures_def open_captures_def init_discovery_def demo_udp_def)
  ultimately show ?thesis
    by (auto simp: lanplay_start_def new_lanplay_def demo_rpc_def)
qed

theorem rpc_restart_keeps_console_witness:
  "\<exists>l1 l2. lanplay_stop demo_rpc demo_lanplay = (0, l1) \<and> lanplay_start demo_rpc l1 = (0, l2) \<and>
     console (lp_relay l2) = console demo_relay"
  using demo_restart rpc_restart_keeps_console [of demo_rpc demo_lanplay _ demo_rpc]
  by (fastforce simp: demo_lanplay_def new_lanplay_def)

end
