(* ===== verification/Rpc_Ws.thy ===== *)
theory Rpc_Ws
  imports Rpc_Server
begin

text \<open>
  The WebSocket protocol of the remote control, \<^verbatim>\<open>src/rpc/rpc-ws-server.cpp\<close>, and \<^verbatim>\<open>rpc_main\<close> of \<^verbatim>\<open>src/rpc/rpc.cpp\<close>: the
  HTTP request and the upgrade, the decoding of frames from the chunked buffer, and the commands in text frames.  What is
  written to the client and what is asked of the file system are lists in the state.
\<close>

section \<open>State\<close>

datatype WSCState =
    DO_HEADER | WAIT_HTTP | WAIT_DECODE_HEADER | WAITING_FOR_16_BIT_LENGTH | WAITING_FOR_64_BIT_LENGTH | WAITING_FOR_MASK_KEY
  | WAITING_FOR_PAYLOAD | DEAD

record WSFrame =
  wf_fin :: bool
  wf_rsv1 :: bool
  wf_rsv2 :: bool
  wf_rsv3 :: bool
  wf_mask :: bool
  wf_opcode :: byte
  wf_length :: u64
  wf_maskBytes :: "byte list"
  wf_data :: "byte list"

definition clear_frame :: WSFrame where
  "clear_frame = \<lparr>wf_fin = False, wf_rsv1 = False, wf_rsv2 = False, wf_rsv3 = False, wf_mask = False, wf_opcode = 0, wf_length = 0,
     wf_maskBytes = replicate 4 0, wf_data = []\<rparr>"

text \<open>Requests to the file system, in the order they are made.\<close>

datatype file_request = OpenFile "byte list" | StatFile | ReadFile nat nat | CloseFile

record ws_connection =
  wsState :: WSCState
  ws_authed :: bool
  ws_pos :: nat
  ws_token :: "byte list"
  ws_path :: "byte list"
  ws_headers :: "byte list \<Rightarrow> byte list"
  ws_bl :: buffer_list
  ws_frame :: WSFrame
  ws_out :: "byte list list"
  ws_files :: "file_request list"
  ws_closed :: bool
  ws_lanplay :: lanplay


section \<open>The HTTP request\<close>

abbreviation (input) CRLF :: "byte list" where "CRLF \<equiv> [13, 10]"

definition HTTP_RESP_400 :: "byte list" where
  "HTTP_RESP_400 = text_bytes ''HTTP/1.1 400 Bad Request'' @ CRLF @ text_bytes ''Content-Length: 0'' @ CRLF @
     text_bytes ''Connection: Close'' @ CRLF @ CRLF"

definition HTTP_RESP_404 :: "byte list" where
  "HTTP_RESP_404 = text_bytes ''HTTP/1.1 404 Not Found'' @ CRLF @ text_bytes ''Content-Length: 0'' @ CRLF @
     text_bytes ''Connection: Close'' @ CRLF @ CRLF"

definition HTTP_RESP_200 :: "byte list" where
  "HTTP_RESP_200 = text_bytes ''HTTP/1.1 200 OK'' @ CRLF @ text_bytes ''Connection: Close'' @ CRLF @ text_bytes ''Content-Length: ''"






definition ws_sendStr :: "byte list \<Rightarrow> ws_connection \<Rightarrow> ws_connection" where
  "ws_sendStr s c = (if s = [] then c else c\<lparr>ws_out := ws_out c @ [s]\<rparr>)"


text \<open>What the file system answers, and the callbacks of \<^verbatim>\<open>sendFile\<close>.\<close>

datatype file_event = FileError bool | FileOpened | FileStat nat | FileRead "byte list"

definition ReadSize :: nat where "ReadSize = 65536"

definition ws_file_event :: "file_event \<Rightarrow> ws_connection \<Rightarrow> ws_connection" where
  "ws_file_event e c =
     (case e of
        FileError enoent \<Rightarrow> ws_sendStr (if enoent then HTTP_RESP_404 else HTTP_RESP_400) c
      | FileOpened \<Rightarrow> c\<lparr>ws_files := ws_files c @ [StatFile]\<rparr>
      | FileStat sz \<Rightarrow>
          (let c = ws_sendStr (text_bytes (show_nat sz) @ CRLF @ CRLF) (ws_sendStr HTTP_RESP_200 c)
           in c\<lparr>ws_files := ws_files c @ [ReadFile 0 ReadSize]\<rparr>)
      | FileRead d \<Rightarrow>
          (if d = [] then c\<lparr>ws_files := ws_files c @ [CloseFile]\<rparr>
           else c\<lparr>ws_out := ws_out c @ [d], ws_pos := ws_pos c + length d,
                  ws_files := ws_files c @ [ReadFile (ws_pos c + length d) ReadSize]\<rparr>))"





section \<open>Frames\<close>

definition ws_sendText :: "byte list \<Rightarrow> ws_connection \<Rightarrow> ws_connection" where
  "ws_sendText str c =
     (let n = length str; h = (\<lambda>x. c\<lparr>ws_out := ws_out c @ [x, str]\<rparr>)
      in if n < 126 then h [0x81, word_of_nat n]
         else if n < 65536 then h [0x81, 126, word_of_nat (n div 256), word_of_nat n]
         else c)"







definition ws_unmask :: "byte list \<Rightarrow> byte list \<Rightarrow> byte list" where
  "ws_unmask m d = map (\<lambda>i. d ! i XOR m ! (i mod 4)) [0..<length d]"





text \<open>\<^verbatim>\<open>rpc_main\<close>: the address to listen on and the protocol.\<close>

datatype rpc_protocol = ServeWs string u16 | ServeTcp string u16

definition rpc_main :: "string \<Rightarrow> string option \<Rightarrow> rpc_protocol option" where
  "rpc_main bind_addr protocol =
     (case parse_ip_port bind_addr 128 of
        None \<Rightarrow> None
      | Some (addr, port, _) \<Rightarrow>
          if protocol = None \<or> protocol = Some ''ws'' then Some (ServeWs addr port)
          else if protocol = Some ''tcp'' then Some (ServeTcp addr port) else None)"

section \<open>Frames of a client\<close>



text \<open>The connection without what is left of the last frame.\<close>

definition forget_frame :: "ws_connection \<Rightarrow> ws_connection" where
  "forget_frame c = c\<lparr>ws_frame := clear_frame\<rparr>"

lemma length_ws_unmask [simp]: "length (ws_unmask m d) = length d"
  by (simp add: ws_unmask_def)

lemma ws_unmask_twice [simp]: "ws_unmask m (ws_unmask m d) = d"
  by (rule nth_equalityI) (simp_all add: ws_unmask_def xor.assoc)



text \<open>A command touches neither the buffer nor the decoder's state.\<close>

definition with_decoder :: "WSCState \<Rightarrow> buffer_list \<Rightarrow> WSFrame \<Rightarrow> ws_connection \<Rightarrow> ws_connection" where
  "with_decoder s b f c = c\<lparr>wsState := s, ws_bl := b, ws_frame := f\<rparr>"

lemma with_decoder_simps [simp]:
  "wsState (with_decoder s b f c) = s" "ws_bl (with_decoder s b f c) = b" "ws_frame (with_decoder s b f c) = f"
  "with_decoder s b f (with_decoder s' b' f' c) = with_decoder s b f c"
  "(with_decoder s b f c)\<lparr>ws_frame := f'\<rparr> = with_decoder s b f' c"
  "(with_decoder s b f c)\<lparr>ws_bl := b'\<rparr> = with_decoder s b' f c" "(with_decoder s b f c)\<lparr>wsState := s'\<rparr> = with_decoder s' b f c"
  "ws_authed (with_decoder s b f c) = ws_authed c" "ws_token (with_decoder s b f c) = ws_token c"
  "ws_lanplay (with_decoder s b f c) = ws_lanplay c" "ws_out (with_decoder s b f c) = ws_out c"
  "(with_decoder s b f c)\<lparr>ws_authed := a\<rparr> = with_decoder s b f (c\<lparr>ws_authed := a\<rparr>)"
  "(with_decoder s b f c)\<lparr>ws_lanplay := l\<rparr> = with_decoder s b f (c\<lparr>ws_lanplay := l\<rparr>)"
  "(with_decoder s b f c)\<lparr>ws_out := x\<rparr> = with_decoder s b f (c\<lparr>ws_out := x\<rparr>)"
  by (simp_all add: with_decoder_def)






lemma forget_decoder [simp]: "forget_frame (with_decoder s b f c) = with_decoder s b clear_frame c"
  by (simp add: forget_frame_def)

section \<open>Decoding\<close>















section \<open>The request of a client\<close>






















lemma ws_sendText_fields [simp]:
  "ws_authed (ws_sendText t c) = ws_authed c" "ws_token (ws_sendText t c) = ws_token c" "ws_lanplay (ws_sendText t c) = ws_lanplay c"
  by (simp_all add: ws_sendText_def Let_def)


section \<open>Properties\<close>








end
