(* ===== verification/Gateway.thy ===== *)
theory Gateway
  imports Example "HOL-Library.AList"
begin

text \<open>
  The fake gateway, \<^verbatim>\<open>src/gateway.cpp\<close>, with the table of UDP flows of \<^verbatim>\<open>src/proxy_common.hpp\<close> and the direct proxy
  \<^verbatim>\<open>src/proxy_direct.cpp\<close>.  A socket is named by the number of its creation; destroying its object closes it.  The table is
  an association list with distinct keys; its objects are shared with nobody else.  Times are in seconds.
\<close>

section \<open>The table of flows\<close>

type_synonym udp_key = "ip4 \<times> u16"

type_synonym 'u udp_table = "(udp_key \<times> 'u) list"

abbreviation (input) PROXY_UDP_TABLE_TTL :: int where "PROXY_UDP_TABLE_TTL \<equiv> 30"

text \<open>
  The template \<^verbatim>\<open>ProxyBase<T, U>\<close>: \<open>isExpire\<close> and \<open>fresh\<close>, which is \<^verbatim>\<open>newUdp\<close> followed by \<^verbatim>\<open>init\<close>, are those of the class \<^verbatim>\<open>U\<close>.
  The result tells whether the object is new.
\<close>

definition getUdp :: "('u \<Rightarrow> bool) \<Rightarrow> 'u \<Rightarrow> udp_key \<Rightarrow> 'u udp_table \<Rightarrow> bool \<times> 'u \<times> 'u udp_table" where
  "getUdp isExpire fresh k table =
     (case map_of table k of
        Some item \<Rightarrow>
          (let item' = (if isExpire item then fresh else item) in (isExpire item, item', AList.update k item' table))
      | None \<Rightarrow> (True, fresh, AList.update k fresh table))"

definition gc :: "('u \<Rightarrow> bool) \<Rightarrow> 'u udp_table \<Rightarrow> 'u udp_table" where
  "gc isExpire table = filter (\<lambda>(k, u). \<not> isExpire u) table"

section \<open>The direct proxy\<close>

record DirectProxyUdp =
  du_sock :: nat
  du_src :: ip4
  du_srcport :: u16
  du_expire_at :: int

definition direct_visit :: "int \<Rightarrow> DirectProxyUdp \<Rightarrow> DirectProxyUdp" where
  "direct_visit t u = u\<lparr>du_expire_at := t + PROXY_UDP_TABLE_TTL\<rparr>"

definition direct_isExpire :: "int \<Rightarrow> DirectProxyUdp \<Rightarrow> bool" where
  "direct_isExpire t u \<longleftrightarrow> du_expire_at u < t"

record DirectProxy =
  dp_table :: "DirectProxyUdp udp_table"
  dp_sockets :: nat
  dp_out :: "(nat \<times> ip4 \<times> u16 \<times> byte list) list"

definition new_DirectProxy :: DirectProxy where
  "new_DirectProxy = \<lparr>dp_table = [], dp_sockets = 0, dp_out = []\<rparr>"

definition direct_init :: "int \<Rightarrow> ip4 \<Rightarrow> u16 \<Rightarrow> nat \<Rightarrow> DirectProxyUdp" where
  "direct_init t src sport sock = direct_visit t \<lparr>du_sock = sock, du_src = src, du_srcport = sport, du_expire_at = 0\<rparr>"

definition direct_udpSend :: "int \<Rightarrow> ip4 \<Rightarrow> u16 \<Rightarrow> ip4 \<Rightarrow> u16 \<Rightarrow> byte list \<Rightarrow> DirectProxy \<Rightarrow> DirectProxy" where
  "direct_udpSend t src sport dst dport data p =
     (let (new, item, table) = getUdp (direct_isExpire t) (direct_init t src sport (dp_sockets p)) (src, sport) (dp_table p)
      in p\<lparr>dp_table := AList.update (src, sport) (direct_visit t item) table,
           dp_sockets := (if new then Suc (dp_sockets p) else dp_sockets p),
           dp_out := dp_out p @ [(du_sock item, dst, dport, data)]\<rparr>)"

definition direct_gc :: "int \<Rightarrow> DirectProxy \<Rightarrow> DirectProxy" where
  "direct_gc t p = p\<lparr>dp_table := gc (direct_isExpire t) (dp_table p)\<rparr>"

text \<open>A datagram for a socket: whom it is for.  A closed socket receives nothing.\<close>

definition direct_recv :: "int \<Rightarrow> nat \<Rightarrow> DirectProxy \<Rightarrow> udp_key option \<times> DirectProxy" where
  "direct_recv t sock p =
     (case find (\<lambda>(k, u). du_sock u = sock) (dp_table p) of
        None \<Rightarrow> (None, p)
      | Some (k, u) \<Rightarrow> (Some (du_src u, du_srcport u), p\<lparr>dp_table := AList.update k (direct_visit t u) (dp_table p)\<rparr>))"

section \<open>Packets for the gateway\<close>

datatype gateway_packet = UdpPacket ip4 u16 ip4 u16 "byte list" | OtherPacket

text \<open>
  \<^verbatim>\<open>processUdp\<close>: \<^term>\<open>OtherPacket\<close> is the result \<^verbatim>\<open>-1\<close>.  The length of the payload is computed from the captured length,
  in sixteen bits.
\<close>

definition processUdp :: "byte list \<Rightarrow> gateway_packet option" where
  "processUdp data =
     (case data of
        [] \<Rightarrow> Some OtherPacket
      | b # _ \<Rightarrow>
          if drop_bit 4 b \<noteq> 4 \<or> length data < 20 \<or> data ! IPV4_OFF_PROTOCOL \<noteq> IPV4_PROTOCOL_UDP then Some OtherPacket
          else do {
            let hlen = 4 * unat (b AND 0xF);
            src \<leftarrow> CPY_IPV4 data IPV4_OFF_SRC;
            dst \<leftarrow> CPY_IPV4 data IPV4_OFF_DST;
            sport \<leftarrow> read16 data hlen;
            dport \<leftarrow> read16 data (hlen + 2);
            let len = (word_of_int (int (length data) - int hlen - 8) :: u16);
            payload \<leftarrow> read_bytes data (hlen + 8) (unat len);
            Some (UdpPacket src sport dst dport payload) })"

text \<open>The gateway with a direct proxy; what goes to lwIP is recorded.\<close>

record gateway =
  gw_proxy :: DirectProxy
  gw_fake_internet :: bool
  gw_lwip :: "byte list list"

definition gateway_init :: "bool \<Rightarrow> gateway" where
  "gateway_init fake = \<lparr>gw_proxy = new_DirectProxy, gw_fake_internet = fake, gw_lwip = []\<rparr>"

definition gateway_onPacket :: "int \<Rightarrow> byte list \<Rightarrow> gateway \<Rightarrow> gateway option" where
  "gateway_onPacket t data g =
     do { r \<leftarrow> processUdp data;
          Some (case r of
                  UdpPacket src sport dst dport payload \<Rightarrow> g\<lparr>gw_proxy := direct_udpSend t src sport dst dport payload (gw_proxy g)\<rparr>
                | OtherPacket \<Rightarrow> g\<lparr>gw_lwip := gw_lwip g @ [data]\<rparr>) }"

definition gateway_on_packet :: "int \<Rightarrow> byte list \<Rightarrow> gateway \<Rightarrow> gateway option" where
  "gateway_on_packet t frame g = (if length frame < ETHER_HEADER_LEN then None else gateway_onPacket t (drop ETHER_HEADER_LEN frame) g)"

text \<open>The callback of a socket: what arrives is sent to the console.\<close>

definition gateway_reply :: "env \<Rightarrow> int \<Rightarrow> nat \<Rightarrow> ip4 \<Rightarrow> u16 \<Rightarrow> byte list \<Rightarrow> gateway \<times> lan_play \<Rightarrow> (gateway \<times> lan_play) option" where
  "gateway_reply e t sock from_ip from_port data s =
     (let (g, lp) = s; (r, p) = direct_recv t sock (gw_proxy g)
      in case r of
           None \<Rightarrow> Some (g, lp)
         | Some (src, sport) \<Rightarrow>
             do { (_, lp) \<leftarrow> send_udp_ex e from_ip from_port src sport [(data, word_of_nat (length data))] lp;
                  Some (g\<lparr>gw_proxy := p\<rparr>, lp) })"

text \<open>What happens to the flows, with the time of each event.\<close>

datatype flow_event = FlowSend ip4 u16 ip4 u16 "byte list" | FlowRecv nat | FlowGc

fun flow_step :: "int \<times> flow_event \<Rightarrow> DirectProxy \<Rightarrow> DirectProxy" where
  "flow_step (t, FlowSend src sport dst dport data) p = direct_udpSend t src sport dst dport data p"
| "flow_step (t, FlowRecv sock) p = snd (direct_recv t sock p)"
| "flow_step (t, FlowGc) p = direct_gc t p"

definition flows :: "(int \<times> flow_event) list \<Rightarrow> DirectProxy \<Rightarrow> DirectProxy" where
  "flows es p = fold flow_step es p"

section \<open>Flows stay alive\<close>

definition alive :: "(int \<Rightarrow> 'u \<Rightarrow> bool) \<Rightarrow> int \<Rightarrow> 'u \<Rightarrow> bool" where
  "alive isExpire t u \<longleftrightarrow> (\<forall>t' \<le> t + PROXY_UDP_TABLE_TTL. \<not> isExpire t' u)"

text \<open>What the table needs of the class of its objects: a visited object does not expire for thirty seconds.\<close>

locale udp_class =
  fixes isExpire :: "int \<Rightarrow> 'u \<Rightarrow> bool" and visit :: "int \<Rightarrow> 'u \<Rightarrow> 'u"
  assumes expire_visit: "isExpire t' (visit t u) \<longleftrightarrow> t + PROXY_UDP_TABLE_TTL < t'"
begin

lemma alive_visit: "t \<le> t' \<Longrightarrow> alive isExpire t (visit t' u)"
  by (auto simp: alive_def expire_visit)

lemma getUdp_alive:
  "map_of table k = Some u \<Longrightarrow> alive isExpire t u \<Longrightarrow> t' \<le> t + PROXY_UDP_TABLE_TTL \<Longrightarrow>
   getUdp (isExpire t') fresh k table = (False, u, AList.update k u table)"
  by (simp add: getUdp_def alive_def)

lemma gc_alive:
  "map_of table k = Some u \<Longrightarrow> distinct (map fst table) \<Longrightarrow> alive isExpire t u \<Longrightarrow> t' \<le> t + PROXY_UDP_TABLE_TTL \<Longrightarrow>
   map_of (gc (isExpire t') table) k = Some u"
proof (induction table)
  case (Cons x table)
  then show ?case by (cases x) (auto simp: gc_def alive_def)
qed simp

end

interpretation direct: udp_class direct_isExpire direct_visit
  by unfold_locales (simp add: direct_isExpire_def direct_visit_def)

section \<open>Sockets belong to one sender\<close>

definition table_ok :: "DirectProxyUdp udp_table \<Rightarrow> nat \<Rightarrow> bool" where
  "table_ok table n \<longleftrightarrow> distinct (map fst table) \<and> (\<forall>(k, u) \<in> set table. (du_src u, du_srcport u) = k \<and> du_sock u < n) \<and>
     (\<forall>x \<in> set table. \<forall>y \<in> set table. du_sock (snd x) = du_sock (snd y) \<longrightarrow> fst x = fst y)"

definition flows_ok :: "DirectProxy \<Rightarrow> bool" where
  "flows_ok p \<longleftrightarrow> table_ok (dp_table p) (dp_sockets p)"

lemma direct_visit_fields [simp]:
  "du_sock (direct_visit t u) = du_sock u" "du_src (direct_visit t u) = du_src u" "du_srcport (direct_visit t u) = du_srcport u"
  by (simp_all add: direct_visit_def)

lemma flows_okD:
  assumes "flows_ok p"
  shows "distinct (map fst (dp_table p))" "(k, u) \<in> set (dp_table p) \<Longrightarrow> (du_src u, du_srcport u) = k"
    "(k, u) \<in> set (dp_table p) \<Longrightarrow> du_sock u < dp_sockets p"
    "(k, u) \<in> set (dp_table p) \<Longrightarrow> (k', u') \<in> set (dp_table p) \<Longrightarrow> du_sock u = du_sock u' \<Longrightarrow> k = k'"
proof -
  have a: "distinct (map fst (dp_table p))"
    and b: "\<forall>(k, u) \<in> set (dp_table p). (du_src u, du_srcport u) = k \<and> du_sock u < dp_sockets p"
    and c: "\<forall>x \<in> set (dp_table p). \<forall>y \<in> set (dp_table p). du_sock (snd x) = du_sock (snd y) \<longrightarrow> fst x = fst y"
    using assms unfolding flows_ok_def table_ok_def by blast+
  show "distinct (map fst (dp_table p))" by (rule a)
  show "(k, u) \<in> set (dp_table p) \<Longrightarrow> (du_src u, du_srcport u) = k" "(k, u) \<in> set (dp_table p) \<Longrightarrow> du_sock u < dp_sockets p"
    using b by fastforce+
  show "k = k'" if "(k, u) \<in> set (dp_table p)" "(k', u') \<in> set (dp_table p)" "du_sock u = du_sock u'"
    using bspec [OF bspec [OF c that(1)] that(2)] that(3) by simp
qed

lemma update_in_table:
  "distinct (map fst table) \<Longrightarrow> x \<in> set (AList.update k u table) \<longleftrightarrow> x = (k, u) \<or> x \<in> set table \<and> fst x \<noteq> k"
  by (induction table) (auto simp: image_iff)

lemma update_twice [simp]: "AList.update k u (AList.update k u' table) = AList.update k u table"
  by (induction table) auto

text \<open>What a send does to the table, in two cases.\<close>

lemma direct_udpSend_cases:
  obtains (old) u where "map_of (dp_table p) (src, sport) = Some u" "\<not> direct_isExpire t u"
      "direct_udpSend t src sport dst dport d p = p\<lparr>dp_table := AList.update (src, sport) (direct_visit t u) (dp_table p),
         dp_out := dp_out p @ [(du_sock u, dst, dport, d)]\<rparr>"
  | (new) "\<forall>u. map_of (dp_table p) (src, sport) = Some u \<longrightarrow> direct_isExpire t u"
      "direct_udpSend t src sport dst dport d p =
         p\<lparr>dp_table := AList.update (src, sport) (direct_init t src sport (dp_sockets p)) (dp_table p), dp_sockets := Suc (dp_sockets p),
         dp_out := dp_out p @ [(dp_sockets p, dst, dport, d)]\<rparr>"
proof (cases "\<exists>u. map_of (dp_table p) (src, sport) = Some u \<and> \<not> direct_isExpire t u")
  case True
  then obtain u where u: "map_of (dp_table p) (src, sport) = Some u" "\<not> direct_isExpire t u" by auto
  then show ?thesis by (intro old [of u]) (simp_all add: direct_udpSend_def getUdp_def)
next
  case False
  have v: "direct_visit t (direct_init t src sport n) = direct_init t src sport n" "du_sock (direct_init t src sport n) = n" for n
    by (simp_all add: direct_init_def direct_visit_def)
  show ?thesis using False v
    by (intro new) (auto simp: direct_udpSend_def getUdp_def Let_def split: option.split)
qed

lemma direct_recv_cases:
  obtains (nobody) "direct_recv t n p = (None, p)" "\<forall>(k, u) \<in> set (dp_table p). du_sock u \<noteq> n"
  | (flow) k u where "(k, u) \<in> set (dp_table p)" "du_sock u = n"
      "direct_recv t n p = (Some (du_src u, du_srcport u), p\<lparr>dp_table := AList.update k (direct_visit t u) (dp_table p)\<rparr>)"
proof (cases "find (\<lambda>(k, u). du_sock u = n) (dp_table p)")
  case None
  then have "\<forall>(k, u) \<in> set (dp_table p). du_sock u \<noteq> n" by (auto simp: find_None_iff)
  then show ?thesis using None by (intro nobody) (simp_all add: direct_recv_def)
next
  case (Some x)
  then have "x \<in> set (dp_table p)" "du_sock (snd x) = n" by (auto simp: find_Some_iff case_prod_beta)
  then show ?thesis using Some by (intro flow [of "fst x" "snd x"]) (simp_all add: direct_recv_def case_prod_beta)
qed

text \<open>A table in which one object is replaced, by one with the same socket or with a new one.\<close>

lemma flows_ok_update:
  assumes "flows_ok p" "(du_src u, du_srcport u) = k" "dp_sockets p \<le> n" "du_sock u < n"
    "(\<exists>u'. (k, u') \<in> set (dp_table p) \<and> du_sock u' = du_sock u) \<or> dp_sockets p \<le> du_sock u"
  shows "flows_ok (p\<lparr>dp_table := AList.update k u (dp_table p), dp_sockets := n, dp_out := o1\<rparr>)"
proof -
  note old = flows_okD [OF assms(1)]
  note d = old(1) and inj = old(4)
  note mem = update_in_table [OF d]
  have own: "k' = k" if "(k', v) \<in> set (dp_table p)" "du_sock v = du_sock u" for k' v
    using assms(5)
  proof
    assume "\<exists>u'. (k, u') \<in> set (dp_table p) \<and> du_sock u' = du_sock u"
    then obtain u' where u': "(k, u') \<in> set (dp_table p)" "du_sock u' = du_sock u" by blast
    show ?thesis using inj [OF that(1) u'(1)] that(2) u'(2) by simp
  next
    assume "dp_sockets p \<le> du_sock u"
    then show ?thesis using old(3) [OF that(1)] that(2) by simp
  qed
  have 1: "\<forall>(k', v) \<in> set (AList.update k u (dp_table p)). (du_src v, du_srcport v) = k' \<and> du_sock v < n"
    using old(2,3) assms(2-4) by (fastforce simp: mem)
  have 2: "k1 = k2"
    if "(k1, v1) \<in> set (AList.update k u (dp_table p))" "(k2, v2) \<in> set (AList.update k u (dp_table p))" "du_sock v1 = du_sock v2" for k1 v1 k2 v2
  proof -
    have "k1 = k" if "(k1, v1) \<in> set (dp_table p)" "v2 = u" using own [OF that(1)] that(2) \<open>du_sock v1 = du_sock v2\<close> by simp
    moreover have "k2 = k" if "(k2, v2) \<in> set (dp_table p)" "v1 = u" using own [OF that(1)] that(2) \<open>du_sock v1 = du_sock v2\<close> by simp
    ultimately show ?thesis using that old(4) [of k1 v1 k2 v2] unfolding mem by auto
  qed
  have 3: "\<forall>x \<in> set (AList.update k u (dp_table p)). \<forall>y \<in> set (AList.update k u (dp_table p)). du_sock (snd x) = du_sock (snd y) \<longrightarrow> fst x = fst y"
  proof (intro ballI impI)
    fix x y
    assume "x \<in> set (AList.update k u (dp_table p))" "y \<in> set (AList.update k u (dp_table p))" "du_sock (snd x) = du_sock (snd y)"
    then show "fst x = fst y" using 2 [of "fst x" "snd x" "fst y" "snd y"] by simp
  qed
  have "table_ok (AList.update k u (dp_table p)) n" unfolding table_ok_def using 1 3 distinct_update [OF d, of k u] by blast
  then show ?thesis by (simp add: flows_ok_def)
qed

lemma flow_step_ok: "flows_ok p \<Longrightarrow> flows_ok (flow_step x p)"
proof -
  assume ok: "flows_ok p"
  obtain t e where x: "x = (t, e)" by (cases x)
  show ?thesis
  proof (cases e)
    case (FlowSend src sport dst dport d)
    show ?thesis
    proof (cases rule: direct_udpSend_cases [where p = p and t = t and src = src and sport = sport and dst = dst and dport = dport and d = d])
      case (old u)
      then have "(( src, sport), u) \<in> set (dp_table p)" by (simp add: map_of_SomeD)
      then show ?thesis using flows_ok_update [OF ok, of "direct_visit t u" "(src, sport)" "dp_sockets p"] flows_okD(2,3) [OF ok, of "(src, sport)" u] old(3) x FlowSend
        by fastforce
    next
      case new
      then show ?thesis using flows_ok_update [OF ok, of "direct_init t src sport (dp_sockets p)" "(src, sport)" "Suc (dp_sockets p)"] x FlowSend
        by (simp add: direct_init_def)
    qed
  next
    case (FlowRecv n)
    show ?thesis
    proof (cases rule: direct_recv_cases [where p = p and t = t and n = n])
      case (flow k u)
      then show ?thesis using flows_ok_update [OF ok, of "direct_visit t u" k "dp_sockets p" "dp_out p"] flows_okD(2,3) [OF ok, of k u] x FlowRecv
        by fastforce
    qed (use ok x FlowRecv in simp)
  next
    case FlowGc
    have "distinct (map fst (filter q table))" if "distinct (map fst table)" for q and table :: "DirectProxyUdp udp_table"
      using that by (rule distinct_map_filter)
    then show ?thesis using FlowGc ok x by (auto simp: flows_ok_def direct_gc_def gc_def table_ok_def)
  qed
qed

lemma flows_new: "flows_ok new_DirectProxy"
  by (simp add: flows_ok_def table_ok_def new_DirectProxy_def)

lemma flows_keep_ok: "flows_ok p \<Longrightarrow> flows_ok (flows es p)"
  unfolding flows_def by (induction es arbitrary: p) (simp_all add: flow_step_ok)

text \<open>Sockets are never used again: an object with an old number has the key it had.\<close>

lemma flow_step_owner:
  assumes "flows_ok p" "(k, u) \<in> set (dp_table (flow_step x p))"
  shows "dp_sockets p \<le> dp_sockets (flow_step x p) \<and>
    (du_sock u < dp_sockets p \<longrightarrow> (\<exists>u'. (k, u') \<in> set (dp_table p) \<and> du_sock u' = du_sock u))"
proof -
  obtain t e where x: "x = (t, e)" by (cases x)
  have d: "distinct (map fst (dp_table p))" using assms(1) by (rule flows_okD)
  show ?thesis
  proof (cases e)
    case (FlowSend src sport dst dport d1)
    show ?thesis
    proof (cases rule: direct_udpSend_cases [where p = p and t = t and src = src and sport = sport and dst = dst and dport = dport and d = d1])
      case (old v)
      then show ?thesis using assms(2) x FlowSend map_of_SomeD [OF old(1)] by (auto simp: update_in_table [OF d])
    next
      case new
      then show ?thesis using assms(2) x FlowSend by (auto simp: update_in_table [OF d] direct_init_def)
    qed
  next
    case (FlowRecv n)
    show ?thesis
      by (cases rule: direct_recv_cases [where p = p and t = t and n = n]) (use assms(2) x FlowRecv in \<open>auto simp: update_in_table [OF d]\<close>)
  next
    case FlowGc
    then show ?thesis using assms(2) x by (auto simp: direct_gc_def gc_def)
  qed
qed

lemma flow_step_sockets: "dp_sockets p \<le> dp_sockets (flow_step x p)"
proof -
  obtain t e where x: "x = (t, e)" by (cases x)
  show ?thesis
  proof (cases e)
    case (FlowRecv n)
    then show ?thesis using x by (cases rule: direct_recv_cases [where p = p and t = t and n = n]) auto
  qed (use x in \<open>auto simp: direct_udpSend_def direct_gc_def split: prod.splits\<close>)
qed

lemma flows_owner:
  assumes "flows_ok p" "n < dp_sockets p" "(k, u) \<in> set (dp_table (flows es p))" "du_sock u = n"
  shows "\<exists>u'. (k, u') \<in> set (dp_table p) \<and> du_sock u' = n"
  using assms
proof (induction es arbitrary: p)
  case (Cons x es)
  have "n < dp_sockets (flow_step x p)" using Cons.prems(2) flow_step_sockets [of p x] by linarith
  then obtain u' where "(k, u') \<in> set (dp_table (flow_step x p))" "du_sock u' = n"
    using Cons.IH [of "flow_step x p"] Cons.prems by (auto simp: flows_def flow_step_ok)
  then show ?case using flow_step_owner [OF Cons.prems(1), of k u' x] Cons.prems(2) by auto
qed (auto simp: flows_def)

text \<open>A flow stays while it is alive.\<close>

definition has_flow :: "int \<Rightarrow> udp_key \<Rightarrow> nat \<Rightarrow> DirectProxy \<Rightarrow> bool" where
  "has_flow t k n p \<longleftrightarrow> (\<exists>u. map_of (dp_table p) k = Some u \<and> du_sock u = n \<and> alive direct_isExpire t u)"

lemma flow_step_keeps:
  assumes "flows_ok p" "has_flow t k n p" "t \<le> fst x" "fst x \<le> t + PROXY_UDP_TABLE_TTL"
  shows "has_flow t k n (flow_step x p)"
proof -
  obtain t1 e where x: "x = (t1, e)" by (cases x)
  obtain u where u: "map_of (dp_table p) k = Some u" "du_sock u = n" "alive direct_isExpire t u"
    using assms(2) by (auto simp: has_flow_def)
  have d: "distinct (map fst (dp_table p))" using assms(1) by (rule flows_okD)
  show ?thesis
  proof (cases e)
    case (FlowSend src sport dst dport d1)
    show ?thesis
    proof (cases rule: direct_udpSend_cases [where p = p and t = t1 and src = src and sport = sport and dst = dst and dport = dport and d = d1])
      case (old v)
      then show ?thesis using u x assms(3) direct.alive_visit [of t t1 u] FlowSend by (auto simp: has_flow_def update_conv')
    next
      case new
      then have "k \<noteq> (src, sport)" using u assms(4) x by (auto simp: alive_def)
      then show ?thesis using new(2) u x FlowSend by (simp add: has_flow_def update_conv')
    qed
  next
    case (FlowRecv m)
    show ?thesis
    proof (cases rule: direct_recv_cases [where p = p and t = t1 and n = m])
      case (flow k1 v)
      then have "map_of (dp_table p) k1 = Some v" using d by simp
      then show ?thesis using flow u x assms(3) direct.alive_visit [of t t1 u] FlowRecv by (auto simp: has_flow_def update_conv')
    qed (use assms(2) x FlowRecv in simp)
  next
    case FlowGc
    then show ?thesis using direct.gc_alive [OF u(1) d u(3)] u x assms(4) by (simp add: has_flow_def direct_gc_def)
  qed
qed

lemma flows_keep:
  assumes "flows_ok p" "has_flow t k n p" "\<forall>x \<in> set es. t \<le> fst x \<and> fst x \<le> t + PROXY_UDP_TABLE_TTL"
  shows "has_flow t k n (flows es p)"
  using assms unfolding flows_def
  by (induction es arbitrary: p) (simp_all add: flow_step_ok flow_step_keeps)

lemma udpSend_has_flow:
  assumes "flows_ok p"
  shows "\<exists>n. dp_out (direct_udpSend t src sport dst dport d p) = dp_out p @ [(n, dst, dport, d)] \<and>
    has_flow t (src, sport) n (direct_udpSend t src sport dst dport d p) \<and> n < dp_sockets (direct_udpSend t src sport dst dport d p)"
proof (cases rule: direct_udpSend_cases [where p = p and t = t and src = src and sport = sport and dst = dst and dport = dport and d = d])
  case (old u)
  then have "du_sock u < dp_sockets p" using flows_okD(3) [OF assms map_of_SomeD [OF old(1)]] by simp
  then show ?thesis using old direct.alive_visit [of t t u] by (auto simp: has_flow_def update_conv')
next
  case new
  then show ?thesis using direct.alive_visit [of t t] by (auto simp: has_flow_def update_conv' direct_init_def)
qed

section \<open>Packets\<close>

text \<open>A UDP packet as the gateway needs it: an IPv4 header that fits and a UDP header behind it.\<close>

definition udp_packet :: "byte list \<Rightarrow> bool" where
  "udp_packet d \<longleftrightarrow> 20 \<le> length d \<and> drop_bit 4 (d ! 0) = 4 \<and> d ! 9 = IPV4_PROTOCOL_UDP \<and> header_len (d ! 0) + 8 \<le> length d \<and> length d < 65536"

definition udp_sport :: "byte list \<Rightarrow> u16" where
  "udp_sport d = be16 (d ! header_len (d ! 0)) (d ! (header_len (d ! 0) + 1))"

definition udp_dport :: "byte list \<Rightarrow> u16" where
  "udp_dport d = be16 (d ! (header_len (d ! 0) + 2)) (d ! (header_len (d ! 0) + 3))"

lemma processUdp_packet:
  assumes "udp_packet d"
  shows "processUdp d = Some (UdpPacket (ip_at d 12) (udp_sport d) (ip_at d 16) (udp_dport d) (drop (header_len (d ! 0) + 8) d))"
proof -
  obtain b r where d: "d = b # r" using assms by (cases d) (auto simp: udp_packet_def)
  let ?h = "header_len (d ! 0)"
  have h: "4 * unat (b AND 0xF) = ?h" by (simp add: d header_len_def mult.commute)
  have a: "int (length d) - int ?h - 8 = int (length d - ?h - 8)" using assms by (simp add: udp_packet_def)
  have len: "unat (word_of_int (int (length d) - int ?h - 8) :: u16) = length d - ?h - 8"
    unfolding a using assms by (simp only: of_int_of_nat_eq unat_of_nat) (auto simp: udp_packet_def intro!: mod_less)
  have "processUdp d = do {
      src \<leftarrow> CPY_IPV4 d IPV4_OFF_SRC; dst \<leftarrow> CPY_IPV4 d IPV4_OFF_DST; sport \<leftarrow> read16 d ?h; dport \<leftarrow> read16 d (?h + 2);
      payload \<leftarrow> read_bytes d (?h + 8) (unat (word_of_int (int (length d) - int ?h - 8) :: u16));
      Some (UdpPacket src sport dst dport payload) }"
    using assms h unfolding processUdp_def by (simp add: d udp_packet_def Let_def)
  then show ?thesis using assms unfolding len
    by (simp add: numeral_3_eq_3 udp_packet_def CPY_IPV4_Some read16_Some read_bytes_Some window_def udp_sport_def udp_dport_def)
qed

section \<open>Properties\<close>

text \<open>
  C15.  The gateway is a translator of UDP.  A UDP packet of the console leaves through one socket, with its destination
  and its payload.  Whatever else passes through the gateway in the next thirty seconds, a datagram that arrives at this
  socket is sent to the address and port the packet came from, with the datagram's sender as its source; and at no time
  is a datagram of this socket sent to anybody else.
\<close>

theorem gateway_udp_round_trip:
  assumes "udp_packet d" "length eth = 14" "gw_proxy g = flows es new_DirectProxy"
  shows "\<exists>g1 n. gateway_on_packet t (eth @ d) g = Some g1 \<and>
    dp_out (gw_proxy g1) = dp_out (gw_proxy g) @ [(n, ip_at d 16, udp_dport d, drop (header_len (d ! 0) + 8) d)] \<and>
    (\<forall>g2 es2. gw_proxy g2 = flows es2 (gw_proxy g1) \<longrightarrow>
       fst (direct_recv t2 n (gw_proxy g2)) \<in> {None, Some (ip_at d 12, udp_sport d)} \<and>
       ((\<forall>x \<in> set es2. t \<le> fst x \<and> fst x \<le> t + 30) \<longrightarrow>
          (\<exists>p. gateway_reply e t2 n from_ip from_port r (g2, lp) =
             map_option (\<lambda>(_, lp'). (g2\<lparr>gw_proxy := p\<rparr>, lp'))
               (send_udp_ex e from_ip from_port (ip_at d 12) (udp_sport d) [(r, word_of_nat (length r))] lp))))"
proof -
  let ?k = "(ip_at d 12, udp_sport d)"
  let ?p = "direct_udpSend t (ip_at d 12) (udp_sport d) (ip_at d 16) (udp_dport d) (drop (header_len (d ! 0) + 8) d) (gw_proxy g)"
  have ok: "flows_ok (gw_proxy g)" using assms(3) flows_keep_ok [OF flows_new] by simp
  have ok1: "flows_ok ?p" using flow_step_ok [OF ok, of "(t, FlowSend _ _ _ _ _)"] by simp
  obtain n where n: "dp_out ?p = dp_out (gw_proxy g) @ [(n, ip_at d 16, udp_dport d, drop (header_len (d ! 0) + 8) d)]" "has_flow t ?k n ?p" "n < dp_sockets ?p"
    using udpSend_has_flow [OF ok] by blast
  have step: "gateway_on_packet t (eth @ d) g = Some (g\<lparr>gw_proxy := ?p\<rparr>)"
    using assms(2) by (simp add: gateway_on_packet_def gateway_onPacket_def processUdp_packet [OF assms(1)])
  have own: "k = ?k" if m: "(k, u) \<in> set (dp_table (flows es2 ?p))" "du_sock u = n" for es2 k u
  proof -
    obtain u' where u': "(k, u') \<in> set (dp_table ?p)" "du_sock u' = n" using flows_owner [OF ok1 n(3) m] by blast
    obtain v where "(?k, v) \<in> set (dp_table ?p)" "du_sock v = n" using n(2) by (auto simp: has_flow_def dest: map_of_SomeD)
    then show ?thesis using flows_okD(4) [OF ok1 u'(1)] u'(2) by simp
  qed
  have recv: "fst (direct_recv t2 n (flows es2 ?p)) \<in> {None, Some ?k}" for es2
  proof (cases rule: direct_recv_cases [where p = "flows es2 ?p" and t = t2 and n = n])
    case (flow k u)
    then show ?thesis using own [OF flow(1,2)] flows_okD(2) [OF flows_keep_ok [OF ok1] flow(1)] by simp
  qed simp
  have reply: "\<exists>p. gateway_reply e t2 n from_ip from_port r (g2, lp) = map_option (\<lambda>(_, lp'). (g2\<lparr>gw_proxy := p\<rparr>, lp'))
      (send_udp_ex e from_ip from_port (ip_at d 12) (udp_sport d) [(r, word_of_nat (length r))] lp)"
    if g2: "gw_proxy g2 = flows es2 ?p" and es2: "\<forall>x \<in> set es2. t \<le> fst x \<and> fst x \<le> t + 30" for g2 es2
  proof -
    obtain u where "(?k, u) \<in> set (dp_table (flows es2 ?p))" "du_sock u = n"
      using flows_keep [OF ok1 n(2) es2] by (auto simp: has_flow_def dest: map_of_SomeD)
    then obtain p2 where r: "direct_recv t2 n (flows es2 ?p) = (Some ?k, p2)"
      using recv [of es2] by (cases rule: direct_recv_cases [where p = "flows es2 ?p" and t = t2 and n = n]) auto
    show ?thesis
      by (rule exI [of _ p2], cases "send_udp_ex e from_ip from_port (ip_at d 12) (udp_sport d) [(r, word_of_nat (length r))] lp")
        (auto simp: gateway_reply_def g2 r)
  qed
  show ?thesis using step n(1) recv reply by (intro exI [of _ "g\<lparr>gw_proxy := ?p\<rparr>"] exI [of _ n]) simp
qed

definition demo_udp_packet :: "byte list" where
  "demo_udp_packet = [0x45, 0, 0, 30, 0, 0, 0, 0, 64, 17, 0, 0, 10, 147, 17, 77, 8, 8, 8, 8, 0xC0, 0, 0, 53, 0, 10, 0, 0, 1, 2]"

lemma demo_udp_packet:
  "udp_packet demo_udp_packet" "ip_at demo_udp_packet 12 = IP4 10 147 17 77" "ip_at demo_udp_packet 16 = IP4 8 8 8 8"
  "udp_sport demo_udp_packet = 0xC000" "udp_dport demo_udp_packet = 53" "drop (header_len (demo_udp_packet ! 0) + 8) demo_udp_packet = [1, 2]"
  by (simp_all add: udp_packet_def demo_udp_packet_def header_len_def ip_at_def udp_sport_def udp_dport_def be16_def)

theorem gateway_udp_round_trip_witness:
  "\<exists>g1 n p. gateway_on_packet 100 (replicate 14 0 @ demo_udp_packet) (gateway_init False) = Some g1 \<and>
     dp_out (gw_proxy g1) = [(n, IP4 8 8 8 8, 53, [1, 2])] \<and>
     gateway_reply demo_env 110 n (IP4 8 8 8 8) 53 [9] (g1, demo_relay) =
       map_option (\<lambda>(_, lp'). (g1\<lparr>gw_proxy := p\<rparr>, lp')) (send_udp_ex demo_env (IP4 8 8 8 8) 53 (IP4 10 147 17 77) 0xC000 [([9], 1)] demo_relay)"
proof -
  have g: "gw_proxy (gateway_init False) = flows [] new_DirectProxy" by (simp add: gateway_init_def flows_def)
  have out0: "dp_out (gw_proxy (gateway_init False)) = []" by (simp add: gateway_init_def new_DirectProxy_def)
  have nil: "gw_proxy x = flows [] (gw_proxy x)" for x by (simp add: flows_def)
  show ?thesis
    using gateway_udp_round_trip [OF demo_udp_packet(1) length_replicate [of 14 0] g, of 100 110 demo_env "IP4 8 8 8 8" 53 "[9]" demo_relay]
    unfolding demo_udp_packet out0 using nil by (elim exE conjE) (fastforce simp: flows_def)
qed

text \<open>
  The payload is everything behind the UDP header that was captured: bytes that the Ethernet adapter added to a short
  packet are sent along.
\<close>

lemma padding_is_sent:
  assumes "udp_packet (d @ pad)" "udp_packet d"
  shows "\<exists>src sport dst dport. processUdp (d @ pad) = Some (UdpPacket src sport dst dport (drop (header_len (d ! 0) + 8) d @ pad))"
proof -
  have "d \<noteq> []" using assms(2) by (auto simp: udp_packet_def)
  then show ?thesis using processUdp_packet [OF assms(1)] assms(2) by (simp add: udp_packet_def nth_append)
qed

end
