(* ===== verification/Socks5.thy ===== *)
theory Socks5
  imports Gateway "HOL-Library.Sublist"
begin

text \<open>
  The SOCKS5 proxy, \<^verbatim>\<open>src/proxy_socks5.cpp\<close>: the negotiation with the proxy server and the UDP flows over it.  A read of
  a value that was never written is \<^term>\<open>None\<close>.
\<close>

section \<open>Packing\<close>

text \<open>\<^verbatim>\<open>ProtocolPacker\<close>: a write that does not fit is refused; the rest of the buffer has no value.\<close>

definition pack_write :: "nat \<Rightarrow> byte list \<Rightarrow> byte list \<Rightarrow> byte list" where
  "pack_write n v acc = (if length acc + length v > n then acc else acc @ v)"

definition pack :: "nat \<Rightarrow> byte list list \<Rightarrow> byte list" where
  "pack n vs = fold (pack_write n) vs []"

text \<open>\<^verbatim>\<open>ProtocolUnpacker\<close>: a read that does not fit leaves the variable without a value.\<close>

definition unpack_read :: "nat \<Rightarrow> byte list \<times> nat \<Rightarrow> byte list option \<times> byte list \<times> nat" where
  "unpack_read k u = (let (d, off) = u in if off + k > length d then (None, d, off) else (Some (window d off k), d, off + k))"

section \<open>The negotiation\<close>

datatype ErrCode = VersionMismatch | UnexpectMethod | UnexpectResponse | UnexpectAddressType | UnexpectLength

datatype s5_phase = S5Connecting | S5Method | S5Request | S5Ready ip4 u16 | S5Failed ErrCode

record Socks5Protocol =
  s5_phase :: s5_phase
  s5_command :: byte
  s5_ip :: ip4
  s5_port :: u16
  s5_written :: "byte list list"
  s5_closed :: bool

text \<open>\<^verbatim>\<open>associate\<close> is the command 3 and \<^verbatim>\<open>connect\<close> is the command 1.\<close>

definition s5_start :: "byte \<Rightarrow> ip4 \<Rightarrow> u16 \<Rightarrow> Socks5Protocol" where
  "s5_start cmd ip prt = \<lparr>s5_phase = S5Connecting, s5_command = cmd, s5_ip = ip, s5_port = prt, s5_written = [], s5_closed = False\<rparr>"

definition s5_fail :: "ErrCode \<Rightarrow> Socks5Protocol \<Rightarrow> Socks5Protocol" where
  "s5_fail err s = s\<lparr>s5_phase := S5Failed err, s5_closed := True\<rparr>"

definition s5_connected :: "Socks5Protocol \<Rightarrow> Socks5Protocol" where
  "s5_connected s =
     (if s5_phase s = S5Connecting then s\<lparr>s5_phase := S5Method, s5_written := s5_written s @ [pack 3 [[5], [1], [0]]]\<rparr> else s)"

definition s5_method :: "byte list \<Rightarrow> Socks5Protocol \<Rightarrow> Socks5Protocol" where
  "s5_method d s =
     (if length d \<noteq> 2 then s5_fail UnexpectLength s
      else if d ! 0 \<noteq> 5 then s5_fail VersionMismatch s
      else if d ! 1 \<noteq> 0 then s5_fail UnexpectMethod s
      else s\<lparr>s5_phase := S5Request,
             s5_written := s5_written s @ [pack 10 [[5], [s5_command s], [0], [1], ip_bytes (s5_ip s), net16 (s5_port s)]]\<rparr>)"

definition s5_reply :: "byte list \<Rightarrow> Socks5Protocol \<Rightarrow> Socks5Protocol" where
  "s5_reply d s =
     (if length d \<noteq> 10 then s5_fail UnexpectLength s
      else if d ! 0 \<noteq> 5 then s5_fail VersionMismatch s
      else if d ! 1 \<noteq> 0 then s5_fail UnexpectResponse s
      else if d ! 3 \<noteq> 1 then s5_fail UnexpectAddressType s
      else s\<lparr>s5_phase := S5Ready (ip_at d 4) (be16 (d ! 8) (d ! 9))\<rparr>)"

text \<open>Data of the proxy server before the command is granted; each callback is taken once.\<close>

definition s5_data :: "byte list \<Rightarrow> Socks5Protocol \<Rightarrow> Socks5Protocol" where
  "s5_data d s = (case s5_phase s of S5Method \<Rightarrow> s5_method d s | S5Request \<Rightarrow> s5_reply d s | _ \<Rightarrow> s)"

section \<open>UDP flows\<close>

definition UDPHeaderSize :: nat where "UDPHeaderSize = 10"

definition s5_udp_pack :: "ip4 \<Rightarrow> u16 \<Rightarrow> byte list \<Rightarrow> byte list" where
  "s5_udp_pack dst dport d = pack (UDPHeaderSize + length d) [net16 0, [0], [1], ip_bytes dst, net16 dport, d]"

text \<open>
  The callback of the socket up to \<^verbatim>\<open>send_udp_ex\<close>: \<open>Some None\<close> is an address type other than IPv4.  The part behind the
  header of a datagram that is shorter than the header is outside of the datagram.
\<close>

definition s5_udp_unpack :: "byte list \<Rightarrow> (ip4 \<times> u16 \<times> byte list) option option" where
  "s5_udp_unpack d =
     (let (rev, u) = unpack_read 2 (d, 0); (frag, u) = unpack_read 1 u; (atyp, u) = unpack_read 1 u
      in case atyp of
           None \<Rightarrow> None
         | Some a \<Rightarrow>
             if a \<noteq> [1] then Some None
             else (let (addr, u) = unpack_read 4 u; (prt, u) = unpack_read 2 u
                   in case (addr, prt) of
                        (Some x, Some y) \<Rightarrow> Some (Some (ip_at x 0, be16 (y ! 0) (y ! 1), drop UDPHeaderSize d))
                      | _ \<Rightarrow> None))"

record Socks5ProxyUdp =
  su_sock :: nat
  su_src :: ip4
  su_srcport :: u16
  su_protocol :: Socks5Protocol
  su_isReady :: bool
  su_server :: "ip4 \<times> u16"
  su_waiting :: "byte list option"
  su_expire_at :: int
  su_sent :: "((ip4 \<times> u16) \<times> byte list) list"

definition socks_visit :: "int \<Rightarrow> Socks5ProxyUdp \<Rightarrow> Socks5ProxyUdp" where
  "socks_visit t u = u\<lparr>su_expire_at := t + PROXY_UDP_TABLE_TTL\<rparr>"

definition socks_isExpire :: "int \<Rightarrow> Socks5ProxyUdp \<Rightarrow> bool" where
  "socks_isExpire t u \<longleftrightarrow> su_expire_at u < t"

text \<open>\<^verbatim>\<open>init\<close> does not set the time of expiry; \<open>junk\<close> is what the new object holds there.\<close>

definition socks_init :: "int \<Rightarrow> ip4 \<times> u16 \<Rightarrow> ip4 \<Rightarrow> u16 \<Rightarrow> u16 \<Rightarrow> nat \<Rightarrow> Socks5ProxyUdp" where
  "socks_init junk server src sport dport sock =
     \<lparr>su_sock = sock, su_src = src, su_srcport = sport, su_protocol = s5_start 3 (IP4 0 0 0 0) dport, su_isReady = False,
      su_server = server, su_waiting = None, su_expire_at = junk, su_sent = []\<rparr>"

definition socks_send :: "int \<Rightarrow> ip4 \<Rightarrow> u16 \<Rightarrow> byte list \<Rightarrow> Socks5ProxyUdp \<Rightarrow> Socks5ProxyUdp" where
  "socks_send t dst dport d u =
     (let x = s5_udp_pack dst dport d
      in socks_visit t
           (if su_isReady u then u\<lparr>su_sent := su_sent u @ [(su_server u, x)]\<rparr> else u\<lparr>su_waiting := Some x\<rparr>))"

text \<open>Events of the control connection; \<^verbatim>\<open>udpReadyCallback\<close> runs when the command is granted.\<close>

datatype s5_event = Connected | Received "byte list"

definition socks_ready :: "int \<Rightarrow> ip4 \<Rightarrow> u16 \<Rightarrow> Socks5ProxyUdp \<Rightarrow> Socks5ProxyUdp" where
  "socks_ready t ip prt u =
     (let u = socks_visit t (u\<lparr>su_server := (ip, prt), su_isReady := True\<rparr>)
      in case su_waiting u of None \<Rightarrow> u | Some x \<Rightarrow> u\<lparr>su_sent := su_sent u @ [(su_server u, x)], su_waiting := None\<rparr>)"

definition socks_control :: "int \<Rightarrow> s5_event \<Rightarrow> Socks5ProxyUdp \<Rightarrow> Socks5ProxyUdp" where
  "socks_control t ev u =
     (let p = su_protocol u; p' = (case ev of Connected \<Rightarrow> s5_connected p | Received d \<Rightarrow> s5_data d p); u = u\<lparr>su_protocol := p'\<rparr>
      in case (s5_phase p, s5_phase p') of
           (S5Request, S5Ready ip prt) \<Rightarrow> socks_ready t ip prt u
         | _ \<Rightarrow> u)"

definition socks_recv :: "env \<Rightarrow> int \<Rightarrow> byte list \<Rightarrow> Socks5ProxyUdp \<times> lan_play \<Rightarrow> (Socks5ProxyUdp \<times> lan_play) option" where
  "socks_recv e t d s =
     (let (u, lp) = s
      in do { r \<leftarrow> s5_udp_unpack d;
              case r of
                None \<Rightarrow> Some (u, lp)
              | Some (from_ip, from_port, x) \<Rightarrow>
                  do { (_, lp) \<leftarrow> send_udp_ex e from_ip from_port (su_src u) (su_srcport u) [(x, word_of_nat (length x))] lp;
                       Some (socks_visit t u, lp) } })"

record Socks5Proxy =
  sp_server :: "ip4 \<times> u16"
  sp_table :: "Socks5ProxyUdp udp_table"
  sp_sockets :: nat

definition socks_udpSend :: "int \<Rightarrow> int \<Rightarrow> ip4 \<Rightarrow> u16 \<Rightarrow> ip4 \<Rightarrow> u16 \<Rightarrow> byte list \<Rightarrow> Socks5Proxy \<Rightarrow> Socks5Proxy" where
  "socks_udpSend junk t src sport dst dport d p =
     (let (new, item, table) = getUdp (socks_isExpire t) (socks_init junk (sp_server p) src sport dport (sp_sockets p)) (src, sport) (sp_table p)
      in p\<lparr>sp_table := AList.update (src, sport) (socks_send t dst dport d item) table,
           sp_sockets := (if new then Suc (sp_sockets p) else sp_sockets p)\<rparr>)"

text \<open>What happens to one flow, with the time of each event.\<close>

datatype socks_event = Control s5_event | Send ip4 u16 "byte list"

fun socks_step :: "int \<times> socks_event \<Rightarrow> Socks5ProxyUdp \<Rightarrow> Socks5ProxyUdp" where
  "socks_step (t, Control ev) u = socks_control t ev u"
| "socks_step (t, Send dst dport d) u = socks_send t dst dport d u"

definition socks_run :: "(int \<times> socks_event) list \<Rightarrow> Socks5ProxyUdp \<Rightarrow> Socks5ProxyUdp" where
  "socks_run es u = fold socks_step es u"

interpretation socks: udp_class socks_isExpire socks_visit
  by unfold_locales (simp add: socks_isExpire_def socks_visit_def)

section \<open>The header\<close>

lemma s5_udp_pack_bytes: "s5_udp_pack dst dport d = [0, 0, 0, 1] @ ip_bytes dst @ net16 dport @ d"
proof -
  have "net16 0 = [0, 0]" by code_simp
  then show ?thesis by (cases dst) (simp add: s5_udp_pack_def pack_def pack_write_def UDPHeaderSize_def)
qed

lemma s5_udp_unpack_pack: "s5_udp_unpack (s5_udp_pack dst dport d) = Some (Some (dst, dport, d))"
  unfolding s5_udp_pack_bytes
  by (cases dst) (simp add: s5_udp_unpack_def unpack_read_def window_def net16_def ip_at_def UDPHeaderSize_def)

text \<open>A datagram of the proxy server that is shorter than the header: the callback uses variables it did not set.\<close>

lemma s5_udp_unpack_short: "length d < 4 \<or> length d < 10 \<and> d ! 3 = 1 \<Longrightarrow> s5_udp_unpack d = None"
  by (auto simp: s5_udp_unpack_def unpack_read_def window_def take_Suc_conv_app_nth take_Suc hd_drop_conv_nth numeral_3_eq_3)

text \<open>A datagram of the proxy server reaches the console with the sender that its header names.\<close>

lemma socks_recv_reply:
  assumes "send_udp_ex e ip prt (su_src u) (su_srcport u) [(x, word_of_nat (length x))] lp = Some (r, lp')"
  shows "socks_recv e t (s5_udp_pack ip prt x) (u, lp) = Some (socks_visit t u, lp')"
  using assms by (simp add: socks_recv_def s5_udp_unpack_pack)

section \<open>Sends before and after the grant\<close>

type_synonym datagram = "ip4 \<times> u16 \<times> byte list"

fun wrapped :: "datagram \<Rightarrow> byte list" where
  "wrapped (dst, dport, d) = [0, 0, 0, 1] @ ip_bytes dst @ net16 dport @ d"

definition sends :: "(int \<times> datagram) list \<Rightarrow> (int \<times> socks_event) list" where
  "sends xs = map (\<lambda>(t, dst, dport, d). (t, Send dst dport d)) xs"

definition last_only :: "'a list \<Rightarrow> 'a list" where
  "last_only xs = (if xs = [] then [] else [last xs])"

definition s5_granted :: "byte list \<Rightarrow> bool" where
  "s5_granted r \<longleftrightarrow> length r = 10 \<and> r ! 0 = 5 \<and> r ! 1 = 0 \<and> r ! 3 = 1"

definition s5_bound :: "byte list \<Rightarrow> ip4 \<times> u16" where
  "s5_bound r = (ip_at r 4, be16 (r ! 8) (r ! 9))"

lemma socks_run_simps [simp]:
  "socks_run [] u = u" "socks_run (e # es) u = socks_run es (socks_step e u)" "socks_run (es @ fs) u = socks_run fs (socks_run es u)"
  by (simp_all add: socks_run_def)

lemma sends_simps [simp]:
  "sends [] = []" "sends ((t, dst, dport, d) # xs) = (t, Send dst dport d) # sends xs"
  by (simp_all add: sends_def)

lemma socks_send_fields [simp]:
  "su_protocol (socks_send t dst dport d u) = su_protocol u" "su_isReady (socks_send t dst dport d u) = su_isReady u"
  "su_server (socks_send t dst dport d u) = su_server u"
  "su_waiting (socks_send t dst dport d u) = (if su_isReady u then su_waiting u else Some (wrapped (dst, dport, d)))"
  "su_sent (socks_send t dst dport d u) = (if su_isReady u then su_sent u @ [(su_server u, wrapped (dst, dport, d))] else su_sent u)"
  by (simp_all add: socks_send_def socks_visit_def s5_udp_pack_bytes Let_def)

lemma socks_sends_fields [simp]:
  "su_protocol (socks_run (sends xs) u) = su_protocol u" "su_isReady (socks_run (sends xs) u) = su_isReady u"
  "su_server (socks_run (sends xs) u) = su_server u"
  by (induction xs arbitrary: u) auto

lemma sends_waiting:
  "\<not> su_isReady u \<Longrightarrow> su_sent (socks_run (sends xs) u) = su_sent u \<and>
   su_waiting (socks_run (sends xs) u) = (if xs = [] then su_waiting u else Some (wrapped (snd (last xs))))"
  by (induction xs arbitrary: u) auto

lemma sends_ready:
  "su_isReady u \<Longrightarrow> su_sent (socks_run (sends xs) u) = su_sent u @ map (\<lambda>x. (su_server u, wrapped (snd x))) xs"
  by (induction xs arbitrary: u) auto

section \<open>The control connection\<close>

lemma connected_step:
  assumes "s5_phase (su_protocol u) = S5Connecting"
  shows "socks_control t Connected u = u\<lparr>su_protocol := (su_protocol u)\<lparr>s5_phase := S5Method, s5_written := s5_written (su_protocol u) @ [[5, 1, 0]]\<rparr>\<rparr>"
  using assms by (simp add: socks_control_def s5_connected_def Let_def pack_def pack_write_def)

lemma method_step:
  assumes "s5_phase (su_protocol u) = S5Method"
  shows "socks_control t (Received [5, 0]) u = u\<lparr>su_protocol := (su_protocol u)\<lparr>s5_phase := S5Request,
    s5_written := s5_written (su_protocol u) @ [[5, s5_command (su_protocol u), 0, 1] @ ip_bytes (s5_ip (su_protocol u)) @ net16 (s5_port (su_protocol u))]\<rparr>\<rparr>"
  using assms by (simp add: socks_control_def s5_data_def s5_method_def Let_def pack_def pack_write_def)

lemma granted_step:
  assumes "s5_phase (su_protocol u) = S5Request" "s5_granted r"
  shows "socks_control t (Received r) u =
    socks_ready t (fst (s5_bound r)) (snd (s5_bound r)) (u\<lparr>su_protocol := (su_protocol u)\<lparr>s5_phase := S5Ready (fst (s5_bound r)) (snd (s5_bound r))\<rparr>\<rparr>)"
  using assms by (simp add: socks_control_def s5_data_def s5_reply_def Let_def s5_granted_def s5_bound_def)

lemma socks_ready_fields:
  "su_isReady (socks_ready t ip prt u)" "su_server (socks_ready t ip prt u) = (ip, prt)"
  "su_protocol (socks_ready t ip prt u) = su_protocol u"
  "su_sent (socks_ready t ip prt u) = su_sent u @ (case su_waiting u of None \<Rightarrow> [] | Some x \<Rightarrow> [((ip, prt), x)])"
  by (simp_all add: socks_ready_def socks_visit_def Let_def split: option.split)

text \<open>What the control connection must have said before a flow may send; \<open>cs\<close> are its events so far.\<close>

definition asked :: "s5_event list \<Rightarrow> Socks5ProxyUdp \<Rightarrow> bool" where
  "asked cs u \<longleftrightarrow>
     (case s5_phase (su_protocol u) of
        S5Method \<Rightarrow> subseq [Connected] cs
      | S5Request \<Rightarrow> subseq [Connected, Received [5, 0]] cs
      | S5Ready ip prt \<Rightarrow> \<exists>r. s5_granted r \<and> s5_bound r = (ip, prt) \<and> subseq [Connected, Received [5, 0], Received r] cs
      | _ \<Rightarrow> True) \<and>
     (su_isReady u \<longrightarrow> s5_phase (su_protocol u) = S5Ready (fst (su_server u)) (snd (su_server u))) \<and>
     (su_sent u \<noteq> [] \<longrightarrow> su_isReady u) \<and> (\<forall>x \<in> set (su_sent u). fst x = su_server u)"

fun control_of :: "int \<times> socks_event \<Rightarrow> s5_event list" where
  "control_of (t, Control ev) = [ev]"
| "control_of (t, Send dst dport d) = []"

lemma subseq_snoc: "subseq xs cs \<Longrightarrow> subseq xs (cs @ [c])" "subseq xs cs \<Longrightarrow> subseq (xs @ [c]) (cs @ [c])"
  by (simp_all add: subseq_rev_drop_many)

lemma asked_send: "asked cs u \<Longrightarrow> asked cs (socks_send t dst dport d u)"
  unfolding asked_def by (simp only: socks_send_fields) auto

lemma method_reply: "length d = 2 \<Longrightarrow> d ! 0 = 5 \<Longrightarrow> d ! 1 = 0 \<Longrightarrow> d = [5, 0]"
  by (auto simp: length_Suc_conv numeral_2_eq_2)

lemma asked_other:
  assumes "asked cs u" "\<forall>ip prt. s5_phase p \<noteq> S5Ready ip prt" "\<not> su_isReady u"
    "s5_phase p = S5Method \<Longrightarrow> subseq [Connected] cs'" "s5_phase p = S5Request \<Longrightarrow> subseq [Connected, Received [5, 0]] cs'"
  shows "asked cs' (u\<lparr>su_protocol := p\<rparr>)"
  using assms by (cases "s5_phase p") (auto simp: asked_def)

lemma asked_same: "asked cs u \<Longrightarrow> asked (cs @ [c]) u"
  unfolding asked_def by (cases "s5_phase (su_protocol u)") (auto intro: subseq_snoc)

lemma not_ready: "asked cs u \<Longrightarrow> \<forall>ip prt. s5_phase (su_protocol u) \<noteq> S5Ready ip prt \<Longrightarrow> \<not> su_isReady u"
  by (auto simp: asked_def)

lemma method_cases:
  assumes "s5_phase (su_protocol u) = S5Method"
  shows "d = [5, 0] \<or> (\<exists>err. socks_control t (Received d) u = u\<lparr>su_protocol := s5_fail err (su_protocol u)\<rparr>)"
  using assms method_reply [of d] by (auto simp: socks_control_def s5_data_def s5_method_def s5_fail_def Let_def)

lemma request_cases:
  assumes "s5_phase (su_protocol u) = S5Request"
  shows "s5_granted d \<or> (\<exists>err. socks_control t (Received d) u = u\<lparr>su_protocol := s5_fail err (su_protocol u)\<rparr>)"
  using assms by (auto simp: socks_control_def s5_data_def s5_reply_def s5_fail_def s5_granted_def Let_def)

lemma asked_failed:
  "asked cs u \<Longrightarrow> \<not> su_isReady u \<Longrightarrow> asked cs' (u\<lparr>su_protocol := s5_fail err (su_protocol u)\<rparr>)"
  by (erule asked_other) (auto simp: s5_fail_def)

lemma asked_connected:
  assumes "asked cs u"
  shows "asked (cs @ [Connected]) (socks_control t Connected u)"
proof (cases "s5_phase (su_protocol u) = S5Connecting")
  case True
  have "subseq [Connected] (cs @ [Connected])" using subseq_snoc(2) [of "[]" cs] by simp
  then show ?thesis unfolding connected_step [OF True] using assms True not_ready [OF assms] by (intro asked_other [OF assms]) auto
next
  case False
  then have "socks_control t Connected u = u"
    by (cases "s5_phase (su_protocol u)") (simp_all add: socks_control_def s5_connected_def Let_def)
  then show ?thesis using assms by (simp add: asked_same)
qed

lemma asked_received:
  assumes "asked cs u"
  shows "asked (cs @ [Received d]) (socks_control t (Received d) u)"
proof -
  consider (greeted) "s5_phase (su_protocol u) = S5Method" | (request) "s5_phase (su_protocol u) = S5Request"
    | (other) "s5_phase (su_protocol u) \<noteq> S5Method" "s5_phase (su_protocol u) \<noteq> S5Request" by blast
  then show ?thesis
  proof cases
    case greeted
    then have r: "\<not> su_isReady u" "subseq [Connected] cs" using assms not_ready [OF assms] by (auto simp: asked_def)
    then have "subseq [Connected, Received [5, 0]] (cs @ [Received [5, 0]])" using subseq_snoc(2) [of "[Connected]" cs] by simp
    then have "asked (cs @ [Received [5, 0]]) (socks_control t (Received [5, 0]) u)"
      unfolding method_step [OF greeted] using r by (intro asked_other [OF assms]) auto
    then show ?thesis using method_cases [OF greeted, of d t] asked_failed [OF assms r(1)] by auto
  next
    case request
    then have r: "\<not> su_isReady u" "subseq [Connected, Received [5, 0]] cs" "su_sent u = []" using assms not_ready [OF assms] by (auto simp: asked_def)
    then have "subseq [Connected, Received [5, 0], Received d] (cs @ [Received d])" using subseq_snoc(2) [of "[Connected, Received [5, 0]]" cs] by simp
    then have "asked (cs @ [Received d]) (socks_control t (Received d) u)" if "s5_granted d"
      unfolding granted_step [OF request that] using r(3) that
      by (auto simp: asked_def socks_ready_fields split: option.split intro!: exI [of _ d])
    then show ?thesis using request_cases [OF request, of d t] asked_failed [OF assms r(1)] by auto
  next
    case other
    then have "socks_control t (Received d) u = u"
      by (cases "s5_phase (su_protocol u)") (simp_all add: socks_control_def s5_data_def Let_def)
    then show ?thesis using assms by (simp add: asked_same)
  qed
qed

lemma asked_run: "asked cs u \<Longrightarrow> asked (cs @ concat (map control_of es)) (socks_run es u)"
proof (induction es arbitrary: cs u)
  case (Cons e es)
  obtain t ev where e: "e = (t, ev)" by (cases e)
  have "asked (cs @ control_of e) (socks_step e u)"
  proof (cases ev)
    case (Control c)
    then show ?thesis using Cons.prems e by (cases c) (simp_all add: asked_connected asked_received)
  qed (use Cons.prems e in \<open>simp add: asked_send\<close>)
  from Cons.IH [OF this] show ?case by simp
qed simp

lemma asked_init: "asked [] (socks_init junk server src sport dport sock)"
  by (simp add: asked_def socks_init_def s5_start_def)

section \<open>Properties\<close>

text \<open>
  C16.  A UDP flow over the SOCKS5 proxy.  Packets of the console may come at any time of the negotiation.  The proxy is
  asked with the two messages of the protocol; of the packets that came before its grant the last one is sent, and every
  later packet, in order, each once, to the address the grant names and under a header with the packet's destination,
  from which the destination and the payload can be read back.
\<close>

theorem socks_session:
  assumes "s5_granted r"
    "u = socks_run (sends a @ (t1, Control Connected) # sends b @ (t2, Control (Received [5, 0])) # sends c @ (t3, Control (Received r)) # sends later)
           (socks_init junk server src sport dport sock)"
  shows "s5_written (su_protocol u) = [[5, 1, 0], [5, 3, 0, 1, 0, 0, 0, 0] @ net16 dport] \<and>
    su_sent u = map (\<lambda>x. (s5_bound r, wrapped (snd x))) (last_only (a @ b @ c) @ later) \<and>
    map (s5_udp_unpack \<circ> snd) (su_sent u) = map (Some \<circ> Some \<circ> snd) (last_only (a @ b @ c) @ later)"
proof -
  define u0 where "u0 = socks_run (sends a) (socks_init junk server src sport dport sock)"
  define u1 where "u1 = socks_run (sends b) (socks_control t1 Connected u0)"
  define u2 where "u2 = socks_run (sends c) (socks_control t2 (Received [5, 0]) u1)"
  define u3 where "u3 = socks_control t3 (Received r) u2"
  have u: "u = socks_run (sends later) u3" by (simp add: assms(2) u0_def u1_def u2_def u3_def)
  have 0: "su_protocol u0 = s5_start 3 (IP4 0 0 0 0) dport" "\<not> su_isReady u0" "su_sent u0 = []"
    "su_waiting u0 = (if a = [] then None else Some (wrapped (snd (last a))))"
    using sends_waiting [of "socks_init junk server src sport dport sock" a] by (simp_all add: u0_def) (simp_all add: socks_init_def)
  have p: "s5_phase (su_protocol u0) = S5Connecting" by (simp add: 0 s5_start_def)
  have 1: "su_protocol u1 = (s5_start 3 (IP4 0 0 0 0) dport)\<lparr>s5_phase := S5Method, s5_written := [[5, 1, 0]]\<rparr>" "\<not> su_isReady u1" "su_sent u1 = []"
    "su_waiting u1 = (if b = [] then su_waiting u0 else Some (wrapped (snd (last b))))"
    using sends_waiting [of "socks_control t1 Connected u0" b] 0
    by (simp_all add: u1_def connected_step [OF p]) (simp add: s5_start_def)
  have p: "s5_phase (su_protocol u1) = S5Method" by (simp add: 1)
  have 2: "su_protocol u2 = (s5_start 3 (IP4 0 0 0 0) dport)\<lparr>s5_phase := S5Request, s5_written := [[5, 1, 0], [5, 3, 0, 1, 0, 0, 0, 0] @ net16 dport]\<rparr>"
    "\<not> su_isReady u2" "su_sent u2 = []" "su_waiting u2 = (if c = [] then su_waiting u1 else Some (wrapped (snd (last c))))"
    using sends_waiting [of "socks_control t2 (Received [5, 0]) u1" c] 1
    by (simp_all add: u2_def method_step [OF p]) (simp add: s5_start_def)
  have w: "(case su_waiting u2 of None \<Rightarrow> [] | Some x \<Rightarrow> [((fst (s5_bound r), snd (s5_bound r)), x)]) = map (\<lambda>x. (s5_bound r, wrapped (snd x))) (last_only (a @ b @ c))"
    by (simp add: 0 1 2 last_only_def)
  have p: "s5_phase (su_protocol u2) = S5Request" by (simp add: 2)
  have 3: "s5_written (su_protocol u3) = [[5, 1, 0], [5, 3, 0, 1, 0, 0, 0, 0] @ net16 dport]" "su_isReady u3" "su_server u3 = s5_bound r"
    "su_sent u3 = map (\<lambda>x. (s5_bound r, wrapped (snd x))) (last_only (a @ b @ c))"
    using w 2(1-3) by (simp_all add: u3_def granted_step [OF p assms(1)] socks_ready_fields)
  have unwrap: "s5_udp_unpack (wrapped x) = Some (Some x)" for x
    using s5_udp_unpack_pack by (cases x) (simp add: s5_udp_pack_bytes)
  show ?thesis using 3 sends_ready [OF 3(2), of later] by (simp add: u unwrap o_def)
qed

text \<open>The last of two packets before the grant is sent, and one after it.\<close>

theorem socks_session_witness:
  "map (s5_udp_unpack \<circ> snd) (su_sent (socks_run
     (sends [(0, IP4 8 8 8 8, 53, [1])] @ (1, Control Connected) # sends [] @ (2, Control (Received [5, 0])) # sends [(2, IP4 8 8 4 4, 53, [2])] @
      (3, Control (Received [5, 0, 0, 1, 127, 0, 0, 1, 4, 56])) # sends [(4, IP4 9 9 9 9, 53, [3])])
     (socks_init 0 (IP4 127 0 0 1, 1080) (IP4 10 13 37 2) 4000 53 0))) = [Some (Some (IP4 8 8 4 4, 53, [2])), Some (Some (IP4 9 9 9 9, 53, [3]))]"
proof -
  have "s5_granted [5, 0, 0, 1, 127, 0, 0, 1, 4, 56]" by code_simp
  note w = socks_session [OF this refl, of "[(0, IP4 8 8 8 8, 53, [1])]" 1 "[]" 2 "[(2, IP4 8 8 4 4, 53, [2])]" 3
      "[(4, IP4 9 9 9 9, 53, [3])]" 0 "(IP4 127 0 0 1, 1080)" "IP4 10 13 37 2" 4000 53 0, THEN conjunct2, THEN conjunct2]
  show ?thesis by (rule trans [OF w]) (simp add: last_only_def)
qed

text \<open>
  C34.  Nothing leaves through the SOCKS5 proxy without its consent: whatever the proxy server answers and whenever packets
  come, if a flow has sent anything then the server took the method without authentication, and then granted the
  association, and everything went to the address of that grant.
\<close>

theorem socks_needs_grant:
  assumes "x \<in> set (su_sent (socks_run es (socks_init junk server src sport dport sock)))"
  shows "\<exists>r. s5_granted r \<and> fst x = s5_bound r \<and> subseq [Connected, Received [5, 0], Received r] (concat (map control_of es))"
proof -
  let ?u = "socks_run es (socks_init junk server src sport dport sock)"
  have i: "asked (concat (map control_of es)) ?u" using asked_run [OF asked_init] by simp
  then have "s5_phase (su_protocol ?u) = S5Ready (fst (su_server ?u)) (snd (su_server ?u))" "fst x = su_server ?u"
    using assms by (auto simp: asked_def)
  then show ?thesis using i by (auto simp: asked_def)
qed

theorem socks_needs_grant_witness:
  "\<exists>r. s5_granted r \<and> (IP4 127 0 0 1, 1080) = s5_bound r \<and>
     subseq [Connected, Received [5, 0], Received r] [Connected, Received [5, 0], Received [5, 0, 0, 1, 127, 0, 0, 1, 4, 56]]"
proof -
  let ?es = "[(0, Send (IP4 8 8 8 8) 53 [1]), (1, Control Connected), (2, Control (Received [5, 0])),
    (3, Control (Received [5, 0, 0, 1, 127, 0, 0, 1, 4, 56]))]"
  have "((IP4 127 0 0 1, 1080), wrapped (IP4 8 8 8 8, 53, [1])) \<in> set (su_sent (socks_run ?es (socks_init 0 (IP4 127 0 0 1, 1080) (IP4 10 13 37 2) 4000 53 0)))"
    by code_simp
  from socks_needs_grant [OF this] show ?thesis by simp
qed

end
