(* ===== verification/Spec2Isabelle.thy ===== *)
theory Spec2Isabelle
  imports Server_Session Dhcp_Session Console_Session Desktop_Session Rpc_Ws Socks5
begin

text \<open>
  \<^bold>\<open>Verification of the GRID0 relay.\<close>

  The program connects Nintendo Switch consoles on local Wi-Fi networks over a ZeroTier overlay.  Its parts:

  \<^item> the \<^emph>\<open>relay\<close> (\<^verbatim>\<open>src/\<close>), a C and C++ process with two capture adapters.  Frames of the console on the Wi-Fi side are
    translated to the relay's overlay address and sent to the peers; frames of the overlay are delivered to the console.
    It learns the console from its frames, looks for it by a sweep of ARP requests, can serve it an address by DHCP,
    answers ARP for the whole subnet, keeps the game ports of the host closed, and can also exchange packets with a
    relay server;
  \<^item> the \<^emph>\<open>relay server\<close> (\<^verbatim>\<open>server/src/\<close>), a TypeScript process that passes packets between relays and asks them to log in;
  \<^item> the \<^emph>\<open>desktop application\<close> (\<^verbatim>\<open>desktop/\<close>), which finds the adapters, validates the user's choice, builds the relay's
    command line, has a privileged helper run it, and follows its output;
  \<^item> the \<^emph>\<open>remote control\<close> (\<^verbatim>\<open>src/rpc/\<close>), which starts, stops and configures a relay over a socket.

  \<^bold>\<open>Conventions.\<close>  A handler is a function from the whole state to an option of the result and the new state.  \<^term>\<open>None\<close>
  stands for an access outside of an object, a failed assertion or an exception nobody catches, so a theorem that a
  handler returns \<^term>\<open>Some\<close> is a statement of memory safety.  Integers have the width of the source (\<^typ>\<open>8 word\<close>, \<^typ>\<open>16 word\<close>,
  \<^typ>\<open>32 word\<close>, \<^typ>\<open>64 word\<close>) wherever they can wrap.  Frames are lists of bytes.  Frames sent, datagrams sent and diagnostics are
  appended to an output list in the state.  Results of system calls, of libpcap, of libuv, of Qt, of Node.js and the
  clock are arguments or fields of an environment; no theorem assumes that they succeed unless it says so.

  \<^bold>\<open>The relay's theories.\<close>
  \<^item> \<^verbatim>\<open>Relay_Prelude\<close>, \<^verbatim>\<open>Wire\<close>: byte order, bounded reads and writes, offsets (\<^verbatim>\<open>helper.h\<close>, \<^verbatim>\<open>packet.h\<close>, \<^verbatim>\<open>config.h\<close>), shared
    lemmas and collections.
  \<^item> \<^verbatim>\<open>Checksum\<close>: the checksum routines of \<^verbatim>\<open>lan-play.c\<close> and \<^verbatim>\<open>ipv4/ipv4.c\<close>; they agree with each other and with the
    one's complement sum.
  \<^item> \<^verbatim>\<open>Arp_Cache\<close> (\<^verbatim>\<open>arp.c\<close>): the neighbour table, a refinement of a map.  \<^verbatim>\<open>Native_Udp\<close> (\<^verbatim>\<open>native-udp.c\<close>): the port guard.
    \<^verbatim>\<open>Captures\<close>: the diagnostic capture files.  \<^verbatim>\<open>Pcap_Loop\<close> (\<^verbatim>\<open>pcaploop.cpp\<close>, \<^verbatim>\<open>capture-name.h\<close>): choosing and opening
    adapters, sending.  \<^verbatim>\<open>Nintendo_Oui\<close>: the table of prefixes.  \<^verbatim>\<open>Options\<close> (\<^verbatim>\<open>main.c\<close>): the command line.
    \<^verbatim>\<open>Address\<close> (\<^verbatim>\<open>helper.c\<close>, \<^verbatim>\<open>lan-play.c\<close>): addresses as text.  \<^verbatim>\<open>Sha1\<close> (\<^verbatim>\<open>sha1.c\<close>): equal to the standard for every way
    of feeding the message in chunks of at most \<open>2 ^ 32 - 64\<close> bytes.
  \<^item> \<^verbatim>\<open>Lan_Play\<close>: \<^verbatim>\<open>struct lan_play\<close> as the record \<open>lan_play\<close>, the transmit paths and counters.  \<^verbatim>\<open>Packet\<close> (\<^verbatim>\<open>packet.c\<close>,
    \<^verbatim>\<open>arp.c\<close>, \<^verbatim>\<open>ipv4/\<close>): the packet layer.  \<^verbatim>\<open>Dhcp_Server\<close> (\<^verbatim>\<open>dhcp-server.c\<close>).  \<^verbatim>\<open>Relay\<close> (\<^verbatim>\<open>lan-play.c\<close>): both capture
    handlers, address translation, learning, delivery probe, discovery timer.  \<^verbatim>\<open>Init\<close>: \<^verbatim>\<open>lan_play_init\<close> with every early
    return as a value of \<open>init_error\<close>, and \<^verbatim>\<open>lan_play_close\<close>.  \<^verbatim>\<open>Lan_Client\<close> (\<^verbatim>\<open>lan-client.c\<close>): the client of the relay
    server, with fragmentation and login.
  \<^item> \<^verbatim>\<open>Relay_Safety\<close>: the step function \<open>relay_step\<close> over frames and ticks, the invariant \<open>run_ok\<close> and its preservation by
    every step; \<open>input_ok\<close> is the condition on the next input.  \<^verbatim>\<open>Forwarding\<close>: what the handlers put on the wire.  \<^verbatim>\<open>Discovery\<close>: the sweep.  \<^verbatim>\<open>Example\<close>: a concrete
    set-up on which the hypotheses of the properties hold.
  \<^item> \<^verbatim>\<open>Dhcp_Session\<close>, \<^verbatim>\<open>Console_Session\<close>, \<^verbatim>\<open>Server_Session\<close>: properties of whole exchanges, the last one between the
    client of \<^verbatim>\<open>Lan_Client\<close> and the server of \<^verbatim>\<open>Slp_Server\<close>.

  \<^bold>\<open>The other programs.\<close>
  \<^item> \<^verbatim>\<open>Slp_Server\<close> (\<^verbatim>\<open>server/src/udpserver.ts\<close>, \<^verbatim>\<open>auth/\<close>, \<^verbatim>\<open>main.ts\<close>): peers live in a store that the two maps and the
    suspended calls share; \<open>srv_step\<close> interleaves datagrams, filled challenges, decided logins, failed sends, timers and
    reloads in any order.  Only logged-in peers make the server relay, a login needs the password, routing is exact.
  \<^item> \<^verbatim>\<open>Desktop_Model\<close>, \<^verbatim>\<open>Desktop_Control\<close> (\<^verbatim>\<open>desktop/model.cpp\<close>, \<^verbatim>\<open>controller.cpp\<close>, \<^verbatim>\<open>posix-supervisor.cpp\<close>): quoting is
    read back exactly by a shell and by AppleScript, the helper stops its child and loses no output, and
    \<^verbatim>\<open>Desktop_Session\<close> shows that what the application validates the relay's own parser and start accept.
  \<^item> \<^verbatim>\<open>Rpc_Codec\<close>, \<^verbatim>\<open>Rpc_Server\<close>, \<^verbatim>\<open>Rpc_Ws\<close> (\<^verbatim>\<open>src/rpc/\<close>): Base64, line splitting, the chunked buffer, the commands, the token
    check, and the WebSocket form of the remote control with its handshake and its decoder of frames.
  \<^item> \<^verbatim>\<open>Gateway\<close>, \<^verbatim>\<open>Socks5\<close> (\<^verbatim>\<open>gateway.cpp\<close>, \<^verbatim>\<open>proxy_direct.cpp\<close>, \<^verbatim>\<open>proxy_socks5.cpp\<close>): the UDP part of the gateway.  The table
    of flows is a locale that the direct and the SOCKS5 proxy interpret; replies go back to the sender of the packet that
    opened the flow, and the SOCKS5 negotiation and its datagrams are exact.

  \<^bold>\<open>This theory\<close> holds the properties that span the components of the relay: forwarding from console to console, safety of
  every run after a successful start, the pinned console, the discovery sweep, start and stop.

  \<^bold>\<open>Bounds and termination.\<close>  No model uses fuel: every loop is a structural recursion or has a termination proof (the
  padding of \<^verbatim>\<open>SHA1Final\<close>, the line splitters, the shifts of \<^verbatim>\<open>subnetFor\<close>, the option parser of DHCP), but for the loop
  of the WebSocket decoder, which is a partial function: it is shown to return on the frames of a client that are followed
  by a further byte, and to leave the code's defined behaviour where a read ends with a frame.  Discovery is shown to cover
  both subnets within 506 ticks and to start over after 600 ticks of rest.

  \<^bold>\<open>Not modelled.\<close>
  \<^item> \<^verbatim>\<open>lwip/\<close> is the vendored lwIP stack, and \<^verbatim>\<open>uv_lwip/\<close> the glue between it and libuv; the relay core only hands packets
    to the gateway behind it, and its result is an argument.
  \<^item> The TCP part of the gateway and its proxies consists of callbacks on sockets of libuv and lwIP.
  \<^item> \<^verbatim>\<open>atoi\<close> of \<^verbatim>\<open>--pmtu\<close> is an unbounded integer, the deadline of the helper is a number of seconds, and \<open>relay_step\<close> calls the
    capture handlers without the thread of \<^verbatim>\<open>uv_pcap_callback\<close> in front of them.
  \<^item> Threads and handles of libpcap and libuv, signals, log output, the JSON status output of \<^verbatim>\<open>main.c\<close>, \<^verbatim>\<open>npcap-loader.c\<close> and
    \<^verbatim>\<open>win-firewall.c\<close>: calls of one platform without results the program uses.
  \<^item> Windows and buttons (\<^verbatim>\<open>desktop/window.cpp\<close>, \<^verbatim>\<open>macos/\<close>), the installer of third-party programs
    (\<^verbatim>\<open>desktop/dependencies.cpp\<close>), the server's status page (\<^verbatim>\<open>monitor.ts\<close>), build and packaging scripts.
\<close>

section \<open>Forwarding across the overlay\<close>

text \<open>
  C1.  A game broadcast crosses the overlay.  When the console of relay \<open>a\<close> broadcasts a packet, \<open>a\<close> puts exactly one
  frame on the overlay, and a relay \<open>b\<close> of the same overlay that captures this frame puts exactly one frame on
  its own Wi-Fi: a broadcast of the same packet, with the overlay address of \<open>a\<close> as its source, valid checksums
  and every other byte unchanged.
\<close>

theorem broadcast_crosses_overlay:
  assumes a: "run_ok a" "wifi_forwardable ea f a" "console_frame ea f a"
      "overlay_dst a (ip_at (drop 14 f) 16) = zerotier_broadcast_ip a"
    and b: "run_ok b" "switch_seen b" "zerotier_broadcast_ip b = zerotier_broadcast_ip a" "zerotier_mac b \<noteq> zerotier_mac a"
  shows "\<exists>a' g q b'. relay_step ea (WifiFrame f) a = Some a' \<and> delivers ZeroTier [g] a a' \<and>
    relay_step eb (ZeroTierFrame g) b = Some b' \<and>
    translated_ok (ip_packet f) (zerotier_ip a) (zerotier_broadcast_ip a) q \<and>
    delivers WiFi [ether_bytes BROADCAST_MAC (wifi_mac b) ETHER_TYPE_IPV4 q] b b'"
proof -
  obtain p a' where 1: "relay_step ea (WifiFrame f) a = Some a'"
    "translated_ok (ip_packet f) (zerotier_ip a) (zerotier_broadcast_ip a) p"
    "delivers ZeroTier (overlay_frames ea a (zerotier_broadcast_ip a) p) a a'"
    using wifi_handler_delivers [OF a(1-3) a(4) [symmetric]] by auto
  let ?g = "ether_bytes BROADCAST_MAC (zerotier_mac a) ETHER_TYPE_IPV4 p"
  note g = relay_frame_forwardable [OF a(2) 1(2) b(2,3,4)]
  have p: "ip_at p 12 = zerotier_ip a" "ip_at p 16 = zerotier_broadcast_ip a" using 1(2) by (simp_all add: translated_ok_def Let_def)
  obtain q r evs b' where 2: "relay_step eb (ZeroTierFrame ?g) b = Some b'"
    "translated_ok p (zerotier_ip a) (wifi_dst ?g b) q"
    "out b' = out b @ Tx WiFi 0 (wifi_frame ?g b q) r # evs" "probe_follows eb ?g b evs"
    using zerotier_handler_delivers [OF b(1) g(1), of eb] g(2) p(1) by auto
  have dst: "wifi_dst ?g b = zerotier_broadcast_ip a" "wifi_frame ?g b q = ether_bytes BROADCAST_MAC (wifi_mac b) ETHER_TYPE_IPV4 q"
    using p(2) b(3) by (simp_all add: wifi_dst_def wifi_frame_def)
  have "evs = []" using 2(4) p(2) b(3) by (simp add: probe_follows_def)
  then have "delivers WiFi [ether_bytes BROADCAST_MAC (wifi_mac b) ETHER_TYPE_IPV4 q] b b'"
    using 2(3) dst(2) by (auto intro: delivers_one)
  moreover have "translated_ok (ip_packet f) (zerotier_ip a) (zerotier_broadcast_ip a) q"
    using translated_trans [OF 1(2) 2(2)] wifi_forwardable_packet(4,5) [OF a(2)] dst(1) by simp
  moreover have "delivers ZeroTier [?g] a a'" using 1(3) by (simp add: overlay_frames_def)
  ultimately show ?thesis using 1(1) 2(1) by blast
qed

theorem broadcast_crosses_overlay_witness:
  "\<exists>a' g q b'. relay_step demo_env (WifiFrame game_broadcast) demo_relay = Some a' \<and> delivers ZeroTier [g] demo_relay a' \<and>
    relay_step demo_env (ZeroTierFrame g) peer_relay = Some b' \<and>
    translated_ok (ip_packet game_broadcast) (IP4 10 147 17 5) (IP4 10 147 17 255) q \<and>
    delivers WiFi [ether_bytes BROADCAST_MAC wlan_mac ETHER_TYPE_IPV4 q] peer_relay b'"
proof -
  have "overlay_dst demo_relay (ip_at (drop 14 game_broadcast) 16) = zerotier_broadcast_ip demo_relay"
    unfolding game_broadcast_bytes by (simp add: overlay_dst_def is_nintendo_lan_broadcast_def ip_at_def demo_defs)
  moreover have "switch_seen peer_relay" "zerotier_broadcast_ip peer_relay = zerotier_broadcast_ip demo_relay"
    "zerotier_mac peer_relay \<noteq> zerotier_mac demo_relay" by (simp_all add: peer_relay_def demo_defs)
  moreover have "zerotier_ip demo_relay = IP4 10 147 17 5" "zerotier_broadcast_ip demo_relay = IP4 10 147 17 255"
    "wifi_mac peer_relay = wlan_mac" by (simp_all add: peer_relay_def demo_defs)
  ultimately show ?thesis
    using broadcast_crosses_overlay [OF demo_relay_ok demo_forwardable demo_console_frame _ peer_relay_ok, of demo_env] by metis
qed

text \<open>
  C9.  Every forwardable packet of the console goes to the overlay: the handler of the Wi-Fi adapter puts exactly the
  frames of \<open>overlay_frames\<close> on the overlay (one broadcast; one unicast to a known peer; an ARP request and a
  broadcast for an unknown peer), carrying the packet translated to the relay's overlay address.
\<close>

theorem console_packet_forwarded:
  assumes "run_ok lp" "wifi_forwardable e f lp" "console_frame e f lp"
  shows "\<exists>q lp'. relay_step e (WifiFrame f) lp = Some lp' \<and>
    translated_ok (ip_packet f) (zerotier_ip lp) (overlay_dst lp (ip_at (drop 14 f) 16)) q \<and>
    delivers ZeroTier (overlay_frames e lp (overlay_dst lp (ip_at (drop 14 f) 16)) q) lp lp'"
  using wifi_handler_delivers [OF assms refl] by simp

theorem console_packet_forwarded_witness:
  "run_ok demo_relay \<and> wifi_forwardable demo_env game_broadcast demo_relay \<and>
   (\<exists>q lp'. relay_step demo_env (WifiFrame game_broadcast) demo_relay = Some lp' \<and>
    translated_ok (ip_packet game_broadcast) (zerotier_ip demo_relay)
      (overlay_dst demo_relay (ip_at (drop 14 game_broadcast) 16)) q \<and>
    delivers ZeroTier (overlay_frames demo_env demo_relay (overlay_dst demo_relay (ip_at (drop 14 game_broadcast) 16)) q)
      demo_relay lp')"
  using console_packet_forwarded [OF demo_relay_ok demo_forwardable demo_console_frame] demo_relay_ok demo_forwardable
  by blast

text \<open>
  C10.  A packet from the overlay for the console is delivered: the handler of the overlay adapter puts one frame on the
  Wi-Fi, to the broadcast address for a broadcast and to the console's own hardware and IPv4 address otherwise,
  with the sender's address kept; only the single delivery probe may follow it.
\<close>

theorem peer_packet_delivered:
  assumes "run_ok lp" "zerotier_forwardable f lp"
  shows "\<exists>q r evs lp'. relay_step e (ZeroTierFrame f) lp = Some lp' \<and>
    translated_ok (ip_packet f) (ip_at (drop 14 f) 12) (wifi_dst f lp) q \<and>
    out lp' = out lp @ Tx WiFi 0 (wifi_frame f lp q) r # evs \<and> probe_follows e f lp evs"
  using zerotier_handler_delivers [OF assms] by simp

theorem peer_packet_delivered_witness:
  "wifi_dst peer_frame demo_relay = console_ip \<and>
   (\<exists>q r evs lp'. relay_step demo_env (ZeroTierFrame peer_frame) demo_relay = Some lp' \<and>
    translated_ok (ip_packet peer_frame) (ip_at (drop 14 peer_frame) 12) (wifi_dst peer_frame demo_relay) q \<and>
    out lp' = out demo_relay @ Tx WiFi 0 (wifi_frame peer_frame demo_relay q) r # evs \<and>
    probe_follows demo_env peer_frame demo_relay evs)"
proof -
  have "wifi_dst peer_frame demo_relay = console_ip"
    unfolding wifi_dst_def peer_frame_bytes by (simp add: ip_at_def demo_defs)
  then show ?thesis using peer_packet_delivered [OF demo_relay_ok demo_peer_frame] by blast
qed

text \<open>
  The console's complaints about game ports stay off the overlay: a Port Unreachable message of the console is
  consumed by the Wi-Fi handler and nothing is sent, so that a peer does not drop the session.
\<close>

theorem port_unreachable_suppressed:
  assumes ok: "run_ok lp" and f: "length f < 65536" "console_header f lp" "console_frame e f lp" "wifi_relayable f lp"
    and pu: "port_unreachable (drop 14 f) (unat (be16 (drop 14 f ! 2) (drop 14 f ! 3)))"
  shows "\<exists>lp'. relay_step e (WifiFrame f) lp = Some lp' \<and> out lp' = out lp"
proof -
  obtain lp6 where 6: "view lp6 = view lp"
    "\<forall>lp'. lan_play_relay_wifi_ipv4 e f lp6 = Some (True, lp') \<longrightarrow>
       lan_play_pcap_handler e f (length f) (wifi_mac lp) lp = Some lp'"
    using wifi_handler_console [OF ok f(2,3)] by blast
  note v = view_cong [OF 6(1)]
  have "lan_play_relay_wifi_ipv4 e f lp6 = Some (True, lp6)"
    using relay_wifi_port_unreachable [OF f(1) _ pu] f(4) v(7) by simp
  then show ?thesis using 6(2) v(8) by auto
qed

theorem port_unreachable_suppressed_witness:
  "\<exists>lp'. relay_step demo_env (WifiFrame unreachable_frame) demo_relay = Some lp' \<and> out lp' = []"
proof -
  have "console_header unreachable_frame demo_relay" "wifi_relayable unreachable_frame demo_relay"
    unfolding console_header_def wifi_relayable_def overlay_target_def is_zerotier_destination_def unreachable_frame_bytes
    by (simp_all add: demo_defs header_defs)
  moreover have "console_frame demo_env unreachable_frame demo_relay"
    unfolding console_frame_def unreachable_frame_bytes
    by (simp add: demo_defs header_defs NONE_MAC_def demo_env_def default_options_def)
  moreover have "port_unreachable (drop 14 unreachable_frame)
      (unat (be16 (drop 14 unreachable_frame ! 2) (drop 14 unreachable_frame ! 3)))" "length unreachable_frame < 65536"
    unfolding port_unreachable_def unreachable_frame_bytes by (simp_all add: header_defs is_fragment_def)
  moreover have "out demo_relay = []" by (simp add: demo_defs)
  ultimately show ?thesis using port_unreachable_suppressed [OF demo_relay_ok] by metis
qed

section \<open>Runs\<close>

text \<open>
  C2.  A started relay is safe for as long as it runs.  After a successful \<^verbatim>\<open>lan_play_init\<close>, in every state
  reached on standard Ethernet frames and timer ticks, the invariant holds, the network configuration is the one of
  the start, every frame sent is a complete Ethernet frame from the sending adapter's own address, and the next
  input is again handled without a fault: no access out of range, no failed assertion.  A frame of the overlay adapter
  must hold the packet its header announces; and with the DHCP server on, a frame on the Wi-Fi to the server's
  port must close its options with the end marker (without one \<^verbatim>\<open>dhcp_parse\<close> reads behind the message, see
  \<open>dhcp_parse_needs_end\<close>).
\<close>

theorem started_relay_runs_safely:
  assumes init: "lan_play_init e calls lp0 = Inr lp"
    and fresh: "captures_ok (capture_state lp0)" "\<forall>c \<in> set (caps (capture_state lp0)). \<not> opened c" "\<not> switch_seen lp0"
    and run: "reaches lp lp'"
  shows "run_ok lp' \<and> config lp' = config lp \<and> (\<exists>evs. out lp' = out lp0 @ evs \<and> (\<forall>ev \<in> set evs. event_own lp ev)) \<and>
    (input_ok e' i \<longrightarrow> (\<exists>lp''. relay_step e' i lp' = Some lp''))"
proof -
  have lp: "run_ok lp" "out lp = out lp0" using init_run_ok [OF init fresh] by simp_all
  have s: "run_step lp lp'" by (rule reaches_run_step [OF run lp(1)])
  then show ?thesis using relay_step_ok [OF run_step_D [OF s], of e' i] lp(2) by (auto simp: run_step_def advance_def)
qed

theorem started_relay_runs_safely_witness:
  "\<exists>lp'. relay_step demo_env DiscoveryTick demo_started = Some lp' \<and> run_ok lp' \<and> config lp' = config demo_started \<and>
    (\<exists>lp''. relay_step demo_env (WifiFrame game_broadcast) lp' = Some lp'')"
proof -
  obtain lp' where 1: "relay_step demo_env DiscoveryTick demo_started = Some lp'"
    using relay_step_ok [OF demo_started_ok, of demo_env DiscoveryTick] by (auto simp: input_ok_def)
  have "reaches demo_started lp'" by (rule reaches.step [OF reaches.here _ 1]) simp
  moreover have "input_ok demo_env (WifiFrame game_broadcast)"
    unfolding game_broadcast_bytes by (simp add: input_ok_def demo_env_def default_options_def)
  ultimately show ?thesis using started_relay_runs_safely [OF demo_init zero_relay_fresh] 1 by blast
qed

text \<open>
  C11.  The relay does not answer itself: a frame that a run has put on an adapter, captured again on the same adapter
  later in the run, is only written to the captures; the relay sends nothing and no other part of its state changes,
  so no forwarding loop arises.
\<close>

theorem own_frames_not_relayed:
  assumes ok: "run_ok lp" and run: "reaches lp lp'" and sent: "Tx s i f r \<in> set (drop (length (out lp)) (out lp'))"
  shows "\<exists>lp''. relay_step e (case s of WiFi \<Rightarrow> WifiFrame f | ZeroTier \<Rightarrow> ZeroTierFrame f) lp' = Some lp'' \<and>
    lp'' = lp'\<lparr>capture_state := capture_frame (clk e) (flush_oks e) HOST f (capture_state lp')\<rparr>"
proof -
  have s: "run_step lp lp'" by (rule reaches_run_step [OF run ok])
  then obtain evs where "out lp' = out lp @ evs" "\<forall>ev \<in> set evs. event_own lp ev" "\<forall>s. hw_addr s lp' = hw_addr s lp"
    by (auto simp: run_step_def advance_def)
  then have "14 \<le> length f" "mac_at f 6 = hw_addr s lp'" using sent by fastforce+
  then show ?thesis by (rule own_frame_ignored)
qed

theorem own_frames_not_relayed_witness:
  "\<exists>f r lp' lp''. relay_step demo_env DiscoveryTick demo_started = Some lp' \<and> out lp' = [Tx WiFi 0 f r] \<and>
    relay_step demo_env (WifiFrame f) lp' = Some lp'' \<and> out lp'' = [Tx WiFi 0 f r]"
proof -
  obtain f r lp' where 1: "relay_step demo_env DiscoveryTick demo_started = Some lp'" "out lp' = [Tx WiFi 0 f r]"
    using demo_tick by auto
  have "reaches demo_started lp'" by (rule reaches.step [OF reaches.here _ 1(1)]) simp
  moreover have "Tx WiFi 0 f r \<in> set (drop (length (out demo_started)) (out lp'))"
    using 1(2) by (simp add: demo_started_def zero_relay_def)
  ultimately show ?thesis using own_frames_not_relayed [OF demo_started_ok, of lp' WiFi 0 f r demo_env] 1 by auto
qed

text \<open>
  C12.  The console is pinned.  Once a run knows a console, it keeps its address, keeps its hardware address as soon as
  ARP or a broadcast has confirmed it, and the pair is always a legal one: an address of the overlay or of the Wi-Fi subnet, not a
  network or broadcast address and not the relay's own, with a Nintendo hardware address on the Wi-Fi subnet.
\<close>

theorem console_pinned:
  assumes "run_ok lp" "reaches lp lp'" "switch_seen lp"
  shows "switch_seen lp' \<and> switch_ip lp' = switch_ip lp \<and> (switch_mac_confirmed lp \<longrightarrow> switch_mac lp' = switch_mac lp) \<and>
    console_address lp (switch_ip lp) (switch_mac lp')"
proof -
  have s: "run_step lp lp'" by (rule reaches_run_step [OF assms(2,1)])
  then have k: "console_kept lp lp'" "console_ok lp'" "config lp' = config lp" by (simp_all add: run_step_def advance_def run_ok_def)
  then show ?thesis using assms(3) console_address_config [OF k(3)] by (auto simp: console_kept_def console_ok_def)
qed

theorem console_pinned_witness:
  "\<exists>lp'. relay_step demo_env (WifiFrame game_broadcast) demo_relay = Some lp' \<and> switch_ip lp' = console_ip \<and>
    switch_mac lp' = console_mac"
proof -
  have i: "input_ok demo_env (WifiFrame game_broadcast)"
    unfolding game_broadcast_bytes by (simp add: input_ok_def demo_env_def default_options_def)
  obtain lp' where 1: "relay_step demo_env (WifiFrame game_broadcast) demo_relay = Some lp'"
    using relay_step_ok [OF demo_relay_ok i] by blast
  have "reaches demo_relay lp'" using reaches.step [OF reaches.here _ 1] i by (simp add: input_ok_def)
  moreover have "switch_seen demo_relay" "switch_mac_confirmed demo_relay" "switch_ip demo_relay = console_ip"
    "switch_mac demo_relay = console_mac" by (simp_all add: demo_relay_def)
  ultimately show ?thesis using console_pinned [OF demo_relay_ok] 1 by metis
qed



text \<open>
  C14.  Discovery covers both subnets, round after round.  A relay that has just started with discovery on and a known
  Wi-Fi subnet, and that sees no console, asks by ARP for every host 2 to 254 of the Wi-Fi adapter's /24 (but itself) and
  then for every host 2 to 254 of the overlay's, in this order, within 506 ticks of its timer; it asks nobody in the 600
  ticks that follow; and then it starts over, so that after \<open>n\<close> rounds of 1106 ticks, 506 more and any part of the rest
  exactly \<open>n + 1\<close> rounds of requests have been sent.
\<close>

theorem discovery_covers_both_subnets:
  assumes init: "lan_play_init e calls lp0 = Inr lp" "discover_switch (options e)"
    and fresh: "captures_ok (capture_state lp0)" "\<forall>c \<in> set (caps (capture_state lp0)). \<not> opened c" "\<not> switch_seen lp0"
    and known: "wifi_subnet_known lp" and rest: "k \<le> 600"
  shows "\<exists>lp'. ticks (n * 1106 + 506 + k) e' lp = Some lp' \<and>
    delivers WiFi (concat (replicate (Suc n) (wifi_requests lp @ overlay_requests lp))) lp lp'"
proof -
  have "run_ok lp" using init_run_ok [OF init(1) fresh] by simp
  then have "io_ok lp" by (simp add: run_ok_def relay_ok_def)
  then have "round_start lp" using init_sweep [OF init(1,2) fresh(3)] known
    by (simp add: round_start_def sweep_at_def sweeping_def)
  then show ?thesis using ticks_asked [OF _ rest] unfolding round_requests_def by blast
qed

theorem discovery_covers_both_subnets_witness:
  "\<exists>lp'. ticks (1 * 1106 + 506 + 600) demo_env demo_started = Some lp' \<and>
    delivers WiFi (concat (replicate (Suc 1) (wifi_requests demo_started @ overlay_requests demo_started))) demo_started lp'"
proof -
  have "discover_switch (options demo_env)" "wifi_subnet_known demo_started"
    by (simp_all add: zero_relay_def demo_env_def default_options_def demo_started_def)
  then show ?thesis using discovery_covers_both_subnets [OF demo_init _ zero_relay_fresh _ le_refl] by blast
qed

section \<open>Starting and stopping\<close>

text \<open>
  C29.  What a successful start establishes: the invariant of the running relay, exactly the five game ports reserved on
  the overlay address, nothing sent yet, hardware addresses on both adapters, and the gateway's and the relay's
  overlay address inside the configured subnet.
\<close>

theorem start_establishes:
  assumes init: "lan_play_init e calls lp0 = Inr lp"
    and fresh: "captures_ok (capture_state lp0)" "\<forall>c \<in> set (caps (capture_state lp0)). \<not> opened c" "\<not> switch_seen lp0"
  shows "run_ok lp \<and> guard_ports (udp_guard lp) = {35000, 49152, 49153, 49154, 49155} \<and> out lp = out lp0 \<and>
    wifi_mac lp \<noteq> NONE_MAC \<and> zerotier_mac lp \<noteq> NONE_MAC \<and>
    ip_and (ctx_ip (ctx lp)) (subnet_mask (ctx lp)) = subnet_net (ctx lp) \<and>
    ip_and (zerotier_ip lp) (subnet_mask (ctx lp)) = subnet_net (ctx lp)"
  using init_run_ok [OF init fresh] by (auto simp: all_sides hw_simps)

theorem start_establishes_witness:
  "lan_play_init demo_env demo_calls zero_relay = Inr demo_started \<and>
   guard_ports (udp_guard demo_started) = {35000, 49152, 49153, 49154, 49155}"
  using start_establishes [OF demo_init zero_relay_fresh] demo_init by blast

text \<open>
  A bad network is refused before any adapter is opened: a subnet that does not parse ends the start with
  \<open>BadSubnet\<close>, and a gateway address outside the subnet with \<open>GatewayOutside\<close>, whatever the system would have done.
\<close>

theorem start_rejects_network:
  assumes "relay_server_addr (options e) = None" "relay_password (options e) = None" "opt_subnet (options e) = Some s" "gateway_ip (options e) = Some g"
  shows "(parse_subnet s = None \<longrightarrow> lan_play_init e calls lp = Inl BadSubnet) \<and>
    (parse_subnet s = Some (net, nm) \<and> parse_ipv4_text g = Some ip \<and> ip_and ip nm \<noteq> net \<longrightarrow>
       lan_play_init e calls lp = Inl GatewayOutside)"
  using assms by (auto simp: lan_play_init_def Let_def init_login_def init_subnet_def init_gateway_ip_def bindE_def orE_def)

theorem start_rejects_network_witness:
  "lan_play_init (demo_env\<lparr>options := (options demo_env)\<lparr>opt_subnet := Some ''10.0.0.0/8'', gateway_ip := Some ''11.0.0.1''\<rparr>\<rparr>)
     demo_calls zero_relay = Inl GatewayOutside"
proof -
  have "parse_subnet ''10.0.0.0/8'' = Some (IP4 10 0 0 0, IP4 255 0 0 0)" "parse_ipv4_text ''11.0.0.1'' = Some (IP4 11 0 0 1)"
    by code_simp+
  then show ?thesis
    using start_rejects_network [of "demo_env\<lparr>options := (options demo_env)\<lparr>opt_subnet := Some ''10.0.0.0/8'',
        gateway_ip := Some ''11.0.0.1''\<rparr>\<rparr>" "''10.0.0.0/8''" "''11.0.0.1''" demo_calls zero_relay
        "IP4 10 0 0 0" "IP4 255 0 0 0" "IP4 11 0 0 1"]
    by (simp add: demo_env_def default_options_def)
qed

text \<open>
  C33.  Stopping releases everything: in every reachable state \<^verbatim>\<open>lan_play_close\<close> closes each reserved port once, ends
  discovery, closes all capture files, and completely flushes those whose flush succeeds.
\<close>

theorem close_releases:
  assumes "run_ok lp" "reaches lp lp'" "lan_play_close e c g lp' = (socks, rc, lp'')"
  shows "set socks = guard_ports (udp_guard lp') \<and> distinct socks \<and> udp_guard lp'' = None \<and>
    (discover_switch (options e) \<longrightarrow> \<not> switch_discovery_active lp'') \<and>
    (\<forall>c \<in> set (caps (capture_state lp'')). \<not> opened c) \<and>
    (\<forall>i < 5. opened (caps (capture_state lp') ! i) \<and> flush_oks e i \<longrightarrow>
       flushed (caps (capture_state lp'') ! i) = length (records (caps (capture_state lp'') ! i)))"
proof -
  have ok: "run_ok lp'" using run_step_D [OF reaches_run_step [OF assms(2,1)]] .
  then have cap: "captures_ok (capture_state lp')" and g: "guard_opt_ok (udp_guard lp')"
    by (simp_all add: run_ok_def relay_ok_def io_ok_def)
  have lp'': "socks = native_udp_guard_close (udp_guard lp')" "udp_guard lp'' = None"
    "capture_state lp'' = close_captures (flush_oks e) (capture_state lp')"
    "discover_switch (options e) \<longrightarrow> \<not> switch_discovery_active lp''"
    using assms(3) by (auto simp: lan_play_close_def Let_def)
  have "set socks = guard_ports (udp_guard lp') \<and> distinct socks"
    using g by (auto simp: lp''(1) native_udp_guard_close_def guard_ports_def guard_opt_ok_def guard_ok_def split: option.splits)
  moreover have "length (caps (capture_state lp')) = 5" using cap by (simp add: captures_ok_def)
  ultimately show ?thesis using lp''(2-4) close_captures_closed close_flushes_all [OF cap] by auto
qed

theorem close_releases_witness:
  "\<exists>socks rc lp''. lan_play_close demo_env 0 0 demo_relay = (socks, rc, lp'') \<and> set socks = {35000, 49152, 49153, 49154, 49155}"
proof -
  obtain socks rc lp'' where 1: "lan_play_close demo_env 0 0 demo_relay = (socks, rc, lp'')" by (metis prod_cases3)
  have "guard_ports (udp_guard demo_relay) = {35000, 49152, 49153, 49154, 49155}" by (auto simp: demo_defs guard_ports_def)
  then show ?thesis using close_releases [OF demo_relay_ok reaches.here 1] 1 by auto
qed

end
